(* ===== verification/Prelude.thy ===== *)
theory Prelude
  imports Main "HOL-Library.Word" "HOL-Library.AList" "HOL-Library.Monad_Syntax"
begin

text \<open>
  Shared vocabulary of the development: the machine integers of the source, the
  reading of a Rust panic, the bounded loops over \<^verbatim>\<open>0..=255\<close>, and the generic facts on
  lists, options and association lists that the component theories use.

  Conventions.
  \<^item> \<open>u8\<close>, \<open>u16\<close>, \<open>u32\<close> and \<open>u64\<close> are words of that width: \<open>+\<close> wraps around as in a
    release build of the source; likewise a \<^verbatim>\<open>debug_assert!\<close> is compiled out.
  \<^item> Millisecond clocks and the versions derived from them (\<^verbatim>\<open>u64\<close> in the source, only compared
    and increased by small constants) are \<open>nat\<close>, under the name \<open>time\<close>.
  \<^item> A computation that may panic (\<^verbatim>\<open>expect\<close>, \<^verbatim>\<open>assert!\<close>, an index out of range) has type
    \<open>'a run\<close>: \<open>None\<close> is the panic, \<open>Some x\<close> the normal return of \<open>x\<close>. Rust's own \<^verbatim>\<open>Option\<close>
    is a second, inner \<open>option\<close>.
  \<^item> A \<^verbatim>\<open>HashMap\<close> that the code iterates is an association list with distinct keys; its order
    stands for the unspecified iteration order, and every theorem is about an arbitrary one.
\<close>

type_synonym u8 = "8 word"
type_synonym u16 = "16 word"
type_synonym u32 = "32 word"
type_synonym u64 = "64 word"
type_synonym bytes = "u8 list"
type_synonym time = nat
type_synonym 'a run = "'a option"

named_theorems wf_intros "introduction rules for the well-formedness invariants"
named_theorems run_simps "evaluation of panicking computations under their preconditions"

subsection \<open>Loops over all 256 indices\<close>

text \<open>The range \<^verbatim>\<open>0..=255\<close> of \<^verbatim>\<open>u8\<close> indices, in order.\<close>

definition all_u8 :: "u8 list" where
  "all_u8 = map word_of_nat [0..<256]"

text \<open>A \<^verbatim>\<open>for\<close> loop whose body updates a state and may panic.\<close>

fun for_run :: "('a \<Rightarrow> 's \<Rightarrow> 's run) \<Rightarrow> 'a list \<Rightarrow> 's \<Rightarrow> 's run" where
  "for_run f [] s = Some s"
| "for_run f (x # xs) s = f x s \<bind> for_run f xs"

text \<open>Iteration that collects results, stopping at a panic.\<close>

fun map_run :: "('a \<Rightarrow> 'b run) \<Rightarrow> 'a list \<Rightarrow> 'b list run" where
  "map_run f [] = Some []"
| "map_run f (x # xs) = do { y \<leftarrow> f x; ys \<leftarrow> map_run f xs; Some (y # ys) }"

text \<open>Reading and replacing a cell of a fixed array by a checked index.\<close>

definition index_run :: "'a list \<Rightarrow> nat \<Rightarrow> 'a run" where
  "index_run xs i = (if i < length xs then Some (xs ! i) else None)"

definition update_run :: "'a list \<Rightarrow> nat \<Rightarrow> 'a \<Rightarrow> 'a list run" where
  "update_run xs i x = (if i < length xs then Some (xs[i := x]) else None)"

subsection \<open>Facts on the index range\<close>

lemma unat_u8_less: "unat (i :: u8) < 256"
  using unsigned_less [of i, where 'a = nat] by simp

lemma set_all_u8 [simp]: "set all_u8 = UNIV"
proof -
  have "i \<in> set all_u8" for i :: u8
  proof -
    have "word_of_nat (unat i) = i" and "unat i \<in> {0..<256}"
      using unat_u8_less [of i] by simp_all
    then show ?thesis unfolding all_u8_def set_map set_upt by (rule rev_image_eqI [rotated, OF sym])
  qed
  then show ?thesis by blast
qed

lemma length_all_u8 [simp]: "length all_u8 = 256"
  by (simp add: all_u8_def)

lemma distinct_all_u8 [simp]: "distinct all_u8"
proof -
  have "card (set all_u8) = length all_u8"
    by (simp add: card_word)
  then show ?thesis by (rule card_distinct)
qed

lemma sorted_all_u8 [simp]: "sorted all_u8"
proof -
  have "word_of_nat i \<le> (word_of_nat j :: u8)" if "i \<le> j" "j < 256" for i j
    using that by (simp add: word_le_nat_alt unat_of_nat take_bit_nat_eq_self)
  then show ?thesis
    unfolding all_u8_def by (auto simp: sorted_iff_nth_mono)
qed

subsection \<open>Facts on loops\<close>

lemma for_run_append:
  "for_run f (xs @ ys) s = for_run f xs s \<bind> for_run f ys"
  proof (induction xs arbitrary: s)
  case (Cons x xs)
  then show ?case by (cases "f x s") simp_all
qed simp

lemma for_run_total:
  assumes "\<And>x s. x \<in> set xs \<Longrightarrow> P s \<Longrightarrow> f x s = Some (g x s)"
    and "\<And>x s. x \<in> set xs \<Longrightarrow> P s \<Longrightarrow> P (g x s)"
    and "P s"
  shows "for_run f xs s = Some (fold g xs s)"
  using assms by (induction xs arbitrary: s) auto

lemma fold_invariant_set:
  assumes "\<And>x s. x \<in> set xs \<Longrightarrow> P s \<Longrightarrow> P (g x s)" and "P s"
  shows "P (fold g xs s)"
  using assms by (induction xs arbitrary: s) auto

lemma map_run_total:
  assumes "\<And>x. x \<in> set xs \<Longrightarrow> f x = Some (g x)"
  shows "map_run f xs = Some (map g xs)"
  using assms by (induction xs) auto

lemma map_run_Some: "(\<And>x. x \<in> set xs \<Longrightarrow> \<exists>y. f x = Some y) \<Longrightarrow> \<exists>ys. map_run f xs = Some ys"
  using map_run_total [of xs f "\<lambda>x. the (f x)"] by fastforce

lemma bind_total: "\<exists>x. a = Some x \<Longrightarrow> (\<And>x. a = Some x \<Longrightarrow> \<exists>y. f x = Some y) \<Longrightarrow> \<exists>y. a \<bind> f = Some y"
  by (cases a) auto

lemma index_run_Some [simp]: "i < length xs \<Longrightarrow> index_run xs i = Some (xs ! i)"
  by (simp add: index_run_def)

lemma update_run_Some [simp]: "i < length xs \<Longrightarrow> update_run xs i x = Some (xs[i := x])"
  by (simp add: update_run_def)

lemma find_SomeD: "find P xs = Some x \<Longrightarrow> x \<in> set xs \<and> P x"
  by (induction xs) (auto split: if_splits)

lemma in_set_map_filter: "y \<in> set (List.map_filter f xs) \<longleftrightarrow> (\<exists>x\<in>set xs. f x = Some y)"
  by (force simp: List.map_filter_def)

subsection \<open>Sorted lists of indices\<close>

lemma sorted_enum_unique:
  fixes xs :: "u8 list"
  assumes "sorted xs" "distinct xs" "set xs = {i. P i}"
  shows "xs = filter P all_u8"
  using assms by (intro sorted_distinct_set_unique) (auto intro: sorted_wrt_filter)

lemma sort_snoc_enum:
  assumes "\<not> P i"
  shows "sort (filter P all_u8 @ [i]) = filter (\<lambda>j. j = i \<or> P j) all_u8"
  using assms by (intro sorted_enum_unique) auto

lemma remove1_enum:
  "remove1 i (filter P all_u8) = filter (\<lambda>j. j \<noteq> i \<and> P j) all_u8"
  by (auto simp: distinct_remove1_removeAll removeAll_filter_not_eq intro: filter_cong)

subsection \<open>Change logs\<close>

text \<open>
  The control plane describes its state changes to the data plane as a queue of deltas.
  \<open>tracks\<close> says that a step from \<open>s\<close> to \<open>t\<close> logs exactly its own effect: replaying the new
  entries on the old abstract value gives the new one. The locale \<open>delta_log\<close> is the contract of
  such a queue towards its consumer: \<open>in_sync\<close> relates a consumer's copy to the producer as long as
  the pending entries account for the difference.
\<close>

definition tracks :: "('s \<Rightarrow> 'a) \<Rightarrow> ('s \<Rightarrow> 'e list) \<Rightarrow> ('a \<Rightarrow> 'e \<Rightarrow> 'a) \<Rightarrow> 's \<Rightarrow> 's \<Rightarrow> bool" where
  "tracks view log app s t \<longleftrightarrow> (\<exists>es. log t = log s @ es \<and> foldl app (view s) es = view t)"

lemma tracks_refl: "tracks view log app s s"
  by (auto simp: tracks_def)

lemma tracks_trans: "tracks view log app s t \<Longrightarrow> tracks view log app t u \<Longrightarrow> tracks view log app s u"
  unfolding tracks_def by (metis append_assoc foldl_append)

lemma tracks_fold:
  assumes "\<And>x s. x \<in> set xs \<Longrightarrow> P s \<Longrightarrow> tracks view log app s (g x s)"
    and "\<And>x s. x \<in> set xs \<Longrightarrow> P s \<Longrightarrow> P (g x s)" and "P s"
  shows "tracks view log app s (fold g xs s)"
  using assms
proof (induction xs arbitrary: s)
  case (Cons x xs)
  then have "tracks view log app s (g x s)" "tracks view log app (g x s) (fold g xs (g x s))" by simp_all
  then show ?case by (auto intro: tracks_trans)
qed (simp add: tracks_refl)

locale delta_log =
  fixes view :: "'s \<Rightarrow> 'a"
    and log :: "'s \<Rightarrow> 'e list"
    and app :: "'a \<Rightarrow> 'e \<Rightarrow> 'a"
    and pop :: "'s \<Rightarrow> 'e option \<times> 's"
  assumes pop_Nil: "log s = [] \<Longrightarrow> pop s = (None, s)"
    and pop_Cons: "log s = e # es \<Longrightarrow> \<exists>t. pop s = (Some e, t) \<and> log t = es \<and> view t = view s"
begin

definition in_sync :: "'a \<Rightarrow> 's \<Rightarrow> bool" where
  "in_sync a s \<longleftrightarrow> foldl app a (log s) = view s"

lemma in_sync_step: "in_sync a s \<Longrightarrow> tracks view log app s t \<Longrightarrow> in_sync a t"
  by (auto simp: in_sync_def tracks_def)

lemma in_sync_pop:
  assumes "in_sync a s" "pop s = (Some e, t)"
  shows "in_sync (app a e) t"
proof (cases "log s")
  case Nil
  then show ?thesis using assms(2) by (simp add: pop_Nil)
next
  case (Cons e' es)
  then show ?thesis using pop_Cons [OF Cons] assms by (auto simp: in_sync_def)
qed

lemma in_sync_drained:
  assumes "in_sync a s" "pop s = (None, t)"
  shows "a = view s"
  using assms pop_Cons [of s] by (cases "log s") (auto simp: in_sync_def)

end

subsection \<open>Components driven by inputs\<close>

text \<open>
  The contract between a component and whoever feeds it: on a good state every input is processed without a panic and
  leaves a good state. The extension adds a preorder that every single step respects, such as keeping a log
  truthful.
\<close>

locale run_invariant =
  fixes step :: "'i \<Rightarrow> 's \<Rightarrow> 's run"
    and ok :: "'s \<Rightarrow> bool"
  assumes step_ok: "ok s \<Longrightarrow> \<exists>s'. step i s = Some s' \<and> ok s'"
begin

lemma run_ok: "ok s \<Longrightarrow> \<exists>s'. for_run step ins s = Some s' \<and> ok s'"
proof (induction ins arbitrary: s)
  case (Cons i ins)
  obtain s1 where "step i s = Some s1" "ok s1" using step_ok [OF Cons.prems] by blast
  then show ?case using Cons.IH [of s1] by simp
qed simp

end

locale run_relation = run_invariant +
  fixes rel :: "'b \<Rightarrow> 'b \<Rightarrow> bool"
  assumes rel_refl: "rel s s"
    and rel_trans: "rel s t \<Longrightarrow> rel t u \<Longrightarrow> rel s u"
    and step_rel: "ok s \<Longrightarrow> step i s = Some t \<Longrightarrow> rel s t"
begin

lemma run_rel: "ok s \<Longrightarrow> \<exists>s'. for_run step ins s = Some s' \<and> ok s' \<and> rel s s'"
proof (induction ins arbitrary: s)
  case (Cons i ins)
  obtain s1 where s1: "step i s = Some s1" "ok s1" using step_ok [OF Cons.prems] by blast
  then obtain s2 where "for_run step ins s1 = Some s2" "ok s2" "rel s1 s2" using Cons.IH by blast
  then show ?case using s1 step_rel [OF Cons.prems s1(1)] by (auto intro: rel_trans)
qed (auto intro: rel_refl)

end

subsection \<open>Arrays of 256 cells\<close>

text \<open>
  The contract between a component that keeps one cell per \<^verbatim>\<open>u8\<close> index and the loops that update every
  cell in turn. \<open>step\<close> is a reflexive and transitive relation that single updates respect (here:
  logging their own effect).
\<close>

locale cell_array =
  fixes get :: "'s \<Rightarrow> u8 \<Rightarrow> 'd"
    and put :: "u8 \<Rightarrow> 'd \<Rightarrow> 's \<Rightarrow> 's"
    and norm :: "'d \<Rightarrow> 'd"
    and ok :: "'s \<Rightarrow> bool"
    and cell_ok :: "'d \<Rightarrow> bool"
    and step :: "'s \<Rightarrow> 's \<Rightarrow> bool"
    and cell_step :: "'d \<Rightarrow> 'd \<Rightarrow> bool"
  assumes get_put: "get (put i d s) j = (if j = i then norm d else get s j)"
    and ok_cell: "ok s \<Longrightarrow> cell_ok (get s i)"
    and ok_put: "ok s \<Longrightarrow> cell_ok d \<Longrightarrow> ok (put i d s)"
    and step_put: "ok s \<Longrightarrow> cell_step (get s i) d \<Longrightarrow> step s (put i d s)"
    and step_refl: "step s s"
    and step_trans: "step s t \<Longrightarrow> step t u \<Longrightarrow> step s u"
begin

definition map_cells :: "(u8 \<Rightarrow> 'd \<Rightarrow> 'd) \<Rightarrow> 's \<Rightarrow> 's" where
  "map_cells h s = fold (\<lambda>i s. put i (h i (get s i)) s) all_u8 s"

definition cell_op :: "('d \<Rightarrow> 'd) \<Rightarrow> bool" where
  "cell_op h \<longleftrightarrow> (\<forall>d. cell_ok d \<longrightarrow> cell_ok (h d) \<and> cell_step d (h d))"

lemma put_op: "cell_op h \<Longrightarrow> ok s \<Longrightarrow> ok (put i (h (get s i)) s)"
  by (simp add: cell_op_def ok_cell ok_put)

lemma step_op: "cell_op h \<Longrightarrow> ok s \<Longrightarrow> step s (put i (h (get s i)) s)"
  by (simp add: cell_op_def ok_cell step_put)

lemma map_cells_ok:
  assumes "\<And>i. cell_op (h i)" "ok s"
  shows "ok (map_cells h s)"
  unfolding map_cells_def by (rule fold_invariant_set) (use assms put_op in auto)

lemma map_cells_step:
  assumes "\<And>i. cell_op (h i)" "ok s"
  shows "step s (map_cells h s)"
proof -
  have "step s (fold (\<lambda>i s. put i (h i (get s i)) s) xs s)" if "ok s" for xs s
    using that
  proof (induction xs arbitrary: s)
    case (Cons x xs)
    with assms(1) have "step s (put x (h x (get s x)) s)" "ok (put x (h x (get s x)) s)"
      by (auto intro: step_op put_op)
    with Cons.IH show ?case by (auto intro: step_trans)
  qed (simp add: step_refl)
  with assms show ?thesis by (simp add: map_cells_def)
qed

lemma fold_put_other: "i \<notin> set xs \<Longrightarrow> get (fold (\<lambda>i s. put i (h i (get s i)) s) xs s) i = get s i"
  by (induction xs arbitrary: s) (auto simp: get_put)

lemma fold_put_at:
  "i \<in> set xs \<Longrightarrow> distinct xs \<Longrightarrow>
     get (fold (\<lambda>i s. put i (h i (get s i)) s) xs s) i = norm (h i (get s i))"
proof (induction xs arbitrary: s)
  case (Cons x xs)
  then show ?case by (cases "x = i") (auto simp: fold_put_other get_put)
qed simp

lemma get_map_cells: "get (map_cells h s) i = norm (h i (get s i))"
  unfolding map_cells_def by (rule fold_put_at) simp_all

text \<open>A loop whose body acts as a cell update on good states.\<close>

lemma loop_map_cells:
  assumes "\<And>i s. ok s \<Longrightarrow> P s \<Longrightarrow> f i s = Some (put i (h i (get s i)) s)"
    and "\<And>i. cell_op (h i)" "\<And>i d s. P s \<Longrightarrow> P (put i d s)" "ok s" "P s"
  shows "for_run f all_u8 s = Some (map_cells h s)"
  unfolding map_cells_def using assms
  by (intro for_run_total [where P = "\<lambda>s. ok s \<and> P s"]) (auto simp: put_op)

lemma fold_map_cells:
  assumes "\<And>i s. ok s \<Longrightarrow> f i s = put i (h i (get s i)) s" and "\<And>i. cell_op (h i)" "ok s"
  shows "fold f all_u8 s = map_cells h s"
proof -
  have "for_run (\<lambda>i s. Some (f i s)) all_u8 s = Some (map_cells h s)"
    using assms by (intro loop_map_cells [where P = "\<lambda>_. True"]) auto
  moreover have "for_run (\<lambda>i s. Some (f i s)) all_u8 s = Some (fold f all_u8 s)"
    by (rule for_run_total [where P = "\<lambda>_. True"]) auto
  ultimately show ?thesis by simp
qed

end

end
