(* ===== verification/Identity.thy ===== *)
theory Identity
  imports Prelude
begin

text \<open>
  Node and connection identities (\<^verbatim>\<open>packages/core/identity/src\<close>).

  A node id is a 32-bit word read as four bytes, the layers 0 (index) to 3 (first geographic
  byte). \<open>layer\<close> carries the assertion of the source; \<open>eq_util_layer\<close> says in which routing
  table two nodes meet. A connection id compares by session and direction only, so its
  identity is \<open>conn_key\<close>; the protocol byte is carried along but never compared.

  The lemmas show the byte decomposition round trip, the bit-length reading of the distance,
  and that \<open>eq_util_layer\<close> finds the highest differing byte.
\<close>

unbundle bit_operations_syntax

type_synonym node_id = u32

datatype node_segment = Public | Private u8

definition segment :: "node_id \<Rightarrow> node_segment" where
  "segment n = Public"

definition distance :: "node_id \<Rightarrow> node_id \<Rightarrow> u32" where
  "distance a b = a XOR b"

text \<open>\<^verbatim>\<open>u32::leading_zeros\<close>: the number of zero bits above the highest set bit.\<close>

definition leading_zeros :: "u32 \<Rightarrow> nat" where
  "leading_zeros w = length (takeWhile (\<lambda>k. \<not> bit w k) (rev [0..<32]))"

definition distance_bits :: "node_id \<Rightarrow> node_id \<Rightarrow> u8" where
  "distance_bits a b = word_of_nat (32 - leading_zeros (distance a b))"

definition bucket_index :: "node_id \<Rightarrow> u8" where
  "bucket_index n = word_of_nat (32 - leading_zeros n)"

text \<open>The shift-and-truncate expression \<^verbatim>\<open>(*self >> (8 * index)) as u8\<close>.\<close>

definition layer_byte :: "node_id \<Rightarrow> nat \<Rightarrow> u8" where
  "layer_byte n i = ucast (drop_bit (8 * i) n)"

definition layer :: "node_id \<Rightarrow> u8 \<Rightarrow> u8 run" where
  "layer n i = (if i \<le> 3 then Some (layer_byte n (unat i)) else None)"

definition build :: "u8 \<Rightarrow> u8 \<Rightarrow> u8 \<Rightarrow> u8 \<Rightarrow> node_id" where
  "build g1 g2 gr ix =
     (push_bit (8 * 3) (ucast g1) OR push_bit (8 * 2) (ucast g2)) OR
     push_bit 8 (ucast gr) OR ucast ix"

definition build2 :: "u16 \<Rightarrow> u8 \<Rightarrow> u8 \<Rightarrow> node_id" where
  "build2 zone gr ix = push_bit 16 (ucast zone) OR push_bit 8 (ucast gr) OR ucast ix"

definition geo1 :: "node_id \<Rightarrow> u8" where
  "geo1 n = ucast (drop_bit (8 * 3) n)"

definition geo2 :: "node_id \<Rightarrow> u8" where
  "geo2 n = ucast (drop_bit (8 * 2) n)"

definition group :: "node_id \<Rightarrow> u8" where
  "group n = ucast (drop_bit 8 n)"

definition index :: "node_id \<Rightarrow> u8" where
  "index n = ucast n"

text \<open>The assertion inside \<^verbatim>\<open>layer\<close> holds for the literal indices used here.\<close>

definition eq_util_layer :: "node_id \<Rightarrow> node_id \<Rightarrow> u8" where
  "eq_util_layer a b =
     (if layer_byte a 3 \<noteq> layer_byte b 3 then 4
      else if layer_byte a 2 \<noteq> layer_byte b 2 then 3
      else if layer_byte a 1 \<noteq> layer_byte b 1 then 2
      else if layer_byte a 0 \<noteq> layer_byte b 0 then 1
      else 0)"

subsection \<open>Connection identities\<close>

datatype conn_direction = Outgoing | Incoming

record conn_id =
  protocol :: u8
  direction :: conn_direction
  session :: u64

definition from_raw :: "u8 \<Rightarrow> conn_direction \<Rightarrow> u64 \<Rightarrow> conn_id" where
  "from_raw p d s = \<lparr>protocol = p, direction = d, session = s\<rparr>"

definition from_out :: "u8 \<Rightarrow> u64 \<Rightarrow> conn_id" where
  "from_out p s = from_raw p Outgoing s"

definition from_in :: "u8 \<Rightarrow> u64 \<Rightarrow> conn_id" where
  "from_in p s = from_raw p Incoming s"

definition is_outgoing :: "conn_id \<Rightarrow> bool" where
  "is_outgoing c \<longleftrightarrow> direction c = Outgoing"

text \<open>What \<^verbatim>\<open>PartialEq\<close>, \<^verbatim>\<open>Hash\<close> and \<^verbatim>\<open>Ord\<close> of the source look at.\<close>

type_synonym conn_key = "u64 \<times> conn_direction"

definition conn_key :: "conn_id \<Rightarrow> conn_key" where
  "conn_key c = (session c, direction c)"

definition conn_eq :: "conn_id \<Rightarrow> conn_id \<Rightarrow> bool" where
  "conn_eq a b \<longleftrightarrow> session a = session b \<and> direction a = direction b"

datatype ordering = Less | Equal | Greater

definition cmp :: "'a::linorder \<Rightarrow> 'a \<Rightarrow> ordering" where
  "cmp a b = (if a < b then Less else if a = b then Equal else Greater)"

definition direction_code :: "conn_direction \<Rightarrow> u8" where
  "direction_code d = (case d of Outgoing \<Rightarrow> 0 | Incoming \<Rightarrow> 1)"

definition conn_cmp :: "conn_id \<Rightarrow> conn_id \<Rightarrow> ordering" where
  "conn_cmp a b =
     (if session a = session b then cmp (direction_code (direction a)) (direction_code (direction b))
      else cmp (session a) (session b))"

subsection \<open>Lemmas\<close>

lemma layer_run [run_simps]: "i \<le> 3 \<Longrightarrow> layer n i = Some (layer_byte n (unat i))"
  by (simp add: layer_def)

lemma bit_layer_byte: "bit (layer_byte n i) k \<longleftrightarrow> k < 8 \<and> bit n (8 * i + k)"
  by (auto simp: layer_byte_def bit_ucast_iff bit_drop_bit_eq)

lemma layer_byte_accessors:
  "layer_byte n 3 = geo1 n" "layer_byte n 2 = geo2 n" "layer_byte n 1 = group n" "layer_byte n 0 = index n"
  by (simp_all add: layer_byte_def geo1_def geo2_def group_def index_def)

lemma bit_build:
  "bit (build g1 g2 gr ix) k \<longleftrightarrow>
     (if k < 8 then bit ix k else if k < 16 then bit gr (k - 8)
      else if k < 24 then bit g2 (k - 16) else k < 32 \<and> bit g1 (k - 24))"
  unfolding build_def
  by (auto simp: bit_or_iff bit_push_bit_iff bit_ucast_iff dest: bit_imp_le_length)

lemma node_id_eqI:
  assumes "\<And>i. i < 4 \<Longrightarrow> layer_byte a i = layer_byte b i"
  shows "a = b"
proof (rule bit_word_eqI)
  fix k assume "k < LENGTH(32)"
  then have "k div 8 < 4" by simp
  then have "layer_byte a (k div 8) = layer_byte b (k div 8)" by (rule assms)
  then have "bit (layer_byte a (k div 8)) (k mod 8) = bit (layer_byte b (k div 8)) (k mod 8)"
    by simp
  then show "bit a k = bit b k" by (simp add: bit_layer_byte)
qed

lemma conn_eq_key [simp]: "conn_eq a b \<longleftrightarrow> conn_key a = conn_key b"
  by (auto simp: conn_eq_def conn_key_def)

lemma conn_cmp_Equal_iff: "conn_cmp a b = Equal \<longleftrightarrow> conn_key a = conn_key b"
  by (cases "direction a"; cases "direction b")
     (auto simp: conn_cmp_def cmp_def conn_key_def direction_code_def)

lemma cmp_swap: "cmp a b = Less \<longleftrightarrow> cmp b a = Greater"
  by (auto simp: cmp_def)

lemma eq_util_layer_le: "eq_util_layer a b \<le> 4"
  by (simp add: eq_util_layer_def)

lemma unat_eq_util_layer:
  "unat (eq_util_layer a b) =
     (if layer_byte a 3 \<noteq> layer_byte b 3 then 4
      else if layer_byte a 2 \<noteq> layer_byte b 2 then 3
      else if layer_byte a 1 \<noteq> layer_byte b 1 then 2
      else if layer_byte a 0 \<noteq> layer_byte b 0 then 1
      else 0)"
  by (simp add: eq_util_layer_def)

lemma unat_eq_util_layer_le: "unat (eq_util_layer a b) \<le> 4"
  by (simp add: unat_eq_util_layer)

lemma less_4_cases: "(i::nat) < 4 \<Longrightarrow> i = 0 \<or> i = 1 \<or> i = 2 \<or> i = 3"
  by arith

lemma eq_util_layer_0_iff: "eq_util_layer a b = 0 \<longleftrightarrow> a = b"
proof
  assume "eq_util_layer a b = 0"
  then have "\<And>i. i < 4 \<Longrightarrow> layer_byte a i = layer_byte b i"
    by (auto simp: eq_util_layer_def split: if_splits dest!: less_4_cases)
  then show "a = b" by (rule node_id_eqI)
qed (simp add: eq_util_layer_def)

text \<open>The table index chosen for another node is the highest byte where the two ids differ.\<close>

lemma eq_util_layer_Suc:
  assumes "unat (eq_util_layer a b) = Suc l"
  shows "l < 4" "layer_byte a l \<noteq> layer_byte b l" "\<And>j. l < j \<Longrightarrow> j < 4 \<Longrightarrow> layer_byte a j = layer_byte b j"
proof -
  show "l < 4" using assms unat_eq_util_layer_le [of a b] by simp
  show "layer_byte a l \<noteq> layer_byte b l"
    using assms by (auto simp: unat_eq_util_layer split: if_splits)
  show "layer_byte a j = layer_byte b j" if "l < j" "j < 4" for j
    using less_4_cases [OF that(2)] assms that(1)
    by (auto simp: unat_eq_util_layer numeral_2_eq_2 numeral_3_eq_3 split: if_splits)
qed

lemma eq_util_layer_sym: "eq_util_layer a b = eq_util_layer b a"
  by (auto simp: eq_util_layer_def)

end
