(* ===== verification/Path_Metric.thy ===== *)
theory Path_Metric
  imports Identity "HOL-Library.Multiset"
begin

text \<open>
  Metrics and ranked path lists (\<^verbatim>\<open>core/router/src/core/table/metric.rs\<close>, \<^verbatim>\<open>path.rs\<close>, and the list
  handling that \<^verbatim>\<open>table/dest.rs\<close> and \<^verbatim>\<open>registry/dest.rs\<close> share).

  A metric orders by its score, so a path list is kept in ascending score by a stable sort.
  \<open>wf_paths\<close> is the invariant of such a list: ascending scores, one path per connection, and no
  path without a hop (the latter is what keeps \<^verbatim>\<open>over_node\<close> and \<^verbatim>\<open>dest_node\<close> from panicking).
  The locale \<open>path_store\<close> states what every holder of a ranked path list promises to the routing
  table and the service registry; its two implementations interpret it in their own theories.
\<close>

definition BANDWIDTH_LIMIT :: u32 where "BANDWIDTH_LIMIT = 10000"
definition BANDWIDTH_SCORE_PENALTY :: u32 where "BANDWIDTH_SCORE_PENALTY = 1000"
definition HOP_PLUS_RTT :: u16 where "HOP_PLUS_RTT = 10"

lemmas metric_consts = BANDWIDTH_LIMIT_def BANDWIDTH_SCORE_PENALTY_def HOP_PLUS_RTT_def

definition concat_hops :: "node_id list \<Rightarrow> node_id list \<Rightarrow> node_id list" where
  "concat_hops a b = a @ b"

record metric =
  latency :: u16
  hops :: "node_id list"
  bandwidth :: u32

definition metric_new :: "u16 \<Rightarrow> node_id list \<Rightarrow> u32 \<Rightarrow> metric" where
  "metric_new l h b = \<lparr>latency = l, hops = h, bandwidth = b\<rparr>"

definition contain_in_hops :: "metric \<Rightarrow> node_id \<Rightarrow> bool" where
  "contain_in_hops m n \<longleftrightarrow> n \<in> set (hops m)"

definition metric_add :: "metric \<Rightarrow> metric \<Rightarrow> metric" where
  "metric_add a b =
     \<lparr>latency = latency a + latency b,
      hops = concat_hops (hops a) (hops b),
      bandwidth = min (bandwidth a) (bandwidth b)\<rparr>"

definition score :: "metric \<Rightarrow> u32" where
  "score m =
     (let based_score = ucast (latency m) + word_of_nat (length (hops m)) * ucast HOP_PLUS_RTT in
      if BANDWIDTH_LIMIT \<le> bandwidth m then based_score else based_score + BANDWIDTH_SCORE_PENALTY)"

text \<open>\<^verbatim>\<open>expect("Should have at least one hop")\<close> panics on an empty hop list.\<close>

definition over_node :: "metric \<Rightarrow> node_id run" where
  "over_node m = (if hops m = [] then None else Some (last (hops m)))"

definition dest_node :: "metric \<Rightarrow> node_id run" where
  "dest_node m = (if hops m = [] then None else Some (hd (hops m)))"

text \<open>\<^verbatim>\<open>Ord\<close> and \<^verbatim>\<open>PartialEq\<close> of \<^verbatim>\<open>Metric\<close> and of \<^verbatim>\<open>Path\<close> compare scores.\<close>

definition metric_cmp :: "metric \<Rightarrow> metric \<Rightarrow> ordering" where
  "metric_cmp a b = cmp (score a) (score b)"

definition metric_eq :: "metric \<Rightarrow> metric \<Rightarrow> bool" where
  "metric_eq a b \<longleftrightarrow> score a = score b"

datatype path = Path (path_conn: conn_id) (path_metric: metric)

definition path_cmp :: "path \<Rightarrow> path \<Rightarrow> ordering" where
  "path_cmp p q = metric_cmp (path_metric p) (path_metric q)"

abbreviation path_score :: "path \<Rightarrow> u32" where
  "path_score p \<equiv> score (path_metric p)"

abbreviation path_key :: "path \<Rightarrow> conn_key" where
  "path_key p \<equiv> conn_key (path_conn p)"

subsection \<open>Ranked path lists\<close>

text \<open>\<^verbatim>\<open>Vec::sort\<close> is stable and so is \<open>sort_key\<close>.\<close>

definition sort_paths :: "path list \<Rightarrow> path list" where
  "sort_paths ps = sort_key path_score ps"

fun index_of :: "path list \<Rightarrow> conn_id \<Rightarrow> nat option" where
  "index_of [] goal = None"
| "index_of (p # ps) goal =
     (if conn_eq (path_conn p) goal then Some 0 else map_option Suc (index_of ps goal))"

text \<open>Replace the metric of the path over a connection, or append a new path.\<close>

definition put_path :: "path list \<Rightarrow> conn_id \<Rightarrow> metric \<Rightarrow> path list" where
  "put_path ps over m =
     (case index_of ps over of
        Some i \<Rightarrow> ps[i := Path (path_conn (ps ! i)) m]
      | None \<Rightarrow> ps @ [Path over m])"

text \<open>\<^verbatim>\<open>Vec::remove(index)\<close>.\<close>

definition remove_at :: "nat \<Rightarrow> 'a list \<Rightarrow> 'a list" where
  "remove_at i xs = take i xs @ drop (Suc i) xs"

fun next_path_of :: "path list \<Rightarrow> node_id list \<Rightarrow> path option run" where
  "next_path_of [] excepts = Some None"
| "next_path_of (p # ps) excepts =
     do {
       n \<leftarrow> over_node (path_metric p);
       if n \<notin> set excepts then Some (Some p) else next_path_of ps excepts
     }"

fun next_of :: "path list \<Rightarrow> node_id list \<Rightarrow> (conn_id \<times> node_id) option run" where
  "next_of [] excepts = Some None"
| "next_of (p # ps) excepts =
     do {
       n \<leftarrow> over_node (path_metric p);
       if n \<notin> set excepts then Some (Some (path_conn p, n)) else next_of ps excepts
     }"

fun best_for_of :: "path list \<Rightarrow> node_id \<Rightarrow> path option" where
  "best_for_of [] n = None"
| "best_for_of (p # ps) n =
     (if \<not> contain_in_hops (path_metric p) n then Some p else best_for_of ps n)"

definition best_conn_of :: "path list \<Rightarrow> conn_id option" where
  "best_conn_of ps = (case ps of [] \<Rightarrow> None | p # _ \<Rightarrow> Some (path_conn p))"

text \<open>The view of a path list as a map from connections to metrics.\<close>

definition path_lookup :: "path list \<Rightarrow> conn_key \<Rightarrow> metric option" where
  "path_lookup ps k = map_of (map (\<lambda>p. (path_key p, path_metric p)) ps) k"

definition wf_paths :: "path list \<Rightarrow> bool" where
  "wf_paths ps \<longleftrightarrow>
     sorted (map path_score ps) \<and> distinct (map path_key ps) \<and> (\<forall>p\<in>set ps. hops (path_metric p) \<noteq> [])"

subsection \<open>Metrics\<close>

lemma metric_new_sel [simp]:
  "latency (metric_new l h b) = l" "hops (metric_new l h b) = h" "bandwidth (metric_new l h b) = b"
  by (simp_all add: metric_new_def)

lemma metric_add_sel [simp]:
  "latency (metric_add a b) = latency a + latency b"
  "hops (metric_add a b) = hops a @ hops b"
  "bandwidth (metric_add a b) = min (bandwidth a) (bandwidth b)"
  by (simp_all add: metric_add_def concat_hops_def)

lemma metric_add_assoc: "metric_add (metric_add a b) c = metric_add a (metric_add b c)"
  by (simp add: metric_add_def concat_hops_def add.assoc min.assoc)

lemma over_node_run [run_simps]: "hops m \<noteq> [] \<Longrightarrow> over_node m = Some (last (hops m))"
  by (simp add: over_node_def)

lemma dest_node_run [run_simps]: "hops m \<noteq> [] \<Longrightarrow> dest_node m = Some (hd (hops m))"
  by (simp add: dest_node_def)

lemma unat_score:
  assumes "length (hops m) < 2 ^ 20"
  shows "unat (score m) = unat (latency m) + 10 * length (hops m)
           + (if bandwidth m < 10000 then 1000 else 0)"
proof -
  have lat: "unat (latency m) < 2 ^ 16"
    using unsigned_less [of "latency m", where 'a = nat] by simp
  have base: "unat (ucast (latency m) + word_of_nat (length (hops m)) * ucast HOP_PLUS_RTT :: u32)
      = unat (latency m) + 10 * length (hops m)"
    using assms lat
    by (simp add: HOP_PLUS_RTT_def unat_word_ariths unat_of_nat unsigned_ucast_eq take_bit_nat_eq_self)
  have "unat (ucast (latency m) + word_of_nat (length (hops m)) * ucast HOP_PLUS_RTT
       + BANDWIDTH_SCORE_PENALTY :: u32) = unat (latency m) + 10 * length (hops m) + 1000"
    using assms lat base
    by (simp add: unat_word_ariths(1) [of "_ + _"] BANDWIDTH_SCORE_PENALTY_def)
  then show ?thesis
    using base by (auto simp: score_def Let_def BANDWIDTH_LIMIT_def not_le)
qed

subsection \<open>Path lists\<close>

lemma index_of_None: "index_of ps c = None \<longleftrightarrow> conn_key c \<notin> path_key ` set ps"
  by (induction ps) auto

lemma index_of_Some:
  "index_of ps c = Some i \<Longrightarrow> i < length ps \<and> path_key (ps ! i) = conn_key c"
proof (induction ps arbitrary: i)
  case (Cons p ps)
  then show ?case by (cases i) (auto split: if_splits)
qed simp

lemma set_remove_at: "distinct (map f xs) \<Longrightarrow> i < length xs \<Longrightarrow>
    remove_at i xs = filter (\<lambda>x. f x \<noteq> f (xs ! i)) xs"
proof (induction xs arbitrary: i)
  case (Cons x xs)
  show ?case
  proof (cases i)
    case 0
    with Cons.prems show ?thesis
      by (auto simp: remove_at_def image_iff intro!: filter_True [symmetric])
  next
    case (Suc j)
    with Cons.prems Cons.IH [of j] show ?thesis
      by (auto simp: remove_at_def dest: nth_mem)
  qed
qed simp

lemma wf_paths_Nil [simp]: "wf_paths []"
  by (simp add: wf_paths_def)

lemma wf_paths_hops: "wf_paths ps \<Longrightarrow> p \<in> set ps \<Longrightarrow> hops (path_metric p) \<noteq> []"
  by (simp add: wf_paths_def)

lemma wf_paths_filter [wf_intros]: "wf_paths ps \<Longrightarrow> wf_paths (filter P ps)"
  by (auto simp: wf_paths_def sorted_filter distinct_map_filter)

lemma wf_paths_Cons: "wf_paths (p # ps) \<longleftrightarrow>
    wf_paths ps \<and> (\<forall>q\<in>set ps. path_score p \<le> path_score q) \<and>
    path_key p \<notin> path_key ` set ps \<and> hops (path_metric p) \<noteq> []"
  by (auto simp: wf_paths_def)

lemma put_path_key: "path_key ` set (put_path ps c m) = insert (conn_key c) (path_key ` set ps)"
proof (cases "index_of ps c")
  case None
  then show ?thesis by (auto simp: put_path_def)
next
  case (Some i)
  then have i: "i < length ps" "path_key (ps ! i) = conn_key c" by (auto dest: index_of_Some)
  have "map path_key (put_path ps c m) = map path_key ps"
    using Some i by (simp add: put_path_def map_update list_update_same_conv)
  then have "path_key ` set (put_path ps c m) = path_key ` set ps" by (metis list.set_map)
  moreover have "conn_key c \<in> path_key ` set ps" using i by (metis image_eqI nth_mem)
  ultimately show ?thesis by auto
qed

lemma distinct_put_path:
  assumes "distinct (map path_key ps)"
  shows "distinct (map path_key (put_path ps c m))"
proof (cases "index_of ps c")
  case None
  then show ?thesis using assms index_of_None [of ps c] by (auto simp: put_path_def)
next
  case (Some i)
  then have "i < length ps" by (auto dest: index_of_Some)
  then have "map path_key (put_path ps c m) = map path_key ps"
    using Some by (simp add: put_path_def map_update list_update_same_conv)
  then show ?thesis using assms by simp
qed

lemma set_put_path:
  assumes "distinct (map path_key ps)" "p \<in> set (put_path ps c m)"
  shows "p \<in> set ps \<and> path_key p \<noteq> conn_key c \<or> path_metric p = m \<and> path_key p = conn_key c"
proof (cases "index_of ps c")
  case None
  then show ?thesis using assms index_of_None [of ps c] by (auto simp: put_path_def image_iff)
next
  case (Some i)
  then have i: "i < length ps" "path_key (ps ! i) = conn_key c" by (auto dest: index_of_Some)
  with Some assms obtain j where j: "j < length ps" "p = (ps[i := Path (path_conn (ps ! i)) m]) ! j"
    by (auto simp: put_path_def in_set_conv_nth)
  show ?thesis
  proof (cases "j = i")
    case True
    then show ?thesis using i j by simp
  next
    case False
    with i j show ?thesis
      using nth_eq_iff_index_eq [OF assms(1), of j i] by simp
  qed
qed

lemma set_sort_paths [simp]: "set (sort_paths ps) = set ps"
  by (simp add: sort_paths_def)

lemma distinct_sort_paths:
  "distinct (map f ps) \<Longrightarrow> distinct (map f (sort_paths ps))"
  by (metis mset_eq_imp_distinct_iff mset_map mset_sort sort_paths_def)

lemma wf_sort_put_path [wf_intros]:
  assumes "wf_paths ps" "hops m \<noteq> []"
  shows "wf_paths (sort_paths (put_path ps c m))"
  using assms set_put_path [of ps _ c m] distinct_put_path [of ps c m]
  by (auto simp: wf_paths_def distinct_sort_paths) (auto simp: sort_paths_def)

subsection \<open>Selection\<close>

lemma next_path_of_run [run_simps]:
  "wf_paths ps \<Longrightarrow> next_path_of ps ex = Some (find (\<lambda>p. last (hops (path_metric p)) \<notin> set ex) ps)"
  by (induction ps) (auto simp: wf_paths_Cons over_node_run)

lemma next_of_run [run_simps]:
  "wf_paths ps \<Longrightarrow> next_of ps ex =
     Some (map_option (\<lambda>p. (path_conn p, last (hops (path_metric p))))
       (find (\<lambda>p. last (hops (path_metric p)) \<notin> set ex) ps))"
  by (induction ps) (auto simp: wf_paths_Cons over_node_run)

lemma best_for_of_find: "best_for_of ps n = find (\<lambda>p. n \<notin> set (hops (path_metric p))) ps"
  by (induction ps) (auto simp: contain_in_hops_def)

lemma find_ranked:
  assumes "sorted (map f xs)" "find P xs = Some x"
  shows "x \<in> set xs" "P x" "\<And>y. y \<in> set xs \<Longrightarrow> P y \<Longrightarrow> f x \<le> f y"
  using assms by (induction xs) (auto split: if_splits)

lemma best_conn_of_Nil [simp]: "best_conn_of [] = None"
  by (simp add: best_conn_of_def)

lemma best_conn_of_Cons [simp]: "best_conn_of (p # ps) = Some (path_conn p)"
  by (simp add: best_conn_of_def)

lemma best_conn_of_None [simp]: "best_conn_of ps = None \<longleftrightarrow> ps = []"
  by (cases ps) auto

subsection \<open>The map view\<close>

lemma path_lookup_None: "path_lookup ps k = None \<longleftrightarrow> k \<notin> path_key ` set ps"
  by (auto simp: path_lookup_def map_of_eq_None_iff image_image)

lemma path_lookup_Some:
  "distinct (map path_key ps) \<Longrightarrow> path_lookup ps k = Some m \<longleftrightarrow> (\<exists>p\<in>set ps. path_key p = k \<and> path_metric p = m)"
  by (auto simp: path_lookup_def map_of_eq_Some_iff comp_def)

lemma path_lookup_put:
  assumes "distinct (map path_key ps)"
  shows "path_lookup (put_path ps c m) = (path_lookup ps)(conn_key c \<mapsto> m)"
proof
  fix k
  have d: "distinct (map path_key (put_path ps c m))" using assms by (rule distinct_put_path)
  show "path_lookup (put_path ps c m) k = ((path_lookup ps)(conn_key c \<mapsto> m)) k"
  proof (cases "k = conn_key c")
    case True
    obtain p where p: "p \<in> set (put_path ps c m)" "path_key p = conn_key c"
      using put_path_key [of ps c m] by (metis imageE insertI1)
    then have "path_metric p = m" using set_put_path [OF assms p(1)] by auto
    with True p d show ?thesis by (auto simp: path_lookup_Some)
  next
    case False
    show ?thesis
    proof (cases "path_lookup ps k")
      case None
      then have "path_lookup (put_path ps c m) k = None"
        using False by (simp add: path_lookup_None put_path_key)
      with None False show ?thesis by simp
    next
      case (Some m')
      then obtain p where p: "p \<in> set ps" "path_key p = k" "path_metric p = m'"
        using assms by (auto simp: path_lookup_Some)
      have "k \<in> path_key ` set (put_path ps c m)" using p put_path_key [of ps c m] by auto
      then obtain q where q: "q \<in> set (put_path ps c m)" "path_key q = k" by auto
      then have "q \<in> set ps" using set_put_path [OF assms q(1)] False by auto
      then have "q = p" using p q assms by (auto simp: distinct_map inj_on_def)
      then show ?thesis using Some False p q d by (auto simp: path_lookup_Some)
    qed
  qed
qed

lemma path_lookup_sort [simp]:
  assumes "distinct (map path_key ps)"
  shows "path_lookup (sort_paths ps) = path_lookup ps"
proof -
  let ?kv = "\<lambda>p. (path_key p, path_metric p)"
  have "map_of (map ?kv (sort_paths ps)) = map_of (map ?kv ps)"
    by (rule map_of_inject_set [THEN iffD2])
       (simp_all add: comp_def distinct_sort_paths assms)
  then show ?thesis by (simp add: path_lookup_def fun_eq_iff)
qed

lemma path_lookup_del:
  "path_lookup (filter (\<lambda>p. path_key p \<noteq> k) ps) = (path_lookup ps)(k := None)"
  by (induction ps) (auto simp: path_lookup_def fun_eq_iff)

subsection \<open>The contract of a holder of ranked paths\<close>

locale path_store =
  fixes paths_of :: "'d \<Rightarrow> path list"
    and set_path :: "'d \<Rightarrow> conn_id \<Rightarrow> metric \<Rightarrow> 'd run"
    and del_path :: "'d \<Rightarrow> conn_id \<Rightarrow> path option \<times> 'd"
  assumes set_path_law:
      "wf_paths (paths_of d) \<Longrightarrow> hops m \<noteq> [] \<Longrightarrow>
        \<exists>d'. set_path d c m = Some d' \<and> paths_of d' = sort_paths (put_path (paths_of d) c m)"
    and del_path_law:
      "wf_paths (paths_of d) \<Longrightarrow>
        paths_of (snd (del_path d c)) = filter (\<lambda>p. path_key p \<noteq> conn_key c) (paths_of d)"
begin

abbreviation wf :: "'d \<Rightarrow> bool" where
  "wf d \<equiv> wf_paths (paths_of d)"

lemma set_path_wf:
  assumes "wf d" "hops m \<noteq> []" "set_path d c m = Some d'"
  shows "wf d'"
  using set_path_law [OF assms(1,2), of c] assms wf_sort_put_path [of "paths_of d" m c] by auto

lemma del_path_wf: "wf d \<Longrightarrow> wf (snd (del_path d c))"
  by (simp add: del_path_law wf_paths_filter)

lemma set_path_lookup:
  assumes "wf d" "hops m \<noteq> []" "set_path d c m = Some d'"
  shows "path_lookup (paths_of d') = (path_lookup (paths_of d))(conn_key c \<mapsto> m)"
  using set_path_law [OF assms(1,2), of c] assms(1,3)
  by (auto simp: path_lookup_put distinct_put_path wf_paths_def)

lemma del_path_lookup:
  "wf d \<Longrightarrow> path_lookup (paths_of (snd (del_path d c))) = (path_lookup (paths_of d))(conn_key c := None)"
  by (simp add: del_path_law path_lookup_del)

lemma set_path_nonempty:
  assumes "wf d" "hops m \<noteq> []" "set_path d c m = Some d'"
  shows "paths_of d' \<noteq> []"
proof
  assume "paths_of d' = []"
  then have "path_lookup (paths_of d') (conn_key c) = None" by (simp add: path_lookup_None)
  then show False using set_path_lookup [OF assms] by simp
qed

text \<open>The selected path is a cheapest one among those the caller allows.\<close>

lemma next_cheapest:
  assumes "wf d" "next_path_of (paths_of d) ex = Some (Some p)"
  shows "p \<in> set (paths_of d)" "over_node (path_metric p) = Some n \<Longrightarrow> n \<notin> set ex"
    "\<And>q n. q \<in> set (paths_of d) \<Longrightarrow> over_node (path_metric q) = Some n \<Longrightarrow> n \<notin> set ex \<Longrightarrow>
       path_score p \<le> path_score q"
  using assms find_ranked [of path_score "paths_of d" _ p]
  by (auto simp: next_path_of_run wf_paths_def over_node_def split: if_splits)

end

end
