(* ===== verification/Route_Dest.thy ===== *)
theory Route_Dest
  imports Path_Metric
begin

text \<open>
  One destination of a routing table (\<^verbatim>\<open>core/router/src/core/table/dest.rs\<close>): the ranked paths
  towards it and the queue of changes of its best connection.

  The lemmas show that the operations implement \<open>path_store\<close>, and that the queued deltas tell
  exactly how the best connection changed (\<open>tracks\<close>), which is what the data plane replays.
\<close>

datatype dest_delta = SetBestPath conn_id | DelBestPath

record dest =
  d_paths :: "path list"
  d_deltas :: "dest_delta list"

definition dest_default :: dest where
  "dest_default = \<lparr>d_paths = [], d_deltas = []\<rparr>"

text \<open>\<^verbatim>\<open>collect\<close> into a \<^verbatim>\<open>HashMap\<close>: a later entry for the same node wins.\<close>

definition dest_dump :: "dest \<Rightarrow> (node_id \<rightharpoonup> metric) run" where
  "dest_dump d =
     do {
       kvs \<leftarrow> map_run (\<lambda>p. do { n \<leftarrow> over_node (path_metric p); Some (n, path_metric p) }) (d_paths d);
       Some (map_of (rev kvs))
     }"

text \<open>The two cases of \<^verbatim>\<open>if let Some(conn) = after_best_conn\<close>.\<close>

definition best_delta :: "conn_id option \<Rightarrow> dest_delta" where
  "best_delta after = (case after of Some conn \<Rightarrow> SetBestPath conn | None \<Rightarrow> DelBestPath)"

text \<open>\<^verbatim>\<open>Option<ConnId>\<close> compares by the connection's own equality.\<close>

definition conn_opt_eq :: "conn_id option \<Rightarrow> conn_id option \<Rightarrow> bool" where
  "conn_opt_eq a b =
     (case (a, b) of (Some x, Some y) \<Rightarrow> conn_eq x y | (None, None) \<Rightarrow> True | _ \<Rightarrow> False)"

definition dest_set_path :: "dest \<Rightarrow> conn_id \<Rightarrow> metric \<Rightarrow> dest" where
  "dest_set_path d over m =
     (let pre_best_conn = best_conn_of (d_paths d);
          ps = sort_paths (put_path (d_paths d) over m);
          after_best_conn = best_conn_of ps;
          d' = d\<lparr>d_paths := ps\<rparr>
      in if \<not> conn_opt_eq pre_best_conn after_best_conn
         then d'\<lparr>d_deltas := d_deltas d @ [best_delta after_best_conn]\<rparr>
         else d')"

definition dest_del_path :: "dest \<Rightarrow> conn_id \<Rightarrow> path option \<times> dest" where
  "dest_del_path d over =
     (case index_of (d_paths d) over of
        Some i \<Rightarrow>
          (let d' = (if i = 0
                     then d\<lparr>d_deltas := d_deltas d @ [best_delta (best_conn_of (drop 1 (d_paths d)))]\<rparr>
                     else d)
           in (Some (d_paths d ! i), d'\<lparr>d_paths := remove_at i (d_paths d)\<rparr>))
      | None \<Rightarrow> (None, d))"

definition dest_pop_delta :: "dest \<Rightarrow> dest_delta option \<times> dest" where
  "dest_pop_delta d =
     (case d_deltas d of [] \<Rightarrow> (None, d) | e # es \<Rightarrow> (Some e, d\<lparr>d_deltas := es\<rparr>))"

definition dest_is_empty :: "dest \<Rightarrow> bool" where
  "dest_is_empty d \<longleftrightarrow> d_paths d = []"

definition dest_next :: "dest \<Rightarrow> node_id list \<Rightarrow> (conn_id \<times> node_id) option run" where
  "dest_next d excepts = next_of (d_paths d) excepts"

definition dest_best_for :: "dest \<Rightarrow> node_id \<Rightarrow> path option" where
  "dest_best_for d neighbour = best_for_of (d_paths d) neighbour"

definition dest_next_path :: "dest \<Rightarrow> node_id list \<Rightarrow> path option run" where
  "dest_next_path d excepts = next_path_of (d_paths d) excepts"

subsection \<open>The data plane's view of a destination\<close>

text \<open>The identity of the best connection, and how a delta changes it.\<close>

definition best_key :: "dest \<Rightarrow> conn_key option" where
  "best_key d = map_option conn_key (best_conn_of (d_paths d))"

fun replay_delta :: "conn_key option \<Rightarrow> dest_delta \<Rightarrow> conn_key option" where
  "replay_delta k (SetBestPath c) = Some (conn_key c)"
| "replay_delta k DelBestPath = None"

subsection \<open>Lemmas\<close>

lemma dest_default_sel [simp]: "d_paths dest_default = []" "d_deltas dest_default = []"
  by (simp_all add: dest_default_def)

lemma d_paths_set_path [simp]: "d_paths (dest_set_path d c m) = sort_paths (put_path (d_paths d) c m)"
  by (simp add: dest_set_path_def Let_def)

lemma d_paths_del_path [simp]:
  assumes "wf_paths (d_paths d)"
  shows "d_paths (snd (dest_del_path d c)) = filter (\<lambda>p. path_key p \<noteq> conn_key c) (d_paths d)"
proof (cases "index_of (d_paths d) c")
  case None
  with index_of_None [of "d_paths d" c] show ?thesis
    by (auto simp: dest_del_path_def image_iff intro!: filter_True [symmetric])
next
  case (Some i)
  then have "i < length (d_paths d)" "path_key (d_paths d ! i) = conn_key c"
    by (auto dest: index_of_Some)
  then show ?thesis
    using Some assms set_remove_at [of path_key "d_paths d" i]
    by (simp add: dest_del_path_def Let_def wf_paths_def)
qed

lemma best_delta_replay [simp]: "replay_delta k (best_delta c) = map_option conn_key c"
  by (cases c) (simp_all add: best_delta_def)

lemma conn_opt_eq_key [simp]: "conn_opt_eq a b \<longleftrightarrow> map_option conn_key a = map_option conn_key b"
  by (cases a; cases b) (simp_all add: conn_opt_eq_def)

abbreviation dest_tracks :: "dest \<Rightarrow> dest \<Rightarrow> bool" where
  "dest_tracks \<equiv> tracks best_key d_deltas replay_delta"

lemma dest_set_path_tracks: "dest_tracks d (dest_set_path d c m)"
  unfolding tracks_def
  by (cases "conn_opt_eq (best_conn_of (d_paths d)) (best_conn_of (sort_paths (put_path (d_paths d) c m)))")
     (auto simp: dest_set_path_def Let_def best_key_def)

lemma best_conn_remove_at: "0 < i \<Longrightarrow> i < length ps \<Longrightarrow> best_conn_of (remove_at i ps) = best_conn_of ps"
  by (cases ps; cases i) (simp_all add: remove_at_def)

lemma dest_del_path_tracks: "dest_tracks d (snd (dest_del_path d c))"
proof (cases "index_of (d_paths d) c")
  case None
  then show ?thesis by (simp add: dest_del_path_def tracks_refl)
next
  case (Some i)
  then have "i < length (d_paths d)" by (auto dest: index_of_Some)
  with Some show ?thesis
    by (cases "i = 0") (auto simp: tracks_def dest_del_path_def Let_def best_key_def best_conn_remove_at
        remove_at_def [of 0])
qed

lemma dest_del_path_None: "fst (dest_del_path d c) = None \<longleftrightarrow> conn_key c \<notin> path_key ` set (d_paths d)"
  using index_of_None [of "d_paths d" c] by (auto simp: dest_del_path_def Let_def split: option.splits)

lemma dest_del_path_absent: "conn_key c \<notin> path_key ` set (d_paths d) \<Longrightarrow> dest_del_path d c = (None, d)"
  using index_of_None [of "d_paths d" c] by (simp add: dest_del_path_def)

interpretation dest_store: path_store d_paths "\<lambda>d c m. Some (dest_set_path d c m)" dest_del_path
  by unfold_locales simp_all

interpretation dest_log: delta_log best_key d_deltas replay_delta dest_pop_delta
  by unfold_locales (auto simp: dest_pop_delta_def best_key_def)

end
