(* ===== verification/Route_Table.thy ===== *)
theory Route_Table
  imports Route_Dest
begin

text \<open>
  The routing table of one layer (\<^verbatim>\<open>core/router/src/core/table.rs\<close>): 256 destinations indexed by the
  layer's byte of a node id, the sorted list of non-empty slots, and the queue of changes.

  \<open>wf_table\<close> says that the slot list is exactly the ascending list of non-empty destinations, that
  every destination's path list is well formed and that its own delta queue has been drained. The
  lemmas show that every operation keeps it, never panics under it, logs exactly its effect on the
  best connections, and that \<open>table_closest_for\<close> finds the reachable slot with the least XOR distance.
\<close>

unbundle bit_operations_syntax

datatype table_delta = TableDelta u8 dest_delta

datatype table_sync = TableSync "(u8 \<times> metric) list"

record table =
  t_node :: node_id
  t_layer :: u8
  t_dests :: "u8 \<Rightarrow> dest"
  t_slots :: "u8 list"
  t_deltas :: "table_delta list"

definition table_new :: "node_id \<Rightarrow> u8 \<Rightarrow> table" where
  "table_new n l = \<lparr>t_node = n, t_layer = l, t_dests = (\<lambda>_. dest_default), t_slots = [], t_deltas = []\<rparr>"

record table_dump_rec =
  td_layer :: u8
  td_dests :: "u8 \<rightharpoonup> (node_id \<rightharpoonup> metric)"

definition table_dump :: "table \<Rightarrow> table_dump_rec run" where
  "table_dump t =
     do {
       kvs \<leftarrow> map_run (\<lambda>i. do { v \<leftarrow> dest_dump (t_dests t i); Some (i, v) })
               (filter (\<lambda>i. \<not> dest_is_empty (t_dests t i)) all_u8);
       Some \<lparr>td_layer = t_layer t, td_dests = map_of kvs\<rparr>
     }"

definition table_size :: "table \<Rightarrow> nat" where
  "table_size t = fold (\<lambda>i n. if \<not> dest_is_empty (t_dests t i) then n + 1 else n) all_u8 0"

text \<open>The loop pops the destination's queue until it is empty and pushes each entry.\<close>

definition poll_delta_index :: "u8 \<Rightarrow> table \<Rightarrow> table" where
  "poll_delta_index i t =
     t\<lparr>t_dests := (t_dests t)(i := (t_dests t i)\<lparr>d_deltas := []\<rparr>),
       t_deltas := t_deltas t @ map (TableDelta i) (d_deltas (t_dests t i))\<rparr>"

text \<open>Pushing an index and sorting; removing the position that \<^verbatim>\<open>binary_search\<close> finds on the
  ascending slot list.\<close>

definition slot_insert :: "u8 \<Rightarrow> u8 list \<Rightarrow> u8 list" where
  "slot_insert i slots = sort (slots @ [i])"

definition slot_remove :: "u8 \<Rightarrow> u8 list \<Rightarrow> u8 list" where
  "slot_remove i slots = (if i \<in> set slots then remove1 i slots else slots)"

definition table_add_direct :: "table \<Rightarrow> conn_id \<Rightarrow> metric \<Rightarrow> table run" where
  "table_add_direct t conn m =
     do {
       n \<leftarrow> over_node m;
       i \<leftarrow> layer n (t_layer t);
       let d = t_dests t i;
       let t1 = (if dest_is_empty d then t\<lparr>t_slots := slot_insert i (t_slots t)\<rparr> else t);
       Some (poll_delta_index i (t1\<lparr>t_dests := (t_dests t)(i := dest_set_path d conn m)\<rparr>))
     }"

definition table_del_step :: "conn_id \<Rightarrow> u8 \<Rightarrow> table \<Rightarrow> table" where
  "table_del_step conn i t =
     (let pre_empty = dest_is_empty (t_dests t i);
          (removed, d') = dest_del_path (t_dests t i) conn;
          t1 = t\<lparr>t_dests := (t_dests t)(i := d')\<rparr>
      in case removed of
           None \<Rightarrow> t1
         | Some _ \<Rightarrow>
             poll_delta_index i
               (if \<not> pre_empty \<and> dest_is_empty d' then t1\<lparr>t_slots := slot_remove i (t_slots t)\<rparr> else t1))"

definition table_del_direct :: "table \<Rightarrow> conn_id \<Rightarrow> table" where
  "table_del_direct t conn = fold (table_del_step conn) all_u8 t"

definition table_next :: "table \<Rightarrow> node_id \<Rightarrow> node_id list \<Rightarrow> (conn_id \<times> node_id) option run" where
  "table_next t dst excepts = do { i \<leftarrow> layer dst (t_layer t); dest_next (t_dests t i) excepts }"

definition table_next_path :: "table \<Rightarrow> node_id \<Rightarrow> node_id list \<Rightarrow> path option run" where
  "table_next_path t dst excepts = do { i \<leftarrow> layer dst (t_layer t); dest_next_path (t_dests t i) excepts }"

fun closest_loop :: "table \<Rightarrow> u8 \<Rightarrow> node_id list \<Rightarrow> u8 list \<Rightarrow>
    (u8 \<times> conn_id \<times> node_id \<times> u8) option \<Rightarrow> (u8 \<times> conn_id \<times> node_id \<times> u8) option run" where
  "closest_loop t key excepts [] closest = Some closest"
| "closest_loop t key excepts (slot # slots) closest =
     (let distance = slot XOR key in
      if (case closest of None \<Rightarrow> True | Some (_, _, _, d) \<Rightarrow> distance < d)
      then do {
        nxt \<leftarrow> dest_next (t_dests t slot) excepts;
        closest_loop t key excepts slots
          (case nxt of Some (conn, node) \<Rightarrow> Some (slot, conn, node, distance) | None \<Rightarrow> closest)
      }
      else closest_loop t key excepts slots closest)"

definition table_closest_for :: "table \<Rightarrow> u8 \<Rightarrow> node_id list \<Rightarrow> (u8 \<times> conn_id \<times> node_id) option run" where
  "table_closest_for t key excepts =
     do {
       r \<leftarrow> closest_loop t key excepts (t_slots t) None;
       Some (map_option (\<lambda>(i, conn, node, _). (i, conn, node)) r)
     }"

text \<open>The temporary \<^verbatim>\<open>cached\<close> map of \<^verbatim>\<open>apply_sync\<close>. Every key is looked up (and removed) once, so
  the removal needs no trace in the model.\<close>

definition sync_cache :: "metric \<Rightarrow> (u8 \<times> metric) list \<Rightarrow> (u8 \<rightharpoonup> metric)" where
  "sync_cache m es = fold (\<lambda>(i, s) cached. cached(i \<mapsto> metric_add s m)) es Map.empty"

definition table_sync_step :: "conn_id \<Rightarrow> metric \<Rightarrow> (u8 \<rightharpoonup> metric) \<Rightarrow> u8 \<Rightarrow> table \<Rightarrow> table run" where
  "table_sync_step conn m cached i t =
     do {
       own \<leftarrow> layer (t_node t) (t_layer t);
       if i = own then Some t
       else do {
         let d = t_dests t i;
         t' \<leftarrow> (case cached i of
             Some m' \<Rightarrow>
               (let t1 = (if dest_is_empty d then t\<lparr>t_slots := slot_insert i (t_slots t)\<rparr> else t)
                in Some (t1\<lparr>t_dests := (t_dests t)(i := dest_set_path d conn m')\<rparr>))
           | None \<Rightarrow>
               if \<not> dest_is_empty d then do {
                 over \<leftarrow> over_node m;
                 over_i \<leftarrow> layer over (t_layer t);
                 if over_i \<noteq> i then
                   (let d' = snd (dest_del_path d conn);
                        t1 = t\<lparr>t_dests := (t_dests t)(i := d')\<rparr>
                    in Some (if \<not> dest_is_empty d \<and> dest_is_empty d'
                             then t1\<lparr>t_slots := slot_remove i (t_slots t)\<rparr> else t1))
                 else Some t
               }
               else Some t);
         Some (poll_delta_index i t')
       }
     }"

fun table_apply_sync :: "table \<Rightarrow> conn_id \<Rightarrow> metric \<Rightarrow> table_sync \<Rightarrow> table run" where
  "table_apply_sync t conn m (TableSync es) =
     do {
       src \<leftarrow> over_node m;
       for_run (table_sync_step conn m (sync_cache m es)) all_u8 t
     }"

definition table_pop_delta :: "table \<Rightarrow> table_delta option \<times> table" where
  "table_pop_delta t =
     (case t_deltas t of [] \<Rightarrow> (None, t) | e # es \<Rightarrow> (Some e, t\<lparr>t_deltas := es\<rparr>))"

definition table_sync_entry :: "table \<Rightarrow> node_id \<Rightarrow> u8 \<Rightarrow> (u8 \<times> metric) option run" where
  "table_sync_entry t node i =
     (if \<not> dest_is_empty (t_dests t i) then do {
        own \<leftarrow> layer (t_node t) (t_layer t);
        Some (if i \<noteq> own
              then map_option (\<lambda>p. (i, path_metric p)) (dest_best_for (t_dests t i) node)
              else None)
      }
      else Some None)"

definition table_sync_for :: "table \<Rightarrow> node_id \<Rightarrow> table_sync option run" where
  "table_sync_for t node =
     (if unat (eq_util_layer (t_node t) node) > unat (t_layer t) + 1 then Some None
      else do {
        es \<leftarrow> map_run (table_sync_entry t node) all_u8;
        Some (Some (TableSync (List.map_filter id es)))
      })"

subsection \<open>Invariant and abstract view\<close>

definition wf_table :: "table \<Rightarrow> bool" where
  "wf_table t \<longleftrightarrow>
     t_layer t \<le> 3 \<and>
     (\<forall>i. wf_paths (d_paths (t_dests t i)) \<and> d_deltas (t_dests t i) = []) \<and>
     t_slots t = filter (\<lambda>i. d_paths (t_dests t i) \<noteq> []) all_u8"

text \<open>What the data plane keeps of a table: the best connection of every index.\<close>

definition table_view :: "table \<Rightarrow> u8 \<Rightarrow> conn_key option" where
  "table_view t = (\<lambda>i. best_key (t_dests t i))"

fun replay_table :: "(u8 \<Rightarrow> conn_key option) \<Rightarrow> table_delta \<Rightarrow> (u8 \<Rightarrow> conn_key option)" where
  "replay_table f (TableDelta i e) = f(i := replay_delta (f i) e)"

abbreviation table_tracks :: "table \<Rightarrow> table \<Rightarrow> bool" where
  "table_tracks \<equiv> tracks table_view t_deltas replay_table"

text \<open>The common effect of every update: destination \<open>i\<close> becomes \<open>d\<close>, the slot list follows, and
  the changes of \<open>d\<close> move to the table's queue.\<close>

definition put_dest :: "u8 \<Rightarrow> dest \<Rightarrow> table \<Rightarrow> table" where
  "put_dest i d t =
     t\<lparr>t_dests := (t_dests t)(i := d\<lparr>d_deltas := []\<rparr>),
       t_slots := filter (\<lambda>j. d_paths (((t_dests t)(i := d)) j) \<noteq> []) all_u8,
       t_deltas := t_deltas t @ map (TableDelta i) (d_deltas d)\<rparr>"

subsection \<open>Lemmas\<close>

lemma wf_tableD:
  assumes "wf_table t"
  shows "t_layer t \<le> 3" "wf_paths (d_paths (t_dests t i))" "d_deltas (t_dests t i) = []"
    "t_slots t = filter (\<lambda>i. d_paths (t_dests t i) \<noteq> []) all_u8"
  using assms by (auto simp: wf_table_def)

lemma table_new_wf [wf_intros]: "l \<le> 3 \<Longrightarrow> wf_table (table_new n l)"
  by (simp add: wf_table_def table_new_def)

lemma put_dest_sel [simp]:
  "t_node (put_dest i d t) = t_node t" "t_layer (put_dest i d t) = t_layer t"
  "d_paths (t_dests (put_dest i d t) j) = (if j = i then d_paths d else d_paths (t_dests t j))"
  by (simp_all add: put_dest_def)

lemma put_dest_at: "t_dests (put_dest i d t) j = (if j = i then d\<lparr>d_deltas := []\<rparr> else t_dests t j)"
  by (simp add: put_dest_def)

lemma put_dest_wf [wf_intros]:
  "wf_table t \<Longrightarrow> wf_paths (d_paths d) \<Longrightarrow> wf_table (put_dest i d t)"
  by (auto simp: wf_table_def put_dest_def intro!: filter_cong)

lemma put_dest_tracks:
  assumes "wf_table t" "dest_tracks (t_dests t i) d"
  shows "table_tracks t (put_dest i d t)"
proof -
  have lift: "foldl replay_table f (map (TableDelta i) es) = f(i := foldl replay_delta (f i) es)" for f es
    by (induction es arbitrary: f) auto
  from assms have "foldl replay_delta (best_key (t_dests t i)) (d_deltas d) = best_key d"
    by (simp add: tracks_def wf_tableD)
  then have "foldl replay_table (table_view t) (map (TableDelta i) (d_deltas d)) = table_view (put_dest i d t)"
    by (auto simp: lift table_view_def put_dest_def best_key_def)
  then show ?thesis by (auto simp: tracks_def put_dest_def)
qed

lemma dest_drained: "d_deltas d = [] \<Longrightarrow> d\<lparr>d_deltas := []\<rparr> = d"
  by (cases d) simp

lemma put_dest_same: "wf_table t \<Longrightarrow> put_dest i (t_dests t i) t = t"
  by (cases t) (auto simp: put_dest_def wf_table_def dest_drained)

lemma slot_insert_enum:
  "d_paths (f i) = [] \<Longrightarrow> d_paths d \<noteq> [] \<Longrightarrow>
     slot_insert i (filter (\<lambda>j. d_paths (f j) \<noteq> []) all_u8) = filter (\<lambda>j. d_paths ((f(i := d)) j) \<noteq> []) all_u8"
  by (auto simp: slot_insert_def sort_snoc_enum intro!: filter_cong)

lemma slot_remove_enum:
  "d_paths (f i) \<noteq> [] \<Longrightarrow> d_paths d = [] \<Longrightarrow>
     slot_remove i (filter (\<lambda>j. d_paths (f j) \<noteq> []) all_u8) = filter (\<lambda>j. d_paths ((f(i := d)) j) \<noteq> []) all_u8"
  by (auto simp: slot_remove_def remove1_enum intro!: filter_cong)

lemma slot_keep_enum:
  "(d_paths (f i) = []) = (d_paths d = []) \<Longrightarrow>
     filter (\<lambda>j. d_paths (f j) \<noteq> []) all_u8 = filter (\<lambda>j. d_paths ((f(i := d)) j) \<noteq> []) all_u8"
  by (auto intro!: filter_cong)

lemma sort_put_nonempty [simp]: "sort_paths (put_path ps c m) \<noteq> []"
proof
  assume "sort_paths (put_path ps c m) = []"
  then have "put_path ps c m = []" by (metis set_sort_paths set_empty)
  then show False using put_path_key [of ps c m] by simp
qed

text \<open>Every update of the source is a \<open>put_dest\<close> of the destination's own update.\<close>

lemma table_add_direct_run [run_simps]:
  assumes "wf_table t" "hops m \<noteq> []"
  shows "table_add_direct t conn m =
    (let i = layer_byte (last (hops m)) (unat (t_layer t))
     in Some (put_dest i (dest_set_path (t_dests t i) conn m) t))"
proof -
  let ?i = "layer_byte (last (hops m)) (unat (t_layer t))"
  let ?d = "dest_set_path (t_dests t ?i) conn m"
  show ?thesis
  proof (cases "d_paths (t_dests t ?i) = []")
    case True
    then show ?thesis
      using assms slot_insert_enum [of "t_dests t" ?i ?d]
      by (simp add: table_add_direct_def over_node_run layer_run wf_tableD dest_is_empty_def
          poll_delta_index_def put_dest_def Let_def)
  next
    case False
    then show ?thesis
      using assms slot_keep_enum [of "t_dests t" ?i ?d]
      by (simp add: table_add_direct_def over_node_run layer_run wf_tableD dest_is_empty_def
          poll_delta_index_def put_dest_def Let_def)
  qed
qed

lemma table_del_step_put:
  assumes "wf_table t"
  shows "table_del_step conn i t = put_dest i (snd (dest_del_path (t_dests t i) conn)) t"
proof (cases "conn_key conn \<in> path_key ` set (d_paths (t_dests t i))")
  case False
  then show ?thesis
    using put_dest_same [OF assms, of i]
    by (simp add: table_del_step_def dest_del_path_absent)
next
  case True
  let ?d = "snd (dest_del_path (t_dests t i) conn)"
  from True obtain p where p: "fst (dest_del_path (t_dests t i) conn) = Some p"
    using dest_del_path_None [of "t_dests t i" conn] by auto
  have ne: "d_paths (t_dests t i) \<noteq> []" using True by auto
  show ?thesis
  proof (cases "d_paths ?d = []")
    case True
    then show ?thesis
      using assms p ne slot_remove_enum [of "t_dests t" i ?d]
      by (simp add: table_del_step_def case_prod_beta wf_tableD dest_is_empty_def
          poll_delta_index_def put_dest_def Let_def)
  next
    case False
    then show ?thesis
      using assms p ne slot_keep_enum [of "t_dests t" i ?d]
      by (simp add: table_del_step_def case_prod_beta wf_tableD dest_is_empty_def
          poll_delta_index_def put_dest_def Let_def)
  qed
qed

text \<open>The destination that \<open>table_sync_step\<close> leaves at index \<open>i\<close>.\<close>

definition synced_dest :: "u8 \<Rightarrow> u8 \<Rightarrow> conn_id \<Rightarrow> (u8 \<rightharpoonup> metric) \<Rightarrow> u8 \<Rightarrow> dest \<Rightarrow> dest" where
  "synced_dest own over conn cached i d =
     (if i = own then d
      else case cached i of
        Some m' \<Rightarrow> dest_set_path d conn m'
      | None \<Rightarrow> if i = over then d else snd (dest_del_path d conn))"

lemma dest_del_path_Nil: "d_paths d = [] \<Longrightarrow> dest_del_path d c = (None, d)"
  by (simp add: dest_del_path_def)

lemma poll_same: "wf_table t \<Longrightarrow> poll_delta_index i t = t"
  by (cases t) (auto simp: poll_delta_index_def wf_table_def dest_drained)

lemma table_sync_step_run [run_simps]:
  assumes "wf_table t" "hops m \<noteq> []"
  shows "table_sync_step conn m cached i t =
    Some (put_dest i (synced_dest (layer_byte (t_node t) (unat (t_layer t)))
      (layer_byte (last (hops m)) (unat (t_layer t))) conn cached i (t_dests t i)) t)"
proof -
  let ?d = "t_dests t i"
  note defs = table_sync_step_def synced_dest_def wf_tableD [OF assms(1)] layer_run over_node_run
    dest_is_empty_def poll_delta_index_def put_dest_def Let_def
  show ?thesis
  proof (cases "i = layer_byte (t_node t) (unat (t_layer t))")
    case True
    then show ?thesis
      using put_dest_same [OF assms(1)]
      by (simp add: table_sync_step_def synced_dest_def wf_tableD [OF assms(1)] layer_run)
  next
    case own: False
    show ?thesis
    proof (cases "cached i")
      case (Some m')
      then show ?thesis
        using own slot_insert_enum [of "t_dests t" i "dest_set_path ?d conn m'"]
          slot_keep_enum [of "t_dests t" i "dest_set_path ?d conn m'"]
        by (cases "d_paths ?d = []") (simp_all add: defs)
    next
      case None
      let ?d' = "snd (dest_del_path ?d conn)"
      show ?thesis
      proof (cases "d_paths ?d = [] \<or> i = layer_byte (last (hops m)) (unat (t_layer t))")
        case True
        then show ?thesis
          using own None assms put_dest_same [OF assms(1), of i] poll_same [OF assms(1), of i]
          by (auto simp: table_sync_step_def synced_dest_def wf_tableD [OF assms(1)] layer_run
              over_node_run dest_is_empty_def dest_del_path_Nil Let_def)
      next
        case False
        then show ?thesis
          using own None assms slot_remove_enum [of "t_dests t" i ?d'] slot_keep_enum [of "t_dests t" i ?d']
          by (cases "d_paths ?d' = []") (auto simp: defs)
      qed
    qed
  qed
qed

subsection \<open>Loops over the whole table\<close>

interpretation table_cells: cell_array t_dests put_dest "\<lambda>d. d\<lparr>d_deltas := []\<rparr>" wf_table
    "\<lambda>d. wf_paths (d_paths d)" table_tracks dest_tracks
proof unfold_locales
  show "table_tracks s (put_dest i d s)" if "wf_table s" "dest_tracks (t_dests s i) d" for s i d
    using that by (rule put_dest_tracks)
qed (auto simp: put_dest_at wf_tableD put_dest_wf tracks_refl intro: tracks_trans)

lemma map_cells_frame [simp]:
  "t_node (table_cells.map_cells h t) = t_node t" "t_layer (table_cells.map_cells h t) = t_layer t"
  unfolding table_cells.map_cells_def
  by (rule fold_invariant_set [where P = "\<lambda>u. t_node u = t_node t"]; simp)
     (rule fold_invariant_set [where P = "\<lambda>u. t_layer u = t_layer t"]; simp)

lemma dest_op_id: "table_cells.cell_op (\<lambda>d. d)"
  by (simp add: table_cells.cell_op_def tracks_refl)

lemma dest_op_set: "hops m \<noteq> [] \<Longrightarrow> table_cells.cell_op (\<lambda>d. dest_set_path d c m)"
  by (simp add: table_cells.cell_op_def dest_set_path_tracks wf_sort_put_path)

lemma dest_op_del: "table_cells.cell_op (\<lambda>d. snd (dest_del_path d c))"
  by (simp add: table_cells.cell_op_def dest_del_path_tracks wf_paths_filter)

lemma table_del_direct_map:
  "wf_table t \<Longrightarrow> table_del_direct t c = table_cells.map_cells (\<lambda>i d. snd (dest_del_path d c)) t"
  unfolding table_del_direct_def
  by (rule table_cells.fold_map_cells) (auto simp: table_del_step_put dest_op_del)

lemma sync_cache_hops:
  assumes "hops m \<noteq> []" "sync_cache m es i = Some m'"
  shows "hops m' \<noteq> []"
proof -
  have "\<forall>i m'. sync_cache m es i = Some m' \<longrightarrow> hops m' \<noteq> []"
    unfolding sync_cache_def
    by (rule fold_invariant_set [where P = "\<lambda>c. \<forall>i m'. c i = Some m' \<longrightarrow> hops m' \<noteq> []"]) (use assms(1) in \<open>auto split: if_splits\<close>)
  with assms(2) show ?thesis by blast
qed

lemma synced_dest_op:
  assumes "\<And>i m'. cached i = Some m' \<Longrightarrow> hops m' \<noteq> []"
  shows "table_cells.cell_op (synced_dest own over c cached i)"
proof (cases "i = own")
  case False
  then show ?thesis
    using assms dest_op_set [of _ c] dest_op_del [of c] dest_op_id
    by (cases "cached i"; cases "i = over") (auto simp: synced_dest_def [abs_def])
qed (simp add: synced_dest_def [abs_def] dest_op_id)

lemma table_apply_sync_run [run_simps]:
  assumes "wf_table t" "hops m \<noteq> []"
  shows "table_apply_sync t c m (TableSync es) =
    Some (table_cells.map_cells (synced_dest (layer_byte (t_node t) (unat (t_layer t)))
      (layer_byte (last (hops m)) (unat (t_layer t))) c (sync_cache m es)) t)"
proof -
  let ?P = "\<lambda>u. t_node u = t_node t \<and> t_layer u = t_layer t"
  have "for_run (table_sync_step c m (sync_cache m es)) all_u8 t =
      Some (table_cells.map_cells (synced_dest (layer_byte (t_node t) (unat (t_layer t)))
        (layer_byte (last (hops m)) (unat (t_layer t))) c (sync_cache m es)) t)"
    using assms
    by (intro table_cells.loop_map_cells [where P = ?P])
       (auto simp: table_sync_step_run intro: synced_dest_op dest: sync_cache_hops)
  with assms show ?thesis by (simp add: over_node_run)
qed

lemma table_pop_delta_wf [wf_intros]: "wf_table t \<Longrightarrow> table_pop_delta t = (r, t') \<Longrightarrow> wf_table t'"
  by (auto simp: table_pop_delta_def wf_table_def split: list.splits)

interpretation table_log: delta_log table_view t_deltas replay_table table_pop_delta
  by unfold_locales (auto simp: table_pop_delta_def table_view_def)

subsection \<open>Closest slot\<close>

text \<open>What the loop has found after visiting \<open>slots\<close>, starting from the candidate \<open>b\<close>.\<close>

definition closest_inv :: "table \<Rightarrow> u8 \<Rightarrow> node_id list \<Rightarrow> u8 list \<Rightarrow>
    (u8 \<times> conn_id \<times> node_id \<times> u8) option \<Rightarrow> (u8 \<times> conn_id \<times> node_id \<times> u8) option \<Rightarrow> bool" where
  "closest_inv t key ex slots b r \<longleftrightarrow>
    (case r of
       None \<Rightarrow> b = None \<and> (\<forall>s\<in>set slots. dest_next (t_dests t s) ex = Some None)
     | Some (s, c, n, d) \<Rightarrow>
         (b = Some (s, c, n, d) \<or> s \<in> set slots \<and> dest_next (t_dests t s) ex = Some (Some (c, n)) \<and> d = s XOR key) \<and>
         (\<forall>s' c' n' d'. b = Some (s', c', n', d') \<longrightarrow> d \<le> d') \<and>
         (\<forall>s'\<in>set slots. dest_next (t_dests t s') ex \<noteq> Some None \<longrightarrow> d \<le> s' XOR key))"

lemma closest_loop_spec:
  assumes wf: "wf_table t"
  shows "\<exists>r. closest_loop t key ex slots b = Some r \<and> closest_inv t key ex slots b r"
proof (induction slots arbitrary: b)
  case Nil
  show ?case by (auto simp: closest_inv_def split: option.splits)
next
  case (Cons s slots)
  obtain nx where nx: "dest_next (t_dests t s) ex = Some nx"
    using wf_tableD(2) [OF wf, of s] by (simp add: dest_next_def next_of_run)
  let ?b = "if (case b of None \<Rightarrow> True | Some (_, _, _, d) \<Rightarrow> s XOR key < d)
            then (case nx of Some (c, n) \<Rightarrow> Some (s, c, n, s XOR key) | None \<Rightarrow> b) else b"
  have eq: "closest_loop t key ex (s # slots) b = closest_loop t key ex slots ?b"
    by (simp add: nx Let_def)
  show ?case
    unfolding eq using Cons.IH [of ?b] nx
    by (cases b; cases nx)
       (fastforce simp: closest_inv_def split: option.splits if_splits dest: order.strict_implies_order)+
qed

lemma dest_next_Nil: "d_paths d = [] \<Longrightarrow> dest_next d ex = Some None"
  by (simp add: dest_next_def)

lemma table_closest_for_spec:
  assumes wf: "wf_table t"
  shows "\<exists>r. table_closest_for t key ex = Some r \<and>
    (case r of
       None \<Rightarrow> \<forall>s. dest_next (t_dests t s) ex = Some None
     | Some (s, c, n) \<Rightarrow> dest_next (t_dests t s) ex = Some (Some (c, n)) \<and>
         (\<forall>s'. dest_next (t_dests t s') ex \<noteq> Some None \<longrightarrow> s XOR key \<le> s' XOR key))"
proof -
  have slots: "s \<in> set (t_slots t) \<or> dest_next (t_dests t s) ex = Some None" for s
    using wf_tableD(4) [OF wf] dest_next_Nil [of "t_dests t s"] by auto
  obtain r where r: "closest_loop t key ex (t_slots t) None = Some r"
    and "closest_inv t key ex (t_slots t) None r"
    using closest_loop_spec [OF wf] by blast
  then have spec: "case r of
       None \<Rightarrow> \<forall>s\<in>set (t_slots t). dest_next (t_dests t s) ex = Some None
     | Some (s, c, n, d) \<Rightarrow> dest_next (t_dests t s) ex = Some (Some (c, n)) \<and> d = s XOR key \<and>
         (\<forall>s'\<in>set (t_slots t). dest_next (t_dests t s') ex \<noteq> Some None \<longrightarrow> d \<le> s' XOR key)"
    by (cases r) (auto simp: closest_inv_def)
  show ?thesis
    using spec slots by (auto simp: table_closest_for_def r split: option.splits)
qed

end
