(* ===== verification/Service_Registry.thy ===== *)
theory Service_Registry
  imports Route_Table
begin

text \<open>
  The service registry (\<^verbatim>\<open>core/router/src/core/registry.rs\<close> and \<^verbatim>\<open>registry/dest.rs\<close>): which of the
  256 services run locally, and the ranked paths to the remote providers of each.

  A service destination logs every change of a provider's score or destination node, and the data
  plane keeps the whole ranked list; \<open>rdest_view\<close> is that list. The lemmas mirror those of the
  routing table: the \<open>path_store\<close> contract, the invariant, and the exactness of the change log.
\<close>

datatype registry_dest_delta = SetServicePath conn_id node_id u32 | DelServicePath conn_id

record registry_dest =
  rd_paths :: "path list"
  rd_deltas :: "registry_dest_delta list"

definition rdest_default :: registry_dest where
  "rdest_default = \<lparr>rd_paths = [], rd_deltas = []\<rparr>"

definition rdest_set_path :: "registry_dest \<Rightarrow> conn_id \<Rightarrow> metric \<Rightarrow> registry_dest run" where
  "rdest_set_path d over m =
     (case index_of (rd_paths d) over of
        Some i \<Rightarrow> do {
          let slot = rd_paths d ! i;
          changed \<leftarrow> (if score (path_metric slot) \<noteq> score m then Some True
                     else do {
                       a \<leftarrow> dest_node (path_metric slot);
                       b \<leftarrow> dest_node m;
                       Some (a \<noteq> b)
                     });
          ds \<leftarrow> (if changed then do { n \<leftarrow> dest_node m; Some (rd_deltas d @ [SetServicePath over n (score m)]) }
                else Some (rd_deltas d));
          Some (d\<lparr>rd_deltas := ds, rd_paths := sort_paths ((rd_paths d)[i := Path (path_conn slot) m])\<rparr>)
        }
      | None \<Rightarrow> do {
          n \<leftarrow> dest_node m;
          Some (d\<lparr>rd_deltas := rd_deltas d @ [SetServicePath over n (score m)],
                  rd_paths := sort_paths (rd_paths d @ [Path over m])\<rparr>)
        })"

definition rdest_has_path :: "registry_dest \<Rightarrow> conn_id \<Rightarrow> bool" where
  "rdest_has_path d over \<longleftrightarrow> index_of (rd_paths d) over \<noteq> None"

definition rdest_del_path :: "registry_dest \<Rightarrow> conn_id \<Rightarrow> path option \<times> registry_dest" where
  "rdest_del_path d over =
     (case index_of (rd_paths d) over of
        Some i \<Rightarrow> (Some (rd_paths d ! i),
          d\<lparr>rd_paths := remove_at i (rd_paths d), rd_deltas := rd_deltas d @ [DelServicePath over]\<rparr>)
      | None \<Rightarrow> (None, d))"

definition rdest_pop_delta :: "registry_dest \<Rightarrow> registry_dest_delta option \<times> registry_dest" where
  "rdest_pop_delta d =
     (case rd_deltas d of [] \<Rightarrow> (None, d) | e # es \<Rightarrow> (Some e, d\<lparr>rd_deltas := es\<rparr>))"

definition rdest_is_empty :: "registry_dest \<Rightarrow> bool" where
  "rdest_is_empty d \<longleftrightarrow> rd_paths d = []"

definition rdest_next :: "registry_dest \<Rightarrow> node_id list \<Rightarrow> (conn_id \<times> node_id) option run" where
  "rdest_next d excepts = next_of (rd_paths d) excepts"

definition rdest_best_for :: "registry_dest \<Rightarrow> node_id \<Rightarrow> path option" where
  "rdest_best_for d neighbour = best_for_of (rd_paths d) neighbour"

definition rdest_next_path :: "registry_dest \<Rightarrow> node_id list \<Rightarrow> path option run" where
  "rdest_next_path d excepts = next_path_of (rd_paths d) excepts"

record register_dest_dump =
  rdd_next :: "node_id option"
  rdd_paths :: "node_id \<rightharpoonup> metric"

definition rdest_dump :: "registry_dest \<Rightarrow> register_dest_dump run" where
  "rdest_dump d =
     do {
       nx \<leftarrow> rdest_next d [];
       kvs \<leftarrow> map_run (\<lambda>p. do { n \<leftarrow> over_node (path_metric p); Some (n, path_metric p) }) (rd_paths d);
       Some \<lparr>rdd_next = map_option snd nx, rdd_paths = map_of (rev kvs)\<rparr>
     }"

subsection \<open>The registry\<close>

definition REGISTRY_LOCAL_BW :: u32 where "REGISTRY_LOCAL_BW = 1000000"

datatype registry_delta =
    ServiceRemote u8 registry_dest_delta
  | SetServiceLocal u8
  | DelServiceLocal u8

datatype registry_sync = RegistrySync "(u8 \<times> metric) list"

datatype service_destination = ServiceLocal | ServiceRemoteDest conn_id node_id

record registry =
  rg_node :: node_id
  rg_local :: "u8 \<Rightarrow> bool"
  rg_remote :: "u8 \<Rightarrow> registry_dest"
  rg_deltas :: "registry_delta list"

definition registry_new :: "node_id \<Rightarrow> registry" where
  "registry_new n =
     \<lparr>rg_node = n, rg_local = (\<lambda>_. False), rg_remote = (\<lambda>_. rdest_default), rg_deltas = []\<rparr>"

record register_dump =
  rgd_local :: "u8 list"
  rgd_remotes :: "u8 \<rightharpoonup> register_dest_dump"

definition registry_dump :: "registry \<Rightarrow> register_dump run" where
  "registry_dump r =
     do {
       kvs \<leftarrow> map_run (\<lambda>i. do { v \<leftarrow> rdest_dump (rg_remote r i); Some (i, v) })
               (filter (\<lambda>i. \<not> rdest_is_empty (rg_remote r i)) all_u8);
       Some \<lparr>rgd_local = filter (rg_local r) all_u8, rgd_remotes = map_of kvs\<rparr>
     }"

definition registry_add_service :: "registry \<Rightarrow> u8 \<Rightarrow> registry" where
  "registry_add_service r s =
     r\<lparr>rg_local := (rg_local r)(s := True), rg_deltas := rg_deltas r @ [SetServiceLocal s]\<rparr>"

definition registry_remove_service :: "registry \<Rightarrow> u8 \<Rightarrow> registry" where
  "registry_remove_service r s =
     r\<lparr>rg_local := (rg_local r)(s := False), rg_deltas := rg_deltas r @ [DelServiceLocal s]\<rparr>"

text \<open>Storing a destination and moving its queue to the registry's, as the inner
  \<^verbatim>\<open>while let Some(delta)\<close> loops do.\<close>

definition put_rdest :: "u8 \<Rightarrow> registry_dest \<Rightarrow> registry \<Rightarrow> registry" where
  "put_rdest i d r =
     r\<lparr>rg_remote := (rg_remote r)(i := d\<lparr>rd_deltas := []\<rparr>),
       rg_deltas := rg_deltas r @ map (ServiceRemote i) (rd_deltas d)\<rparr>"

definition registry_del_direct :: "registry \<Rightarrow> conn_id \<Rightarrow> registry" where
  "registry_del_direct r conn =
     fold (\<lambda>i r. put_rdest i (snd (rdest_del_path (rg_remote r i) conn)) r) all_u8 r"

definition registry_next :: "registry \<Rightarrow> u8 \<Rightarrow> node_id list \<Rightarrow> service_destination option run" where
  "registry_next r service excepts =
     (if rg_local r service then Some (Some ServiceLocal)
      else do {
        nx \<leftarrow> rdest_next (rg_remote r service) excepts;
        Some (map_option (\<lambda>(c, n). ServiceRemoteDest c n) nx)
      })"

definition registry_sync_step :: "conn_id \<Rightarrow> (u8 \<rightharpoonup> metric) \<Rightarrow> u8 \<Rightarrow> registry \<Rightarrow> registry run" where
  "registry_sync_step conn cached i r =
     do {
       let d = rg_remote r i;
       d' \<leftarrow> (case cached i of
           None \<Rightarrow> Some (snd (rdest_del_path d conn))
         | Some m \<Rightarrow> rdest_set_path d conn m);
       Some (put_rdest i d' r)
     }"

fun registry_apply_sync :: "registry \<Rightarrow> conn_id \<Rightarrow> metric \<Rightarrow> registry_sync \<Rightarrow> registry run" where
  "registry_apply_sync r conn m (RegistrySync es) =
     do {
       src \<leftarrow> over_node m;
       for_run (registry_sync_step conn (sync_cache m es)) all_u8 r
     }"

definition registry_pop_delta :: "registry \<Rightarrow> registry_delta option \<times> registry" where
  "registry_pop_delta r =
     (case rg_deltas r of [] \<Rightarrow> (None, r) | e # es \<Rightarrow> (Some e, r\<lparr>rg_deltas := es\<rparr>))"

definition registry_sync_entry :: "registry \<Rightarrow> node_id \<Rightarrow> u8 \<Rightarrow> (u8 \<times> metric) option" where
  "registry_sync_entry r node i =
     (if rg_local r i then Some (i, metric_new 0 [] REGISTRY_LOCAL_BW)
      else if \<not> rdest_is_empty (rg_remote r i)
      then map_option (\<lambda>p. (i, path_metric p)) (rdest_best_for (rg_remote r i) node)
      else None)"

definition registry_sync_for :: "registry \<Rightarrow> node_id \<Rightarrow> registry_sync" where
  "registry_sync_for r node = RegistrySync (List.map_filter (registry_sync_entry r node) all_u8)"

subsection \<open>Invariant and abstract view\<close>

definition wf_registry :: "registry \<Rightarrow> bool" where
  "wf_registry r \<longleftrightarrow> (\<forall>i. wf_paths (rd_paths (rg_remote r i)) \<and> rd_deltas (rg_remote r i) = [])"

text \<open>A provider as the data plane sees it: connection, destination node, score.\<close>

type_synonym provider = "conn_key \<times> node_id \<times> u32"

definition provider_of :: "path \<Rightarrow> provider" where
  "provider_of p = (path_key p, hd (hops (path_metric p)), path_score p)"

definition rdest_view :: "registry_dest \<Rightarrow> provider list" where
  "rdest_view d = map provider_of (rd_paths d)"

fun put_provider :: "provider list \<Rightarrow> conn_key \<Rightarrow> node_id \<Rightarrow> u32 \<Rightarrow> provider list" where
  "put_provider [] k n s = [(k, n, s)]"
| "put_provider (v # vs) k n s = (if fst v = k then (k, n, s) # vs else v # put_provider vs k n s)"

fun replay_rdelta :: "provider list \<Rightarrow> registry_dest_delta \<Rightarrow> provider list" where
  "replay_rdelta vs (SetServicePath c n s) = sort_key (snd \<circ> snd) (put_provider vs (conn_key c) n s)"
| "replay_rdelta vs (DelServicePath c) = filter (\<lambda>v. fst v \<noteq> conn_key c) vs"

abbreviation rdest_tracks :: "registry_dest \<Rightarrow> registry_dest \<Rightarrow> bool" where
  "rdest_tracks \<equiv> tracks rdest_view rd_deltas replay_rdelta"

type_synonym registry_view_t = "(u8 \<Rightarrow> bool) \<times> (u8 \<Rightarrow> provider list)"

definition registry_view :: "registry \<Rightarrow> registry_view_t" where
  "registry_view r = (rg_local r, \<lambda>i. rdest_view (rg_remote r i))"

fun replay_registry :: "registry_view_t \<Rightarrow> registry_delta \<Rightarrow> registry_view_t" where
  "replay_registry (l, f) (ServiceRemote i e) = (l, f(i := replay_rdelta (f i) e))"
| "replay_registry (l, f) (SetServiceLocal i) = (l(i := True), f)"
| "replay_registry (l, f) (DelServiceLocal i) = (l(i := False), f)"

abbreviation registry_tracks :: "registry \<Rightarrow> registry \<Rightarrow> bool" where
  "registry_tracks \<equiv> tracks registry_view rg_deltas replay_registry"

subsection \<open>Service destinations\<close>

lemma put_path_cases:
  "put_path ps c m = (case index_of ps c of
     Some i \<Rightarrow> ps[i := Path (path_conn (ps ! i)) m] | None \<Rightarrow> ps @ [Path c m])"
  by (simp add: put_path_def)

lemma put_provider_map:
  assumes "hops m \<noteq> []"
  shows "map provider_of (put_path ps c m) = put_provider (map provider_of ps) (conn_key c) (hd (hops m)) (score m)"
proof (induction ps)
  case Nil
  show ?case by (simp add: put_path_def provider_of_def)
next
  case (Cons p ps)
  have step: "put_path (p # ps) c m =
      (if path_key p = conn_key c then Path (path_conn p) m # ps else p # put_path ps c m)"
    by (auto simp: put_path_def split: option.splits)
  show ?case unfolding step using Cons.IH by (auto simp: provider_of_def)
qed

lemma map_insort_key_comp: "map f (insort_key (\<lambda>x. g (f x)) x xs) = insort_key g (f x) (map f xs)"
  by (induction xs) auto

lemma map_sort_key_comp: "map f (sort_key (\<lambda>x. g (f x)) xs) = sort_key g (map f xs)"
  by (induction xs) (simp_all add: map_insort_key_comp)

lemma rdest_view_sort: "map provider_of (sort_paths ps) = sort_key (snd \<circ> snd) (map provider_of ps)"
  using map_sort_key_comp [of provider_of "snd \<circ> snd" ps]
  by (simp add: sort_paths_def provider_of_def)

lemma put_path_same_view:
  assumes "index_of ps c = Some i" "path_score (ps ! i) = score m" "hd (hops (path_metric (ps ! i))) = hd (hops m)"
  shows "map provider_of (put_path ps c m) = map provider_of ps"
proof -
  have "i < length ps" "path_key (ps ! i) = conn_key c" using assms(1) by (auto dest: index_of_Some)
  then show ?thesis
    using assms by (simp add: put_path_def map_update list_update_same_conv provider_of_def)
qed

lemma rdest_set_path_run:
  assumes "wf_paths (rd_paths d)" "hops m \<noteq> []"
  shows "\<exists>d'. rdest_set_path d c m = Some d' \<and> rd_paths d' = sort_paths (put_path (rd_paths d) c m) \<and> rdest_tracks d d'"
proof (cases "index_of (rd_paths d) c")
  case None
  then show ?thesis
    using assms put_provider_map [of m "rd_paths d" c]
    by (auto simp: rdest_set_path_def dest_node_run put_path_def tracks_def rdest_view_def rdest_view_sort)
next
  case (Some i)
  let ?slot = "rd_paths d ! i"
  have i: "i < length (rd_paths d)" using Some by (auto dest: index_of_Some)
  then have ne: "hops (path_metric ?slot) \<noteq> []" using assms(1) wf_paths_hops nth_mem by blast
  have put: "put_path (rd_paths d) c m = (rd_paths d)[i := Path (path_conn ?slot) m]"
    using Some by (simp add: put_path_def)
  show ?thesis
  proof (cases "path_score ?slot = score m \<and> hd (hops (path_metric ?slot)) = hd (hops m)")
    case True
    then have same: "map provider_of (put_path (rd_paths d) c m) = map provider_of (rd_paths d)"
      using put_path_same_view [OF Some] by simp
    have "sorted (map (snd \<circ> snd) (map provider_of (rd_paths d)))"
      using assms(1) by (simp add: wf_paths_def comp_def provider_of_def)
    then have "sort_key (snd \<circ> snd) (map provider_of (rd_paths d)) = map provider_of (rd_paths d)"
      by (rule sort_key_id_if_sorted)
    then have "map provider_of (sort_paths (put_path (rd_paths d) c m)) = map provider_of (rd_paths d)"
      by (simp only: rdest_view_sort same)
    then show ?thesis
      using True Some ne assms(2)
      by (auto simp: rdest_set_path_def dest_node_run put Let_def tracks_def rdest_view_def)
  next
    case False
    then show ?thesis
      using Some ne assms(2) put_provider_map [OF assms(2), of "rd_paths d" c]
      by (auto simp: rdest_set_path_def dest_node_run put Let_def tracks_def rdest_view_def rdest_view_sort)
  qed
qed

lemma rd_paths_del_path [simp]:
  assumes "wf_paths (rd_paths d)"
  shows "rd_paths (snd (rdest_del_path d c)) = filter (\<lambda>p. path_key p \<noteq> conn_key c) (rd_paths d)"
proof (cases "index_of (rd_paths d) c")
  case None
  with index_of_None [of "rd_paths d" c] show ?thesis
    by (auto simp: rdest_del_path_def image_iff intro!: filter_True [symmetric])
next
  case (Some i)
  then have "i < length (rd_paths d)" "path_key (rd_paths d ! i) = conn_key c"
    by (auto dest: index_of_Some)
  then show ?thesis
    using Some assms set_remove_at [of path_key "rd_paths d" i]
    by (simp add: rdest_del_path_def wf_paths_def)
qed

lemma rdest_del_path_tracks:
  assumes "wf_paths (rd_paths d)"
  shows "rdest_tracks d (snd (rdest_del_path d c))"
proof (cases "index_of (rd_paths d) c")
  case None
  then show ?thesis by (simp add: rdest_del_path_def tracks_refl)
next
  case (Some i)
  then show ?thesis
    using rd_paths_del_path [OF assms, of c]
    by (auto simp: tracks_def rdest_del_path_def rdest_view_def filter_map comp_def provider_of_def)
qed

interpretation rdest_store: path_store rd_paths rdest_set_path rdest_del_path
  using rdest_set_path_run by unfold_locales (fastforce, simp)

interpretation rdest_log: delta_log rdest_view rd_deltas replay_rdelta rdest_pop_delta
  by unfold_locales (auto simp: rdest_pop_delta_def rdest_view_def)

subsection \<open>The whole registry\<close>

lemma wf_registryD:
  "wf_registry r \<Longrightarrow> wf_paths (rd_paths (rg_remote r i))"
  "wf_registry r \<Longrightarrow> rd_deltas (rg_remote r i) = []"
  by (simp_all add: wf_registry_def)

lemma registry_new_wf [wf_intros]: "wf_registry (registry_new n)"
  by (simp add: wf_registry_def registry_new_def rdest_default_def)

lemma put_rdest_at: "rg_remote (put_rdest i d r) j = (if j = i then d\<lparr>rd_deltas := []\<rparr> else rg_remote r j)"
  by (simp add: put_rdest_def)

lemma put_rdest_frame [simp]: "rg_local (put_rdest i d r) = rg_local r" "rg_node (put_rdest i d r) = rg_node r"
  by (simp_all add: put_rdest_def)

lemma put_rdest_wf [wf_intros]: "wf_registry r \<Longrightarrow> wf_paths (rd_paths d) \<Longrightarrow> wf_registry (put_rdest i d r)"
  by (simp add: wf_registry_def put_rdest_def)

lemma put_rdest_tracks:
  assumes "wf_registry r" "rdest_tracks (rg_remote r i) d"
  shows "registry_tracks r (put_rdest i d r)"
proof -
  have lift: "foldl replay_registry (l, f) (map (ServiceRemote i) es) = (l, f(i := foldl replay_rdelta (f i) es))"
    for l f es by (induction es arbitrary: f) auto
  from assms have "foldl replay_rdelta (rdest_view (rg_remote r i)) (rd_deltas d) = rdest_view d"
    by (simp add: tracks_def wf_registryD)
  then have "foldl replay_registry (registry_view r) (map (ServiceRemote i) (rd_deltas d)) = registry_view (put_rdest i d r)"
    by (auto simp: lift registry_view_def put_rdest_def rdest_view_def)
  then show ?thesis by (auto simp: tracks_def put_rdest_def)
qed

interpretation registry_cells: cell_array rg_remote put_rdest "\<lambda>d. d\<lparr>rd_deltas := []\<rparr>" wf_registry
    "\<lambda>d. wf_paths (rd_paths d)" registry_tracks rdest_tracks
proof unfold_locales
  show "registry_tracks s (put_rdest i d s)" if "wf_registry s" "rdest_tracks (rg_remote s i) d" for s i d
    using that by (rule put_rdest_tracks)
qed (auto simp: put_rdest_at wf_registryD put_rdest_wf tracks_refl intro: tracks_trans)

lemma registry_map_cells_frame [simp]:
  "rg_local (registry_cells.map_cells h r) = rg_local r" "rg_node (registry_cells.map_cells h r) = rg_node r"
  unfolding registry_cells.map_cells_def
  by (rule fold_invariant_set [where P = "\<lambda>u. rg_local u = rg_local r"]; simp)
     (rule fold_invariant_set [where P = "\<lambda>u. rg_node u = rg_node r"]; simp)

lemma rdest_op_del: "registry_cells.cell_op (\<lambda>d. snd (rdest_del_path d c))"
  by (simp add: registry_cells.cell_op_def rdest_del_path_tracks wf_paths_filter)

definition set_rdest :: "conn_id \<Rightarrow> metric \<Rightarrow> registry_dest \<Rightarrow> registry_dest" where
  "set_rdest c m d = (case rdest_set_path d c m of Some d' \<Rightarrow> d' | None \<Rightarrow> d)"

lemma rdest_set_path_eq:
  "wf_paths (rd_paths d) \<Longrightarrow> hops m \<noteq> [] \<Longrightarrow> rdest_set_path d c m = Some (set_rdest c m d)"
  using rdest_set_path_run [of d m c] by (auto simp: set_rdest_def)

lemma rd_paths_set_rdest:
  "wf_paths (rd_paths d) \<Longrightarrow> hops m \<noteq> [] \<Longrightarrow> rd_paths (set_rdest c m d) = sort_paths (put_path (rd_paths d) c m)"
  using rdest_set_path_run [of d m c] by (auto simp: set_rdest_def)

lemma rdest_op_set: "hops m \<noteq> [] \<Longrightarrow> registry_cells.cell_op (set_rdest c m)"
  using rdest_set_path_run [of _ m c]
  by (fastforce simp: registry_cells.cell_op_def rd_paths_set_rdest set_rdest_def wf_sort_put_path)

text \<open>The destination that \<open>registry_sync_step\<close> leaves at index \<open>i\<close>.\<close>

definition synced_rdest :: "conn_id \<Rightarrow> (u8 \<rightharpoonup> metric) \<Rightarrow> u8 \<Rightarrow> registry_dest \<Rightarrow> registry_dest" where
  "synced_rdest conn cached i d =
     (case cached i of None \<Rightarrow> snd (rdest_del_path d conn) | Some m \<Rightarrow> set_rdest conn m d)"

lemma synced_rdest_op:
  assumes "\<And>i m. cached i = Some m \<Longrightarrow> hops m \<noteq> []"
  shows "registry_cells.cell_op (synced_rdest c cached i)"
  using assms rdest_op_del [of c] rdest_op_set [of _ c]
  by (cases "cached i") (auto simp: synced_rdest_def [abs_def])

lemma registry_del_direct_map:
  "registry_del_direct r c = registry_cells.map_cells (\<lambda>i d. snd (rdest_del_path d c)) r"
  by (simp add: registry_del_direct_def registry_cells.map_cells_def)

lemma registry_apply_sync_run [run_simps]:
  assumes "wf_registry r" "hops m \<noteq> []"
  shows "registry_apply_sync r c m (RegistrySync es) =
    Some (registry_cells.map_cells (synced_rdest c (sync_cache m es)) r)"
proof -
  have "for_run (registry_sync_step c (sync_cache m es)) all_u8 r =
      Some (registry_cells.map_cells (synced_rdest c (sync_cache m es)) r)"
  proof (rule registry_cells.loop_map_cells [where P = "\<lambda>_. True"])
    show "registry_sync_step c (sync_cache m es) i s =
        Some (put_rdest i (synced_rdest c (sync_cache m es) i (rg_remote s i)) s)" if "wf_registry s" for i s
      using that assms(2)
      by (cases "sync_cache m es i")
         (auto simp: registry_sync_step_def synced_rdest_def rdest_set_path_eq wf_registryD dest: sync_cache_hops)
  qed (use assms in \<open>auto intro: synced_rdest_op dest: sync_cache_hops\<close>)
  with assms show ?thesis by (simp add: over_node_run)
qed

lemma registry_service_tracks:
  "registry_tracks r (registry_add_service r s)" "registry_tracks r (registry_remove_service r s)"
  by (auto simp: tracks_def registry_add_service_def registry_remove_service_def registry_view_def)

lemma registry_service_wf [wf_intros]:
  "wf_registry r \<Longrightarrow> wf_registry (registry_add_service r s)"
  "wf_registry r \<Longrightarrow> wf_registry (registry_remove_service r s)"
  by (simp_all add: wf_registry_def registry_add_service_def registry_remove_service_def)

lemma registry_pop_delta_wf [wf_intros]: "wf_registry r \<Longrightarrow> registry_pop_delta r = (e, r') \<Longrightarrow> wf_registry r'"
  by (auto simp: registry_pop_delta_def wf_registry_def split: list.splits)

interpretation registry_log: delta_log registry_view rg_deltas replay_registry registry_pop_delta
  by unfold_locales (auto simp: registry_pop_delta_def registry_view_def)

end
