(* ===== verification/Core_Router.thy ===== *)
theory Core_Router
  imports Service_Registry
begin

text \<open>
  The control-plane router of a node (\<^verbatim>\<open>core/router/src/core/router.rs\<close>): four layer tables and the
  service registry.

  \<open>wf_router\<close> collects the invariants of the parts and that no table holds a route to the node's own
  index. The inductive relation \<open>router_step\<close> has one rule per public mutator; every reachable router
  is well formed, so none of its operations panics. Further lemmas: what the closest-node search
  finds, that a removed connection disappears from every answer, and that the routes exchanged by
  \<open>create_sync\<close> and \<open>apply_sync\<close> never loop.
\<close>

unbundle bit_operations_syntax

datatype router_delta = DeltaTable u8 table_delta | DeltaRegistry registry_delta

text \<open>The array \<^verbatim>\<open>[Option<TableSync>; 4]\<close> is a list.\<close>

datatype router_sync = RouterSync registry_sync "table_sync option list"

record router =
  r_node :: node_id
  r_tables :: "table list"
  r_registry :: registry

definition router_new :: "node_id \<Rightarrow> router" where
  "router_new n =
     \<lparr>r_node = n,
      r_tables = [table_new n 0, table_new n 1, table_new n 2, table_new n 3],
      r_registry = registry_new n\<rparr>"

record router_dump_rec =
  rod_node :: node_id
  rod_services :: register_dump
  rod_layers :: "table_dump_rec list"

definition router_dump :: "router \<Rightarrow> router_dump_rec run" where
  "router_dump r =
     do {
       services \<leftarrow> registry_dump (r_registry r);
       layers \<leftarrow> map_run (\<lambda>i. do { t \<leftarrow> index_run (r_tables r) i; table_dump t }) [0, 1, 2, 3];
       Some \<lparr>rod_node = r_node r, rod_services = services, rod_layers = layers\<rparr>
     }"

definition router_size :: "router \<Rightarrow> nat run" where
  "router_size r =
     for_run (\<lambda>i size. do { t \<leftarrow> index_run (r_tables r) i; Some (size + table_size t) }) [0..<4] 0"

definition router_register_service :: "router \<Rightarrow> u8 \<Rightarrow> router" where
  "router_register_service r s = r\<lparr>r_registry := registry_add_service (r_registry r) s\<rparr>"

definition router_service_next :: "router \<Rightarrow> u8 \<Rightarrow> node_id list \<Rightarrow> service_destination option run" where
  "router_service_next r s excepts = registry_next (r_registry r) s excepts"

text \<open>The \<^verbatim>\<open>debug_assert!\<close> of the source is not checked in a release build.\<close>

definition router_set_direct :: "router \<Rightarrow> conn_id \<Rightarrow> metric \<Rightarrow> router run" where
  "router_set_direct r over m =
     do {
       n \<leftarrow> over_node m;
       let e = unat (eq_util_layer (r_node r) n);
       if e \<le> 4 then
         (if e > 0 then do {
            t \<leftarrow> index_run (r_tables r) (e - 1);
            t' \<leftarrow> table_add_direct t over m;
            ts \<leftarrow> update_run (r_tables r) (e - 1) t';
            Some (r\<lparr>r_tables := ts\<rparr>)
          }
          else Some r)
       else None
     }"

definition router_del_direct :: "router \<Rightarrow> conn_id \<Rightarrow> router" where
  "router_del_direct r over =
     r\<lparr>r_tables := map (\<lambda>t. table_del_direct t over) (r_tables r),
       r_registry := registry_del_direct (r_registry r) over\<rparr>"

text \<open>\<^verbatim>\<open>self.tables.get(..)?\<close> returns \<^verbatim>\<open>None\<close> out of range instead of panicking.\<close>

definition router_next :: "router \<Rightarrow> node_id \<Rightarrow> node_id list \<Rightarrow> (conn_id \<times> node_id) option run" where
  "router_next r dst excepts =
     (let e = unat (eq_util_layer (r_node r) dst) in
      if e = 0 then Some None
      else if e - 1 < length (r_tables r) then table_next (r_tables r ! (e - 1)) dst excepts
      else Some None)"

definition router_next_path :: "router \<Rightarrow> node_id \<Rightarrow> node_id list \<Rightarrow> path option run" where
  "router_next_path r dst excepts =
     (let e = unat (eq_util_layer (r_node r) dst) in
      if e = 0 then Some None
      else if e - 1 < length (r_tables r) then table_next_path (r_tables r ! (e - 1)) dst excepts
      else Some None)"

fun closest_layers :: "router \<Rightarrow> node_id \<Rightarrow> node_id list \<Rightarrow> u8 list \<Rightarrow> (conn_id \<times> node_id \<times> u8 \<times> u8) option run" where
  "closest_layers r key excepts [] = Some None"
| "closest_layers r key excepts (i # is) =
     do {
       index \<leftarrow> layer key i;
       t \<leftarrow> index_run (r_tables r) (unat i);
       found \<leftarrow> table_closest_for t index excepts;
       (case found of
          Some (next_index, next_conn, next_node) \<Rightarrow> do {
            let next_distance = next_index XOR index;
            current_index \<leftarrow> layer (r_node r) i;
            let current_distance = index XOR current_index;
            if current_distance > next_distance then Some (Some (next_conn, next_node, i, next_index))
            else closest_layers r key excepts is
          }
        | None \<Rightarrow> closest_layers r key excepts is)
     }"

definition router_closest_node :: "router \<Rightarrow> node_id \<Rightarrow> node_id list \<Rightarrow> (conn_id \<times> node_id \<times> u8 \<times> u8) option run" where
  "router_closest_node r key excepts = closest_layers r key excepts [3, 2, 1, 0]"

definition router_create_sync :: "router \<Rightarrow> node_id \<Rightarrow> router_sync run" where
  "router_create_sync r for_node =
     do {
       ts \<leftarrow> map_run (\<lambda>i. do { t \<leftarrow> index_run (r_tables r) i; table_sync_for t for_node }) [0, 1, 2, 3];
       Some (RouterSync (registry_sync_for (r_registry r) for_node) ts)
     }"

definition router_sync_table :: "conn_id \<Rightarrow> metric \<Rightarrow> nat \<times> table_sync option \<Rightarrow> router \<Rightarrow> router run" where
  "router_sync_table conn m x r =
     (case x of
        (i, Some s) \<Rightarrow> do {
          t \<leftarrow> index_run (r_tables r) i;
          t' \<leftarrow> table_apply_sync t conn m s;
          ts \<leftarrow> update_run (r_tables r) i t';
          Some (r\<lparr>r_tables := ts\<rparr>)
        }
      | (i, None) \<Rightarrow> Some r)"

fun router_apply_sync :: "router \<Rightarrow> conn_id \<Rightarrow> metric \<Rightarrow> router_sync \<Rightarrow> router run" where
  "router_apply_sync r conn m (RouterSync rs ts) =
     do {
       reg \<leftarrow> registry_apply_sync (r_registry r) conn m rs;
       for_run (router_sync_table conn m) (enumerate 0 ts) (r\<lparr>r_registry := reg\<rparr>)
     }"

text \<open>The loop over the tables of \<^verbatim>\<open>pop_delta\<close>: the first table with a pending change answers.\<close>

fun pop_tables :: "nat \<Rightarrow> table list \<Rightarrow> router_delta option \<times> table list" where
  "pop_tables l [] = (None, [])"
| "pop_tables l (t # ts) =
     (case table_pop_delta t of
        (Some e, t') \<Rightarrow> (Some (DeltaTable (word_of_nat l) e), t' # ts)
      | (None, t') \<Rightarrow> (let (r, ts') = pop_tables (Suc l) ts in (r, t' # ts')))"

definition router_pop_delta :: "router \<Rightarrow> router_delta option \<times> router" where
  "router_pop_delta r =
     (case registry_pop_delta (r_registry r) of
        (Some e, reg) \<Rightarrow> (Some (DeltaRegistry e), r\<lparr>r_registry := reg\<rparr>)
      | (None, reg) \<Rightarrow>
          (let (e, ts) = pop_tables 0 (r_tables r)
           in (e, r\<lparr>r_registry := reg, r_tables := ts\<rparr>)))"

subsection \<open>Invariant and reachable routers\<close>

definition table_own :: "table \<Rightarrow> u8" where
  "table_own t = layer_byte (t_node t) (unat (t_layer t))"

text \<open>The node's own index never holds a route.\<close>

definition own_free :: "table \<Rightarrow> bool" where
  "own_free t \<longleftrightarrow> d_paths (t_dests t (table_own t)) = []"

definition wf_layer :: "node_id \<Rightarrow> nat \<Rightarrow> table \<Rightarrow> bool" where
  "wf_layer n l t \<longleftrightarrow> wf_table t \<and> t_node t = n \<and> unat (t_layer t) = l \<and> own_free t"

definition wf_router :: "router \<Rightarrow> bool" where
  "wf_router r \<longleftrightarrow>
     length (r_tables r) = 4 \<and> (\<forall>l<4. wf_layer (r_node r) l (r_tables r ! l)) \<and>
     wf_registry (r_registry r)"

text \<open>One rule per operation that changes a router. A sync carries four optional tables, and its
  metric is that of a direct connection.\<close>

inductive router_op :: "router \<Rightarrow> router \<Rightarrow> bool" where
  op_register: "router_op r (router_register_service r s)"
| op_set_direct: "hops m \<noteq> [] \<Longrightarrow> router_set_direct r c m = Some r' \<Longrightarrow> router_op r r'"
| op_del_direct: "router_op r (router_del_direct r c)"
| op_apply_sync: "hops m \<noteq> [] \<Longrightarrow> length ts = 4 \<Longrightarrow>
    router_apply_sync r c m (RouterSync rs ts) = Some r' \<Longrightarrow> router_op r r'"

inductive router_step :: "router \<Rightarrow> router \<Rightarrow> bool" where
  step_op: "router_op r r' \<Longrightarrow> router_step r r'"
| step_pop: "router_pop_delta r = (e, r') \<Longrightarrow> router_step r r'"

inductive router_reachable :: "node_id \<Rightarrow> router \<Rightarrow> bool" for n where
  reach_new: "router_reachable n (router_new n)"
| reach_step: "router_reachable n r \<Longrightarrow> router_step r r' \<Longrightarrow> router_reachable n r'"

subsection \<open>The data plane's view\<close>

text \<open>The best connection per layer and index, and the service registry's view.\<close>

type_synonym router_view_t = "registry_view_t \<times> (nat \<Rightarrow> u8 \<Rightarrow> conn_key option)"

definition router_view :: "router \<Rightarrow> router_view_t" where
  "router_view r = (registry_view (r_registry r),
     \<lambda>l. if l < length (r_tables r) then table_view (r_tables r ! l) else (\<lambda>_. None))"

fun replay_router :: "router_view_t \<Rightarrow> router_delta \<Rightarrow> router_view_t" where
  "replay_router (g, f) (DeltaTable l e) = (g, f(unat l := replay_table (f (unat l)) e))"
| "replay_router (g, f) (DeltaRegistry e) = (replay_registry g e, f)"

text \<open>A consumer's copy agrees with the router up to the changes it has not popped yet.\<close>

definition router_in_sync :: "router_view_t \<Rightarrow> router \<Rightarrow> bool" where
  "router_in_sync a r \<longleftrightarrow>
     registry_log.in_sync (fst a) (r_registry r) \<and>
     (\<forall>l<length (r_tables r). table_log.in_sync (snd a l) (r_tables r ! l)) \<and>
     (\<forall>l\<ge>length (r_tables r). snd a l = (\<lambda>_. None))"

subsection \<open>One table under the operations\<close>

text \<open>What every update of a layer table keeps: its identity, its invariant, and a faithful log.\<close>

definition layer_update :: "node_id \<Rightarrow> nat \<Rightarrow> table \<Rightarrow> table \<Rightarrow> bool" where
  "layer_update n l t t' \<longleftrightarrow> wf_layer n l t' \<and> table_tracks t t'"

definition synced_table :: "conn_id \<Rightarrow> metric \<Rightarrow> table_sync option \<Rightarrow> table \<Rightarrow> table" where
  "synced_table c m s t =
     (case s of
        None \<Rightarrow> t
      | Some (TableSync es) \<Rightarrow>
          table_cells.map_cells (synced_dest (table_own t) (layer_byte (last (hops m)) (unat (t_layer t))) c
            (sync_cache m es)) t)"

lemma wf_layerD:
  assumes "wf_layer n l t"
  shows "wf_table t" "t_node t = n" "unat (t_layer t) = l" "d_paths (t_dests t (layer_byte n l)) = []"
  using assms by (auto simp: wf_layer_def own_free_def table_own_def)

lemma layer_update_refl: "wf_layer n l t \<Longrightarrow> layer_update n l t t"
  by (simp add: layer_update_def tracks_refl)

lemma layer_update_cells:
  assumes "wf_layer n l t" "\<And>i. table_cells.cell_op (h i)"
    and "d_paths (h (layer_byte n l) (t_dests t (layer_byte n l))) = []"
  shows "layer_update n l t (table_cells.map_cells h t)"
  using assms wf_layerD [OF assms(1)] table_cells.map_cells_ok [of h t] table_cells.map_cells_step [of h t]
  by (simp add: layer_update_def wf_layer_def own_free_def table_own_def table_cells.get_map_cells)

lemma layer_update_del: "wf_layer n l t \<Longrightarrow> layer_update n l t (table_del_direct t c)"
  using wf_layerD [of n l t] dest_op_del [of c]
  by (simp add: table_del_direct_map layer_update_cells dest_del_path_Nil)

lemma layer_update_sync:
  assumes "wf_layer n l t" "hops m \<noteq> []"
  shows "layer_update n l t (synced_table c m s t)"
proof (cases s)
  case (Some ts)
  obtain es where "ts = TableSync es" by (cases ts)
  with Some show ?thesis
    using wf_layerD [OF assms(1)] assms
    by (auto simp: synced_table_def table_own_def synced_dest_def
        intro!: layer_update_cells synced_dest_op dest: sync_cache_hops)
qed (simp add: synced_table_def layer_update_refl assms)

lemma layer_update_add:
  assumes "wf_layer n l t" "hops m \<noteq> []" "layer_byte (last (hops m)) l \<noteq> layer_byte n l"
  shows "layer_update n l t (put_dest (layer_byte (last (hops m)) l)
           (dest_set_path (t_dests t (layer_byte (last (hops m)) l)) c m) t)"
  using assms wf_layerD [OF assms(1)]
  by (simp add: layer_update_def wf_layer_def own_free_def table_own_def put_dest_tracks
      dest_set_path_tracks put_dest_wf wf_sort_put_path wf_tableD)

lemma layer_update_pop:
  assumes "wf_layer n l t" "table_pop_delta t = (e, t')"
  shows "wf_layer n l t'"
  using assms table_pop_delta_wf [of t e t']
  by (auto simp: wf_layer_def own_free_def table_own_def table_pop_delta_def split: list.splits)

lemma synced_table_run [run_simps]:
  "wf_table t \<Longrightarrow> hops m \<noteq> [] \<Longrightarrow> table_apply_sync t c m s = Some (synced_table c m (Some s) t)"
  by (cases s) (simp add: synced_table_def table_own_def table_apply_sync_run del: table_apply_sync.simps)

subsection \<open>The whole router under the operations\<close>

lemma wf_routerD:
  assumes "wf_router r"
  shows "length (r_tables r) = 4" "l < 4 \<Longrightarrow> wf_layer (r_node r) l (r_tables r ! l)" "wf_registry (r_registry r)"
  using assms by (auto simp: wf_router_def)

lemma all_less_4: "(\<forall>l<4. P l) \<longleftrightarrow> P 0 \<and> P 1 \<and> P 2 \<and> P (3::nat)"
  by (auto dest!: less_4_cases)

lemma wf_layer_new: "l \<le> 3 \<Longrightarrow> wf_layer n (unat l) (table_new n l)"
  by (simp add: wf_layer_def own_free_def table_new_wf) (simp add: table_new_def)

lemma router_new_wf [wf_intros]: "wf_router (router_new n)"
  using wf_layer_new [of 0 n] wf_layer_new [of 1 n] wf_layer_new [of 2 n] wf_layer_new [of 3 n]
  by (simp add: wf_router_def router_new_def all_less_4 registry_new_wf)

text \<open>The operations in closed form, under the invariant.\<close>

lemma router_set_direct_run [run_simps]:
  assumes "wf_router r" "hops m \<noteq> []"
  shows "router_set_direct r c m =
    (case unat (eq_util_layer (r_node r) (last (hops m))) of
       0 \<Rightarrow> Some r
     | Suc l \<Rightarrow>
        (let i = layer_byte (last (hops m)) l; t = r_tables r ! l
         in Some (r\<lparr>r_tables := (r_tables r)[l := put_dest i (dest_set_path (t_dests t i) c m) t]\<rparr>)))"
proof (cases "unat (eq_util_layer (r_node r) (last (hops m)))")
  case 0
  then show ?thesis using assms(2) by (simp add: router_set_direct_def over_node_run)
next
  case (Suc l)
  then have "l < 4" by (rule eq_util_layer_Suc(1))
  with Suc show ?thesis
    using assms wf_routerD [OF assms(1)] wf_layerD [of "r_node r" l "r_tables r ! l"]
    by (simp add: router_set_direct_def over_node_run table_add_direct_run Let_def)
qed

lemma sync_tables_run:
  assumes "hops m \<noteq> []" "length ts = length rest" "\<forall>t\<in>set rest. wf_table t" "r_tables r = pre @ rest"
  shows "for_run (router_sync_table c m) (enumerate (length pre) ts) r =
    Some (r\<lparr>r_tables := pre @ map2 (synced_table c m) ts rest\<rparr>)"
  using assms(2-4)
proof (induction ts arbitrary: r pre rest)
  case Nil
  then show ?case by (cases r) simp
next
  case (Cons s ts)
  then obtain t rest' where rest: "rest = t # rest'" by (cases rest) auto
  let ?t = "synced_table c m s t"
  have step: "router_sync_table c m (length pre, s) r = Some (r\<lparr>r_tables := (pre @ [?t]) @ rest'\<rparr>)"
  proof (cases s)
    case None
    then show ?thesis using Cons.prems rest by (cases r) (simp add: router_sync_table_def synced_table_def)
  next
    case (Some x)
    then show ?thesis
      using Cons.prems rest assms(1)
      by (simp add: router_sync_table_def synced_table_run del: table_apply_sync.simps)
  qed
  show ?case
    using Cons.IH [of rest' "r\<lparr>r_tables := (pre @ [?t]) @ rest'\<rparr>" "pre @ [?t]"] Cons.prems rest step
    by simp
qed

lemma wf_router_tables: "wf_router r \<Longrightarrow> t \<in> set (r_tables r) \<Longrightarrow> wf_table t"
  by (auto simp: wf_router_def in_set_conv_nth dest: wf_layerD(1))

lemma router_apply_sync_run [run_simps]:
  assumes "wf_router r" "hops m \<noteq> []" "length ts = 4"
  shows "router_apply_sync r c m (RouterSync (RegistrySync es) ts) =
    Some (r\<lparr>r_tables := map2 (synced_table c m) ts (r_tables r),
            r_registry := registry_cells.map_cells (synced_rdest c (sync_cache m es)) (r_registry r)\<rparr>)"
  using assms wf_routerD [OF assms(1)]
    sync_tables_run [of m ts "r_tables r"
      "r\<lparr>r_registry := registry_cells.map_cells (synced_rdest c (sync_cache m es)) (r_registry r)\<rparr>" "[]" c]
  by (simp add: registry_apply_sync_run wf_router_tables del: registry_apply_sync.simps)

text \<open>What every update of a router keeps.\<close>

definition router_update :: "router \<Rightarrow> router \<Rightarrow> bool" where
  "router_update r r' \<longleftrightarrow>
     r_node r' = r_node r \<and> length (r_tables r') = 4 \<and>
     (\<forall>l<4. layer_update (r_node r) l (r_tables r ! l) (r_tables r' ! l)) \<and>
     wf_registry (r_registry r') \<and> registry_tracks (r_registry r) (r_registry r')"

lemma router_update_wf: "router_update r r' \<Longrightarrow> wf_router r'"
  by (auto simp: router_update_def wf_router_def layer_update_def)

lemma router_update_sync:
  assumes "wf_router r" "router_update r r'" "router_in_sync a r"
  shows "router_in_sync a r'"
proof -
  have len: "length (r_tables r) = 4" "length (r_tables r') = 4"
    using assms(1,2) by (auto simp: router_update_def wf_router_def)
  have reg: "registry_log.in_sync (fst a) (r_registry r')"
    by (rule registry_log.in_sync_step) (use assms(2,3) in \<open>auto simp: router_update_def router_in_sync_def\<close>)
  have "table_log.in_sync (snd a l) (r_tables r' ! l)" if "l < 4" for l
    by (rule table_log.in_sync_step [of _ "r_tables r ! l"])
       (use assms(2,3) that len in \<open>auto simp: router_update_def router_in_sync_def layer_update_def\<close>)
  with reg assms(3) len show ?thesis by (simp add: router_in_sync_def)
qed

lemma router_update_register: "wf_router r \<Longrightarrow> router_update r (router_register_service r s)"
  by (simp add: router_update_def router_register_service_def wf_routerD layer_update_refl
      registry_service_tracks registry_service_wf)

lemma router_update_set_direct:
  assumes "wf_router r" "hops m \<noteq> []" "router_set_direct r c m = Some r'"
  shows "router_update r r'"
proof (cases "unat (eq_util_layer (r_node r) (last (hops m)))")
  case 0
  then show ?thesis
    using assms by (simp add: router_set_direct_run router_update_def wf_routerD layer_update_refl tracks_refl)
next
  case (Suc l)
  have "l < 4" "layer_byte (last (hops m)) l \<noteq> layer_byte (r_node r) l"
    using eq_util_layer_Suc [OF Suc] by auto
  then show ?thesis
    using assms Suc layer_update_add [OF wf_routerD(2) [OF assms(1)], of l m c]
    by (auto simp: router_set_direct_run router_update_def wf_routerD layer_update_refl tracks_refl
        nth_list_update Let_def)
qed

lemma router_update_del_direct:
  assumes "wf_router r"
  shows "router_update r (router_del_direct r c)"
  using wf_routerD [OF assms] rdest_op_del [of c]
  by (simp add: router_update_def router_del_direct_def layer_update_del registry_del_direct_map
      registry_cells.map_cells_ok registry_cells.map_cells_step)

lemma router_update_apply_sync:
  assumes "wf_router r" "hops m \<noteq> []" "length ts = 4" "router_apply_sync r c m (RouterSync rs ts) = Some r'"
  shows "router_update r r'"
proof -
  obtain es where rs: "rs = RegistrySync es" by (cases rs)
  have ops: "registry_cells.cell_op (synced_rdest c (sync_cache m es) i)" for i
    using assms(2) by (intro synced_rdest_op) (auto dest: sync_cache_hops)
  show ?thesis
    using assms wf_routerD [OF assms(1)] registry_cells.map_cells_ok [OF ops] registry_cells.map_cells_step [OF ops]
    by (auto simp: router_apply_sync_run rs router_update_def layer_update_sync
        simp del: router_apply_sync.simps)
qed

subsection \<open>Draining the change log\<close>

lemma pop_tables_length: "pop_tables k ts = (e, ts') \<Longrightarrow> length ts' = length ts"
  by (induction ts arbitrary: k e ts') (auto split: prod.splits option.splits)

lemma pop_tables_None: "fst (pop_tables k ts) = None \<longleftrightarrow> (\<forall>t\<in>set ts. t_deltas t = [])"
proof (induction ts arbitrary: k)
  case (Cons t ts)
  then show ?case
    by (cases "t_deltas t") (auto simp: table_pop_delta_def case_prod_beta)
qed simp

lemma pop_tables_at:
  assumes "pop_tables k ts = (e, ts')"
  shows "case e of
      None \<Rightarrow> ts' = ts
    | Some e' \<Rightarrow> \<exists>l d. l < length ts \<and> e' = DeltaTable (word_of_nat (k + l)) d \<and>
        table_pop_delta (ts ! l) = (Some d, ts' ! l) \<and> (\<forall>j<length ts. j \<noteq> l \<longrightarrow> ts' ! j = ts ! j)"
  using assms
proof (induction ts arbitrary: k e ts')
  case (Cons t ts)
  show ?case
  proof (cases "t_deltas t")
    case Nil
    then have t: "table_pop_delta t = (None, t)" by (simp add: table_pop_delta_def)
    obtain e'' ts'' where rec: "pop_tables (Suc k) ts = (e'', ts'')" by fastforce
    have *: "e = e''" "ts' = t # ts''" using Cons.prems t rec by auto
    show ?thesis
    proof (cases e'')
      case None
      then show ?thesis using * Cons.IH [OF rec] by simp
    next
      case (Some x)
      then obtain l d where "l < length ts" "x = DeltaTable (word_of_nat (Suc k + l)) d"
          "table_pop_delta (ts ! l) = (Some d, ts'' ! l)" "\<forall>j<length ts. j \<noteq> l \<longrightarrow> ts'' ! j = ts ! j"
        using Cons.IH [OF rec] by auto
      then show ?thesis
        using * Some by (auto intro!: exI [of _ "Suc l"] exI [of _ d] simp: nth_Cons split: nat.splits)
    qed
  next
    case (Cons d ds)
    then have "table_pop_delta t = (Some d, t\<lparr>t_deltas := ds\<rparr>)" by (simp add: table_pop_delta_def)
    then show ?thesis
      using Cons.prems by (auto intro!: exI [of _ 0] simp: nth_Cons split: nat.splits)
  qed
qed simp

lemma router_pop_cases:
  assumes "wf_router r" "router_pop_delta r = (e, r')"
  obtains (none) "e = None" "r' = r" "rg_deltas (r_registry r) = []" "\<And>l. l < 4 \<Longrightarrow> t_deltas (r_tables r ! l) = []"
  | (registry) d where "e = Some (DeltaRegistry d)" "registry_pop_delta (r_registry r) = (Some d, r_registry r')"
      "r_tables r' = r_tables r" "r_node r' = r_node r"
  | (table) l d where "l < 4" "e = Some (DeltaTable (word_of_nat l) d)"
      "table_pop_delta (r_tables r ! l) = (Some d, r_tables r' ! l)" "length (r_tables r') = 4"
      "\<And>j. j < 4 \<Longrightarrow> j \<noteq> l \<Longrightarrow> r_tables r' ! j = r_tables r ! j"
      "r_registry r' = r_registry r" "r_node r' = r_node r"
proof (cases "rg_deltas (r_registry r)")
  case (Cons d ds)
  then show ?thesis using assms(2) registry by (auto simp: router_pop_delta_def registry_pop_delta_def)
next
  case Nil
  obtain e' ts' where pop: "pop_tables 0 (r_tables r) = (e', ts')" by fastforce
  have eqs: "e = e'" "r' = r\<lparr>r_tables := ts'\<rparr>"
    using assms(2) Nil pop by (auto simp: router_pop_delta_def registry_pop_delta_def)
  note at = pop_tables_at [OF pop] and len = pop_tables_length [OF pop] wf_routerD(1) [OF assms(1)]
  show ?thesis
  proof (cases e')
    case None
    then have "\<forall>t\<in>set (r_tables r). t_deltas t = []" using pop pop_tables_None [of 0 "r_tables r"] by simp
    with None show ?thesis using none eqs at len Nil by simp
  next
    case (Some x)
    with at len obtain l d where "l < 4" "x = DeltaTable (word_of_nat l) d"
        "table_pop_delta (r_tables r ! l) = (Some d, ts' ! l)" "\<forall>j<4. j \<noteq> l \<longrightarrow> ts' ! j = r_tables r ! j"
      by auto
    with Some show ?thesis using table eqs len by simp
  qed
qed

lemma router_pop_wf:
  assumes "wf_router r" "router_pop_delta r = (e, r')"
  shows "wf_router r' \<and> r_node r' = r_node r"
  using assms
proof (cases rule: router_pop_cases)
  case (registry d)
  then show ?thesis using assms(1) registry_pop_delta_wf [of "r_registry r"] by (auto simp: wf_router_def)
next
  case (table l d)
  have "wf_layer (r_node r) j (r_tables r' ! j)" if "j < 4" for j
    using table layer_update_pop [OF wf_routerD(2) [OF assms(1) table(1)] table(3)]
      wf_routerD(2) [OF assms(1) that] that by (cases "j = l") auto
  with table show ?thesis using assms(1) by (simp add: wf_router_def)
qed (use assms(1) in simp)

lemma unat_small: "l < 4 \<Longrightarrow> unat (word_of_nat l :: u8) = l"
  by (simp add: unat_of_nat take_bit_nat_eq_self)

lemma router_pop_sync:
  assumes "wf_router r" "router_in_sync a r" "router_pop_delta r = (Some e, r')"
  shows "router_in_sync (replay_router a e) r'"
  using assms(1,3)
proof (cases rule: router_pop_cases)
  case (registry d)
  then show ?thesis
    using assms(2) registry_log.in_sync_pop [of "fst a" "r_registry r" d "r_registry r'"]
    by (cases a) (auto simp: router_in_sync_def)
next
  case (table l d)
  have len: "length (r_tables r) = 4" using assms(1) by (rule wf_routerD)
  have "table_log.in_sync (replay_table (snd a l) d) (r_tables r' ! l)"
    using table len assms(2) by (intro table_log.in_sync_pop [OF _ table(3)]) (auto simp: router_in_sync_def)
  then show ?thesis
    using table len assms(2) unat_small [OF table(1)]
    by (cases a) (auto simp: router_in_sync_def)
qed simp

lemma router_pop_drained:
  assumes "wf_router r" "router_in_sync a r" "router_pop_delta r = (None, r')"
  shows "a = router_view r"
  using assms(1,3)
proof (cases rule: router_pop_cases)
  case none
  have len: "length (r_tables r) = 4" using assms(1) by (rule wf_routerD)
  have "fst a = registry_view (r_registry r)" "\<And>l. l < 4 \<Longrightarrow> snd a l = table_view (r_tables r ! l)"
    using none assms(2) len by (auto simp: router_in_sync_def registry_log.in_sync_def table_log.in_sync_def)
  moreover have "snd a l = (\<lambda>_. None)" if "\<not> l < 4" for l
    using assms(2) len that by (simp add: router_in_sync_def)
  ultimately show ?thesis using len by (cases a) (auto simp: router_view_def)
qed simp_all

subsection \<open>Reachable routers\<close>

inductive_cases router_stepE: "router_step r r'"

lemma router_op_update:
  assumes "wf_router r" "router_op r r'"
  shows "router_update r r'"
  using assms(2)
proof cases
  case (op_register s)
  then show ?thesis using assms(1) router_update_register by simp
next
  case (op_set_direct m c)
  then show ?thesis using assms(1) router_update_set_direct by blast
next
  case (op_del_direct c)
  then show ?thesis using assms(1) router_update_del_direct by simp
next
  case (op_apply_sync m ts c rs)
  then show ?thesis using assms(1) router_update_apply_sync by blast
qed

lemma router_step_update:
  assumes "wf_router r" "router_step r r'"
  shows "wf_router r' \<and> r_node r' = r_node r"
  using assms(2)
proof (rule router_stepE)
  assume "router_op r r'"
  then have "router_update r r'" by (rule router_op_update [OF assms(1)])
  then show ?thesis using router_update_wf [of r r'] by (simp add: router_update_def)
qed (use assms(1) router_pop_wf in blast)

lemma router_reachable_wf: "router_reachable n r \<Longrightarrow> wf_router r \<and> r_node r = n"
proof (induction rule: router_reachable.induct)
  case reach_new
  show ?case by (simp add: router_new_wf) (simp add: router_new_def)
next
  case (reach_step r r')
  then show ?case using router_step_update by metis
qed

subsection \<open>Queries\<close>

text \<open>The paths a router holds for a byte of a layer.\<close>

abbreviation slot_paths :: "router \<Rightarrow> nat \<Rightarrow> u8 \<Rightarrow> path list" where
  "slot_paths r l i \<equiv> d_paths (t_dests (r_tables r ! l) i)"

abbreviation service_paths :: "router \<Rightarrow> u8 \<Rightarrow> path list" where
  "service_paths r s \<equiv> rd_paths (rg_remote (r_registry r) s)"

text \<open>The first path, in rank order, whose neighbour the caller allows.\<close>

definition allowed_path :: "path list \<Rightarrow> node_id list \<Rightarrow> path option" where
  "allowed_path ps ex = find (\<lambda>p. last (hops (path_metric p)) \<notin> set ex) ps"

abbreviation via :: "path \<Rightarrow> conn_id \<times> node_id" where
  "via p \<equiv> (path_conn p, last (hops (path_metric p)))"

lemma slot_paths_wf: "wf_router r \<Longrightarrow> l < 4 \<Longrightarrow> wf_paths (slot_paths r l i)"
  by (meson wf_layerD(1) wf_routerD(2) wf_tableD(2))

lemma service_paths_wf: "wf_router r \<Longrightarrow> wf_paths (service_paths r s)"
  by (simp add: wf_routerD wf_registryD)

lemma dest_next_run [run_simps]:
  "wf_paths (d_paths d) \<Longrightarrow> dest_next d ex = Some (map_option via (allowed_path (d_paths d) ex))"
  by (simp add: dest_next_def next_of_run allowed_path_def)

lemma router_next_run [run_simps]:
  assumes "wf_router r"
  shows "router_next r dst ex = Some
    (case unat (eq_util_layer (r_node r) dst) of
       0 \<Rightarrow> None
     | Suc l \<Rightarrow> map_option via (allowed_path (slot_paths r l (layer_byte dst l)) ex))"
    "router_next_path r dst ex = Some
    (case unat (eq_util_layer (r_node r) dst) of
       0 \<Rightarrow> None
     | Suc l \<Rightarrow> allowed_path (slot_paths r l (layer_byte dst l)) ex)"
proof -
  have "l < 4 \<and> t_layer (r_tables r ! l) \<le> 3 \<and> unat (t_layer (r_tables r ! l)) = l"
    if "unat (eq_util_layer (r_node r) dst) = Suc l" for l
    using wf_layerD [OF wf_routerD(2) [OF assms]] wf_tableD(1) eq_util_layer_Suc(1) [OF that] by blast
  then show "router_next r dst ex = Some
    (case unat (eq_util_layer (r_node r) dst) of
       0 \<Rightarrow> None
     | Suc l \<Rightarrow> map_option via (allowed_path (slot_paths r l (layer_byte dst l)) ex))"
    "router_next_path r dst ex = Some
    (case unat (eq_util_layer (r_node r) dst) of
       0 \<Rightarrow> None
     | Suc l \<Rightarrow> allowed_path (slot_paths r l (layer_byte dst l)) ex)"
    using wf_routerD(1) [OF assms] slot_paths_wf [OF assms]
    by (auto simp: router_next_def router_next_path_def table_next_def table_next_path_def layer_run
        dest_next_run dest_next_path_def next_path_of_run allowed_path_def Let_def split: nat.splits)
qed

lemma router_service_next_run [run_simps]:
  "wf_router r \<Longrightarrow> router_service_next r s ex = Some
    (if rg_local (r_registry r) s then Some ServiceLocal
     else map_option (\<lambda>p. ServiceRemoteDest (path_conn p) (last (hops (path_metric p))))
       (allowed_path (service_paths r s) ex))"
  using service_paths_wf [of r s]
  by (simp add: router_service_next_def registry_next_def rdest_next_def next_of_run allowed_path_def
      option.map_comp comp_def)

lemma allowed_path_None: "allowed_path ps ex = None \<longleftrightarrow> (\<forall>p\<in>set ps. last (hops (path_metric p)) \<in> set ex)"
  by (auto simp: allowed_path_def find_None_iff)

lemma allowed_path_Some:
  assumes "wf_paths ps" "allowed_path ps ex = Some p"
  shows "p \<in> set ps" "last (hops (path_metric p)) \<notin> set ex"
    "\<And>q. q \<in> set ps \<Longrightarrow> last (hops (path_metric q)) \<notin> set ex \<Longrightarrow> path_score p \<le> path_score q"
  using assms find_ranked [of path_score ps _ p] by (auto simp: allowed_path_def wf_paths_def)

text \<open>The XOR distance, at one layer, of the router's own byte from a key.\<close>

definition own_distance :: "router \<Rightarrow> node_id \<Rightarrow> nat \<Rightarrow> u8" where
  "own_distance r key l = layer_byte key l XOR layer_byte (r_node r) l"

text \<open>No usable slot of layer \<open>l\<close> is strictly closer to the key than the router itself.\<close>

definition layer_settled :: "router \<Rightarrow> node_id \<Rightarrow> node_id list \<Rightarrow> nat \<Rightarrow> bool" where
  "layer_settled r key ex l \<longleftrightarrow>
     (\<forall>s. allowed_path (slot_paths r l s) ex \<noteq> None \<longrightarrow> own_distance r key l \<le> s XOR layer_byte key l)"

text \<open>The answer names the best path of the closest usable slot of its layer, which is strictly closer
  than the router.\<close>

definition layer_closer :: "router \<Rightarrow> node_id \<Rightarrow> node_id list \<Rightarrow> nat \<Rightarrow> u8 \<Rightarrow> conn_id \<times> node_id \<Rightarrow> bool" where
  "layer_closer r key ex l s v \<longleftrightarrow>
     map_option via (allowed_path (slot_paths r l s) ex) = Some v \<and>
     s XOR layer_byte key l < own_distance r key l \<and>
     (\<forall>s'. allowed_path (slot_paths r l s') ex \<noteq> None \<longrightarrow> s XOR layer_byte key l \<le> s' XOR layer_byte key l)"

lemma closest_layers_spec:
  assumes "wf_router r" "\<forall>l\<in>set ls. l \<le> 3"
  shows "\<exists>res. closest_layers r key ex ls = Some res \<and>
    (case res of
       None \<Rightarrow> \<forall>l\<in>set ls. layer_settled r key ex (unat l)
     | Some (c, n, l, s) \<Rightarrow> l \<in> set ls \<and> layer_closer r key ex (unat l) s (c, n) \<and>
         (\<forall>l'\<in>set (takeWhile (\<lambda>x. x \<noteq> l) ls). layer_settled r key ex (unat l')))"
  using assms(2)
proof (induction ls)
  case (Cons l ls)
  let ?l = "unat l" and ?k = "layer_byte key (unat l)"
  have l: "?l < 4" using Cons.prems by (simp add: word_le_nat_alt)
  note wt = wf_layerD(1) [OF wf_routerD(2) [OF assms(1) l]]
  have nx: "dest_next (t_dests (r_tables r ! ?l) s) ex = Some (map_option via (allowed_path (slot_paths r ?l s) ex))" for s
    using slot_paths_wf [OF assms(1) l] by (simp add: dest_next_run)
  obtain f where f: "table_closest_for (r_tables r ! ?l) ?k ex = Some f" and raw: "case f of
       None \<Rightarrow> \<forall>s. dest_next (t_dests (r_tables r ! ?l) s) ex = Some None
     | Some (s, c, n) \<Rightarrow> dest_next (t_dests (r_tables r ! ?l) s) ex = Some (Some (c, n)) \<and>
         (\<forall>s'. dest_next (t_dests (r_tables r ! ?l) s') ex \<noteq> Some None \<longrightarrow> s XOR ?k \<le> s' XOR ?k)"
    using table_closest_for_spec [OF wt, of ?k ex] by blast
  have spec: "case f of
       None \<Rightarrow> \<forall>s. allowed_path (slot_paths r ?l s) ex = None
     | Some (s, c, n) \<Rightarrow> map_option via (allowed_path (slot_paths r ?l s) ex) = Some (c, n) \<and>
         (\<forall>s'. allowed_path (slot_paths r ?l s') ex \<noteq> None \<longrightarrow> s XOR ?k \<le> s' XOR ?k)"
    using raw by (cases f) (auto simp: nx)
  have unf: "closest_layers r key ex (l # ls) = (case f of
      Some (s, c, n) \<Rightarrow> if s XOR ?k < own_distance r key ?l then Some (Some (c, n, l, s)) else closest_layers r key ex ls
    | None \<Rightarrow> closest_layers r key ex ls)"
    using Cons.prems f l wf_routerD(1) [OF assms(1)]
    by (auto simp: layer_run own_distance_def split: option.splits)
  show ?case
  proof (cases "\<exists>s c n. f = Some (s, c, n) \<and> s XOR ?k < own_distance r key ?l")
    case True
    then show ?thesis using spec unf by (auto simp: layer_closer_def)
  next
    case False
    then have "layer_settled r key ex ?l"
      using spec by (cases f) (force simp: layer_settled_def)+
    moreover have "closest_layers r key ex (l # ls) = closest_layers r key ex ls"
      using False unf by (auto split: option.splits)
    moreover obtain res where "closest_layers r key ex ls = Some res" "case res of
         None \<Rightarrow> \<forall>l\<in>set ls. layer_settled r key ex (unat l)
       | Some (c, n, l, s) \<Rightarrow> l \<in> set ls \<and> layer_closer r key ex (unat l) s (c, n) \<and>
           (\<forall>l'\<in>set (takeWhile (\<lambda>x. x \<noteq> l) ls). layer_settled r key ex (unat l'))"
      using Cons by auto
    ultimately show ?thesis by (auto split: option.splits)
  qed
qed simp

lemma closest_node_run:
  assumes "wf_router r"
  shows "\<exists>res. router_closest_node r key ex = Some res \<and>
    (case res of
       None \<Rightarrow> \<forall>l<4. layer_settled r key ex l
     | Some (c, n, l, s) \<Rightarrow> l \<le> 3 \<and> layer_closer r key ex (unat l) s (c, n) \<and>
         (\<forall>l'<4. unat l < l' \<longrightarrow> layer_settled r key ex l'))"
proof -
  have "\<forall>l\<in>set [3, 2, 1, 0 :: u8]. l \<le> 3" by simp
  from closest_layers_spec [OF assms this, of key ex, folded router_closest_node_def]
  obtain res where "router_closest_node r key ex = Some res \<and> (case res of
       None \<Rightarrow> \<forall>l\<in>set [3, 2, 1, 0 :: u8]. layer_settled r key ex (unat l)
     | Some (c, n, l, s) \<Rightarrow> l \<in> set [3, 2, 1, 0] \<and> layer_closer r key ex (unat l) s (c, n) \<and>
         (\<forall>l'\<in>set (takeWhile (\<lambda>x. x \<noteq> l) [3, 2, 1, 0]). layer_settled r key ex (unat l')))"
    by blast
  note res = conjunct1 [OF this] and spec = conjunct2 [OF this]
  show ?thesis
  proof (cases res)
    case None
    then show ?thesis using res spec by (simp add: all_less_4)
  next
    case (Some x)
    obtain c n l s where x: "x = (c, n, l, s)" by (cases x)
    then have "l = 3 \<or> l = 2 \<or> l = 1 \<or> l = 0" using spec Some by simp
    then have "l \<le> 3 \<and> layer_closer r key ex (unat l) s (c, n) \<and>
        (\<forall>l'<4. unat l < l' \<longrightarrow> layer_settled r key ex l')"
      using spec Some x by (elim disjE) (simp_all add: all_less_4)
    with res Some x show ?thesis by simp
  qed
qed

subsection \<open>Synchronisation messages\<close>

lemma table_sync_for_run [run_simps]:
  assumes "wf_layer n l t"
  shows "table_sync_for t node = Some
    (if unat (eq_util_layer n node) > l + 1 then None
     else Some (TableSync (List.map_filter (\<lambda>i. if i = layer_byte n l then None
       else map_option (\<lambda>p. (i, path_metric p)) (best_for_of (d_paths (t_dests t i)) node)) all_u8)))"
proof -
  note d = wf_layerD [OF assms]
  have entry: "table_sync_entry t node i = Some (if i = layer_byte n l then None
       else map_option (\<lambda>p. (i, path_metric p)) (best_for_of (d_paths (t_dests t i)) node))" for i
    using d wf_tableD(1) [OF d(1)]
    by (auto simp: table_sync_entry_def dest_is_empty_def dest_best_for_def layer_run)
  have comp: "List.map_filter id (map g xs) = List.map_filter g xs" for g :: "u8 \<Rightarrow> (u8 \<times> metric) option" and xs
    by (induction xs) (auto simp: List.map_filter_simps split: option.splits)
  have "map_run (table_sync_entry t node) all_u8 = Some (map (\<lambda>i. if i = layer_byte n l then None
       else map_option (\<lambda>p. (i, path_metric p)) (best_for_of (d_paths (t_dests t i)) node)) all_u8)"
    by (rule map_run_total) (simp add: entry)
  then show ?thesis
    using d by (simp add: table_sync_for_def comp)
qed

lemma router_create_sync_run:
  assumes "wf_router r"
  shows "\<exists>ts. router_create_sync r node = Some (RouterSync (registry_sync_for (r_registry r) node) ts) \<and>
    length ts = 4 \<and> (\<forall>l<4. table_sync_for (r_tables r ! l) node = Some (ts ! l))"
proof -
  let ?g = "\<lambda>i. the (table_sync_for (r_tables r ! i) node)"
  have g: "table_sync_for (r_tables r ! l) node = Some (?g l)" if "l < 4" for l
    using table_sync_for_run [OF wf_routerD(2) [OF assms that], of node] by simp
  then have "map_run (\<lambda>i. do { t \<leftarrow> index_run (r_tables r) i; table_sync_for t node }) [0, 1, 2, 3]
      = Some (map ?g [0, 1, 2, 3])"
    using wf_routerD(1) [OF assms] by (intro map_run_total) auto
  then show ?thesis
    using g by (auto simp: router_create_sync_def all_less_4)
qed

text \<open>Where an announced entry comes from: a held path that does not go through the receiver.\<close>

lemma table_sync_origin:
  assumes "wf_layer n l t" "table_sync_for t node = Some (Some (TableSync es))" "(i, m) \<in> set es"
  shows "i \<noteq> layer_byte n l" "unat (eq_util_layer n node) \<le> l + 1"
    "\<exists>p\<in>set (d_paths (t_dests t i)). path_metric p = m \<and> node \<notin> set (hops m)"
  using assms table_sync_for_run [OF assms(1), of node]
  by (auto simp: in_set_map_filter best_for_of_find split: if_splits dest!: find_SomeD)

lemma registry_sync_origin:
  assumes "registry_sync_for g node = RegistrySync es" "(i, m) \<in> set es"
  shows "hops m = [] \<or> (\<exists>p\<in>set (rd_paths (rg_remote g i)). path_metric p = m \<and> node \<notin> set (hops m))"
  using assms
  by (auto simp: registry_sync_for_def registry_sync_entry_def rdest_best_for_def rdest_is_empty_def
      in_set_map_filter best_for_of_find split: if_splits dest!: find_SomeD)

lemma sync_cache_origin:
  assumes "sync_cache m es i = Some m'"
  shows "\<exists>s. (i, s) \<in> set es \<and> m' = metric_add s m"
proof -
  have "\<forall>i m'. sync_cache m es i = Some m' \<longrightarrow> (\<exists>s. (i, s) \<in> set es \<and> m' = metric_add s m)"
    unfolding sync_cache_def
    by (rule fold_invariant_set [where P = "\<lambda>c. \<forall>i m'. c i = Some m' \<longrightarrow> (\<exists>s. (i, s) \<in> set es \<and> m' = metric_add s m)"])
       (auto split: if_splits)
  with assms show ?thesis by blast
qed

lemma sync_cache_None: "sync_cache m es i = None \<longleftrightarrow> i \<notin> fst ` set es"
proof -
  have "fold (\<lambda>(i, s) cached. cached(i \<mapsto> metric_add s m)) es c i = None \<longleftrightarrow> i \<notin> fst ` set es \<and> c i = None" for c
    by (induction es arbitrary: c) (auto split: if_splits)
  then show ?thesis by (simp add: sync_cache_def)
qed

subsection \<open>Where the paths of an updated router come from\<close>

lemma set_sort_put:
  "wf_paths ps \<Longrightarrow> p \<in> set (sort_paths (put_path ps c m)) \<Longrightarrow> p \<in> set ps \<or> path_metric p = m \<and> path_key p = conn_key c"
  using set_put_path [of ps p c m] by (auto simp: wf_paths_def)

lemma set_direct_origin:
  assumes "wf_router r" "hops m \<noteq> []" "router_set_direct r c m = Some r'" "l < 4" "p \<in> set (slot_paths r' l i)"
  shows "p \<in> set (slot_paths r l i) \<or> path_metric p = m \<and> path_key p = conn_key c \<and>
    unat (eq_util_layer (r_node r) (last (hops m))) = Suc l \<and> i = layer_byte (last (hops m)) l"
proof (cases "unat (eq_util_layer (r_node r) (last (hops m)))")
  case 0
  then show ?thesis using assms by (simp add: router_set_direct_run)
next
  case (Suc k)
  let ?i = "layer_byte (last (hops m)) k" and ?t = "r_tables r ! k"
  have r': "r_tables r' = (r_tables r)[k := put_dest ?i (dest_set_path (t_dests ?t ?i) c m) ?t]"
    using assms Suc by (auto simp: router_set_direct_run Let_def)
  show ?thesis
  proof (cases "l = k \<and> i = ?i")
    case True
    then show ?thesis
      using assms(4,5) Suc r' wf_routerD(1) [OF assms(1)] slot_paths_wf [OF assms(1,4), of i]
        set_sort_put [of "slot_paths r l i" p c m] by auto
  next
    case False
    then have "slot_paths r' l i = slot_paths r l i"
      using r' assms(4) wf_routerD(1) [OF assms(1)] by (cases "l = k") auto
    then show ?thesis using assms(5) by simp
  qed
qed

lemma set_direct_services: "wf_router r \<Longrightarrow> hops m \<noteq> [] \<Longrightarrow> router_set_direct r c m = Some r' \<Longrightarrow>
    service_paths r' s = service_paths r s"
  by (auto simp: router_set_direct_run Let_def split: nat.splits)

lemma del_direct_slots:
  assumes "wf_router r" "l < 4"
  shows "slot_paths (router_del_direct r c) l i = filter (\<lambda>p. path_key p \<noteq> conn_key c) (slot_paths r l i)"
  using assms wf_layerD(1) [OF wf_routerD(2) [OF assms]] wf_routerD(1) [OF assms(1)] slot_paths_wf [OF assms]
  by (simp add: router_del_direct_def table_del_direct_map table_cells.get_map_cells)

lemma del_direct_services:
  assumes "wf_router r"
  shows "service_paths (router_del_direct r c) s = filter (\<lambda>p. path_key p \<noteq> conn_key c) (service_paths r s)"
  using service_paths_wf [OF assms]
  by (simp add: router_del_direct_def registry_del_direct_map registry_cells.get_map_cells)

lemma registry_pop_remote: "registry_pop_delta g = (e, g') \<Longrightarrow> rg_remote g' = rg_remote g"
  by (auto simp: registry_pop_delta_def split: list.splits)

lemma table_pop_dests: "table_pop_delta t = (e, t') \<Longrightarrow> t_dests t' = t_dests t"
  by (auto simp: table_pop_delta_def split: list.splits)

lemma pop_paths:
  assumes "wf_router r" "router_pop_delta r = (e, r')"
  shows "l < 4 \<Longrightarrow> slot_paths r' l i = slot_paths r l i" "service_paths r' s = service_paths r s"
proof -
  have "(l < 4 \<longrightarrow> slot_paths r' l i = slot_paths r l i) \<and> service_paths r' s = service_paths r s"
    using assms
  proof (cases rule: router_pop_cases)
    case (registry d)
    then have "rg_remote (r_registry r') = rg_remote (r_registry r)" by (simp add: registry_pop_remote)
    then show ?thesis using registry by simp
  next
    case (table k d)
    then have "t_dests (r_tables r' ! j) = t_dests (r_tables r ! j)" if "j < 4" for j
      using that table_pop_dests [OF table(3)] by (cases "j = k") auto
    then show ?thesis using table by simp
  qed simp
  then show "l < 4 \<Longrightarrow> slot_paths r' l i = slot_paths r l i" "service_paths r' s = service_paths r s" by auto
qed

text \<open>The paths of a slot after a synchronisation: those of other connections stay, and this connection's
  path becomes the announced one, if any.\<close>

lemma apply_sync_slots:
  assumes "wf_router r" "hops m \<noteq> []" "length ts = 4" "router_apply_sync r c m (RouterSync rs ts) = Some r'" "l < 4"
  shows "slot_paths r' l i =
    (case ts ! l of
       None \<Rightarrow> slot_paths r l i
     | Some (TableSync es) \<Rightarrow>
         if i = layer_byte (r_node r) l then slot_paths r l i
         else case sync_cache m es i of
             Some m' \<Rightarrow> sort_paths (put_path (slot_paths r l i) c m')
           | None \<Rightarrow> if i = layer_byte (last (hops m)) l then slot_paths r l i
                     else filter (\<lambda>p. path_key p \<noteq> conn_key c) (slot_paths r l i))"
proof -
  obtain es where rs: "rs = RegistrySync es" by (cases rs)
  show ?thesis
    using assms wf_routerD(1) [OF assms(1)] wf_layerD [OF wf_routerD(2) [OF assms(1,5)]] slot_paths_wf [OF assms(1,5)]
    by (auto simp: rs router_apply_sync_run synced_table_def table_own_def table_cells.get_map_cells synced_dest_def
        simp del: router_apply_sync.simps split: option.splits table_sync.splits)
qed

lemma apply_sync_services:
  assumes "wf_router r" "hops m \<noteq> []" "length ts = 4" "router_apply_sync r c m (RouterSync (RegistrySync es) ts) = Some r'"
  shows "service_paths r' s =
    (case sync_cache m es s of
       Some m' \<Rightarrow> sort_paths (put_path (service_paths r s) c m')
     | None \<Rightarrow> filter (\<lambda>p. path_key p \<noteq> conn_key c) (service_paths r s))"
  using assms service_paths_wf [OF assms(1)] sync_cache_hops [OF assms(2)]
  by (auto simp: router_apply_sync_run registry_cells.get_map_cells synced_rdest_def rd_paths_set_rdest
      simp del: router_apply_sync.simps split: option.splits)

subsection \<open>Properties\<close>

lemma dump_run:
  "wf_paths (d_paths d) \<Longrightarrow> \<exists>x. dest_dump d = Some x" "wf_paths (rd_paths g) \<Longrightarrow> \<exists>x. rdest_dump g = Some x"
proof -
  have kvs: "map_run (\<lambda>p. do { n \<leftarrow> over_node (path_metric p); Some (n, path_metric p) }) ps =
      Some (map (\<lambda>p. (last (hops (path_metric p)), path_metric p)) ps)" if "wf_paths ps" for ps
    using that by (intro map_run_total) (auto simp: over_node_run wf_paths_hops)
  show "\<exists>x. dest_dump d = Some x" if "wf_paths (d_paths d)" using kvs [OF that] by (simp add: dest_dump_def)
  show "\<exists>x. rdest_dump g = Some x" if "wf_paths (rd_paths g)"
    using kvs [OF that] that by (simp add: rdest_dump_def rdest_next_def next_of_run)
qed

lemma table_dump_run: "wf_table t \<Longrightarrow> \<exists>x. table_dump t = Some x"
  unfolding table_dump_def by (intro bind_total map_run_Some dump_run wf_tableD) simp_all

lemma registry_dump_run: "wf_registry g \<Longrightarrow> \<exists>x. registry_dump g = Some x"
  unfolding registry_dump_def by (intro bind_total map_run_Some dump_run wf_registryD) simp_all

lemma router_dump_run: "wf_router r \<Longrightarrow> \<exists>x. router_dump r = Some x"
  unfolding router_dump_def
  by (intro bind_total map_run_Some registry_dump_run table_dump_run wf_routerD)
     (auto dest: wf_routerD(1) simp: index_run_def wf_router_tables split: if_splits)

lemma router_size_run: "wf_router r \<Longrightarrow> router_size r = Some (sum_list (map table_size (r_tables r)))"
proof -
  assume wf: "wf_router r"
  then obtain a b c d where ts: "r_tables r = [a, b, c, d]"
    using wf_routerD(1) [of r] by (auto simp: length_Suc_conv numeral_eq_Suc)
  have upt: "[0..<4] = [0, 1, 2, 3::nat]" by (simp add: upt_rec)
  show ?thesis by (simp add: router_size_def ts upt index_run_def numeral_2_eq_2 numeral_3_eq_3)
qed

text \<open>
  C1. No operation of the control-plane router panics. Starting from \<^verbatim>\<open>Router::new\<close> and after any sequence
  of registrations, direct-connection updates, removals, synchronisations and drained deltas, every query
  returns, and every update returns whenever its metric names at least one hop (and the message carries the
  four layer entries its type has); none of the \<^verbatim>\<open>expect\<close>, \<^verbatim>\<open>assert!\<close> and array accesses fails. The \<^verbatim>\<open>debug_assert!\<close> of
  \<^verbatim>\<open>set_direct\<close>, which only a debug build checks, holds as well when the metric is over another node than the own one; a metric
  over the own node changes nothing in a release build.
\<close>

theorem router_never_panics:
  assumes "router_reachable n r"
  shows "(\<exists>x. router_next r dst ex = Some x) \<and> (\<exists>x. router_next_path r dst ex = Some x) \<and>
    (\<exists>x. router_service_next r s ex = Some x) \<and> (\<exists>x. router_closest_node r key ex = Some x) \<and>
    (\<exists>x. router_create_sync r peer = Some x) \<and> (\<exists>x. router_dump r = Some x) \<and> (\<exists>x. router_size r = Some x) \<and>
    (hops m \<noteq> [] \<longrightarrow> (\<exists>x. router_set_direct r c m = Some x)) \<and>
    (hops m \<noteq> [] \<and> last (hops m) \<noteq> n \<longrightarrow> 0 < eq_util_layer (r_node r) (last (hops m))) \<and>
    (hops m \<noteq> [] \<and> last (hops m) = n \<longrightarrow> router_set_direct r c m = Some r) \<and>
    (hops m \<noteq> [] \<and> length ts = 4 \<longrightarrow> (\<exists>x. router_apply_sync r c m (RouterSync rs ts) = Some x))"
proof -
  have wf: "wf_router r" and node: "r_node r = n" using assms router_reachable_wf by blast+
  obtain es where rs: "rs = RegistrySync es" by (cases rs)
  have "\<exists>x. router_closest_node r key ex = Some x"
    using closest_node_run [OF wf] by blast
  moreover have "hops m \<noteq> [] \<longrightarrow> (\<exists>x. router_set_direct r c m = Some x)"
    using router_set_direct_run [OF wf, of m c]
    by (cases "unat (eq_util_layer (r_node r) (last (hops m)))") (auto simp: Let_def)
  moreover have "last (hops m) \<noteq> n \<longrightarrow> 0 < eq_util_layer (r_node r) (last (hops m))"
    using eq_util_layer_0_iff [of n "last (hops m)"] by (auto simp: node word_gt_0)
  moreover have "hops m \<noteq> [] \<and> last (hops m) = n \<longrightarrow> router_set_direct r c m = Some r"
    using router_set_direct_run [OF wf, of m c] eq_util_layer_0_iff [of n n] by (simp add: node)
  moreover have "hops m \<noteq> [] \<and> length ts = 4 \<longrightarrow> (\<exists>x. router_apply_sync r c m (RouterSync rs ts) = Some x)"
    using router_apply_sync_run [OF wf, of m ts c es] unfolding rs by blast
  moreover have "\<exists>x. router_create_sync r peer = Some x" using router_create_sync_run [OF wf] by blast
  ultimately show ?thesis
    using router_dump_run [OF wf] router_size_run [OF wf] router_next_run [OF wf] router_service_next_run [OF wf]
    by (simp del: router_apply_sync.simps)
qed

lemma router_never_panics_witness:
  "\<exists>r. router_set_direct (router_register_service (router_new 7) 3) (from_out 0 1) (metric_new 1 [9] 1) = Some r \<and> router_reachable 7 r \<and>
    (\<exists>x. router_closest_node r 9 [] = Some x) \<and> (\<exists>x. router_set_direct r (from_in 0 2) (metric_new 5 [8] 1) = Some x) \<and>
    (\<exists>x. router_apply_sync r (from_out 0 1) (metric_new 1 [9] 1)
       (RouterSync (RegistrySync []) [None, None, None, Some (TableSync [(8, metric_new 1 [8, 9] 1)])]) = Some x)"
proof -
  have r0: "router_reachable 7 (router_register_service (router_new 7) 3)"
    by (rule reach_step [OF reach_new step_op]) (rule op_register)
  obtain r where r: "router_set_direct (router_register_service (router_new 7) 3) (from_out 0 1) (metric_new 1 [9] 1) = Some r"
    using router_never_panics [OF r0, where m = "metric_new 1 [9] 1" and c = "from_out 0 1"] by (metis metric_new_def metric.select_convs(2) list.distinct(1))
  have "router_reachable 7 r" by (rule reach_step [OF r0 step_op], rule op_set_direct [OF _ r]) (simp add: metric_new_def)
  from this router_never_panics [OF this, of 0 "[]" 0 9 0 "metric_new 5 [8] 1" "from_in 0 2" "[]" "RegistrySync []"]
    router_never_panics [OF this, of 0 "[]" 0 9 0 "metric_new 1 [9] 1" "from_out 0 1"
      "[None, None, None, Some (TableSync [(8, metric_new 1 [8, 9] 1)])]" "RegistrySync []"]
  show ?thesis using r by (auto simp: metric_new_def simp del: router_apply_sync.simps)
qed

text \<open>
  C2. The closest-node search. Scanning the layers from the most significant one down, \<^verbatim>\<open>closest_node\<close>
  returns the best allowed path of a slot that is strictly closer (by XOR) to the key's byte than the node
  itself and closest among the usable slots of its layer, while no more significant layer holds a strictly
  closer slot; it returns nothing exactly when no layer holds a strictly closer usable slot, that is when the
  node itself is the best known place for the key.
\<close>

theorem router_closest_node_spec:
  assumes "wf_router r"
  shows "\<exists>res. router_closest_node r key ex = Some res \<and>
    (case res of
       None \<Rightarrow> \<forall>l<4. layer_settled r key ex l
     | Some (c, n, l, s) \<Rightarrow> l \<le> 3 \<and> layer_closer r key ex (unat l) s (c, n) \<and>
         (\<forall>l'<4. unat l < l' \<longrightarrow> layer_settled r key ex l'))"
  using assms by (rule closest_node_run)

lemma router_closest_node_spec_witness:
  "wf_router (router_new 5) \<and> (\<exists>res. router_closest_node (router_new 5) 9 [] = Some res)"
  using router_closest_node_spec [OF router_new_wf, of 5 9 "[]"] router_new_wf [of 5] by blast

lemma slot_paths_new [simp]: "l < 4 \<Longrightarrow> slot_paths (router_new n) l i = []"
  by (auto simp: router_new_def table_new_def dest!: less_4_cases)

lemma router_new_node [simp]: "r_node (router_new n) = n"
  by (simp add: router_new_def)

text \<open>The paths of a fresh router after its first direct connection.\<close>

lemma slot_paths_first_direct:
  assumes "hops m = [b]" "router_set_direct (router_new a) c m = Some r" "unat (eq_util_layer a b) = Suc k" "l < 4"
  shows "slot_paths r l i = (if l = k \<and> i = layer_byte b k then [Path c m] else [])"
proof -
  have "length (r_tables (router_new a)) = 4" "k < 4"
    using wf_routerD(1) [OF router_new_wf] eq_util_layer_Suc(1) [OF assms(3)] by auto
  moreover have "sort_paths (put_path [] c m) = [Path c m]"
    by (simp add: put_path_def sort_paths_def)
  ultimately show ?thesis
    using assms(2-4) router_set_direct_run [OF router_new_wf, of m a c] assms(1)
    by (cases "l = k") (auto simp: Let_def)
qed

subsection \<open>Ownership of keys in a full mesh\<close>

text \<open>The bytes of a node identifier as a number, and the order of two identifiers that differ first in layer \<open>k\<close>.\<close>

lemma unat_layers:
  "unat n = unat (layer_byte n 0) + 256 * unat (layer_byte n 1) + 65536 * unat (layer_byte n 2) + 16777216 * unat (layer_byte n 3)"
proof -
  have b: "unat (layer_byte n i) = unat n div 2 ^ (8 * i) mod 256" for i
  proof -
    have "unat (layer_byte n i) = take_bit 8 (drop_bit (8 * i) (unat n))"
      by (simp add: layer_byte_def unsigned_ucast_eq unat_drop_bit_eq)
    then show ?thesis by (simp add: take_bit_eq_mod drop_bit_eq_div)
  qed
  define m where "m = unat n"
  have "m < 4294967296" using unsigned_less [of n] by (simp add: m_def)
  then have "m div 256 div 256 div 256 mod 256 = m div 256 div 256 div 256" by (simp flip: div_mult2_eq)
  moreover have "m = 256 * (m div 256) + m mod 256" "m div 256 = 256 * (m div 256 div 256) + m div 256 mod 256"
    "m div 256 div 256 = 256 * (m div 256 div 256 div 256) + m div 256 div 256 mod 256" by simp_all
  moreover have "unat (layer_byte n 0) = m mod 256" "unat (layer_byte n 1) = m div 256 mod 256"
    "unat (layer_byte n 2) = m div 256 div 256 mod 256" "unat (layer_byte n 3) = m div 256 div 256 div 256 mod 256"
    by (simp_all add: b m_def flip: div_mult2_eq)
  ultimately show ?thesis unfolding m_def [symmetric] by linarith
qed

lemma layers_order:
  assumes "k < 4" "layer_byte x k \<noteq> layer_byte y k" "\<And>j. k < j \<Longrightarrow> j < 4 \<Longrightarrow> layer_byte x j = layer_byte y j"
  shows "x \<le> y \<longleftrightarrow> layer_byte x k \<le> layer_byte y k"
proof -
  have ne: "unat (layer_byte x k) \<noteq> unat (layer_byte y k)" using assms(2) unsigned_word_eqI by blast
  have lt: "\<And>v j. unat (layer_byte v j) < 256" by (rule unat_u8_less)
  have up: "\<And>j. k < j \<Longrightarrow> j < 4 \<Longrightarrow> unat (layer_byte x j) = unat (layer_byte y j)" using assms(3) by simp
  have "unat x \<le> unat y \<longleftrightarrow> unat (layer_byte x k) \<le> unat (layer_byte y k)"
  proof -
    consider "k = 0" | "k = 1" | "k = 2" | "k = 3" using assms(1) by linarith
    then show ?thesis
    proof cases
      case 1
      show ?thesis using up [of 1] up [of 2] up [of 3] unat_layers [of x] unat_layers [of y] by (simp add: 1)
    next
      case 2
      show ?thesis using up [of 2] up [of 3] unat_layers [of x] unat_layers [of y] ne lt [of x 0] lt [of y 0] unfolding 2 by linarith
    next
      case 3
      show ?thesis using up [of 3] unat_layers [of x] unat_layers [of y] ne lt [of x 0] lt [of y 0] lt [of x 1] lt [of y 1] unfolding 3 by linarith
    next
      case 4
      show ?thesis using unat_layers [of x] unat_layers [of y] ne lt [of x 0] lt [of y 0] lt [of x 1] lt [of y 1] lt [of x 2] lt [of y 2]
        unfolding 4 by linarith
    qed
  qed
  then show ?thesis by (simp add: word_le_nat_alt)
qed

lemma layer_byte_xor: "layer_byte (a XOR b) i = layer_byte a i XOR layer_byte b i"
  by (rule bit_eqI) (auto simp: bit_layer_byte bit_xor_iff)

text \<open>The distance of a key to two nodes is decided in the layer where the nodes differ first.\<close>

lemma distance_layer:
  assumes "unat (eq_util_layer a b) = Suc k"
  shows "key XOR a \<le> key XOR b \<longleftrightarrow> layer_byte key k XOR layer_byte a k \<le> layer_byte key k XOR layer_byte b k"
proof -
  note d = eq_util_layer_Suc [OF assms]
  have "layer_byte key k XOR layer_byte a k \<noteq> layer_byte key k XOR layer_byte b k"
    using d(2) by (metis xor.left_commute xor_self_eq xor.right_neutral)
  then show ?thesis using layers_order [of k "key XOR a" "key XOR b"] d by (simp add: layer_byte_xor)
qed

text \<open>A router that has been told of direct connections only: its slots are exactly those of its peers.\<close>

definition connect_all :: "(conn_id \<times> metric) list \<Rightarrow> router \<Rightarrow> router run" where
  "connect_all = for_run (\<lambda>(c, m) r. router_set_direct r c m)"

definition direct_only :: "node_id \<Rightarrow> node_id set \<Rightarrow> router \<Rightarrow> bool" where
  "direct_only a peers r \<longleftrightarrow> wf_router r \<and> r_node r = a \<and>
     (\<forall>l s. l < 4 \<longrightarrow> (slot_paths r l s \<noteq> [] \<longleftrightarrow> (\<exists>b\<in>peers. unat (eq_util_layer a b) = Suc l \<and> layer_byte b l = s)))"

lemma dest_set_path_nonempty: "d_paths (dest_set_path d c m) \<noteq> []"
proof -
  have "put_path (d_paths d) c m \<noteq> []" using put_path_key [of "d_paths d" c m] by auto
  then have "sort_paths (put_path (d_paths d) c m) \<noteq> []" by (metis sort_paths_def length_0_conv length_sort)
  then show ?thesis by (simp add: dest_set_path_def Let_def)
qed

lemma direct_only_step:
  assumes "direct_only a peers r" "hops m = [b]"
  shows "\<exists>r'. router_set_direct r c m = Some r' \<and> direct_only a (insert b peers) r'"
proof -
  have wf: "wf_router r" and node: "r_node r = a"
    and slots: "\<And>l s. l < 4 \<Longrightarrow> slot_paths r l s \<noteq> [] \<longleftrightarrow> (\<exists>b\<in>peers. unat (eq_util_layer a b) = Suc l \<and> layer_byte b l = s)"
    using assms(1) by (auto simp: direct_only_def)
  obtain r' where r': "router_set_direct r c m = Some r'"
    using router_set_direct_run [OF wf, of m c] assms(2) by (cases "unat (eq_util_layer a b)") (auto simp: Let_def node)
  have wf': "wf_router r'" "r_node r' = a"
    using router_update_set_direct [OF wf _ r'] assms(2) router_update_wf [of r r'] node by (auto simp: router_update_def [of _ r'])
  have "slot_paths r' l s \<noteq> [] \<longleftrightarrow> (\<exists>b\<in>insert b peers. unat (eq_util_layer a b) = Suc l \<and> layer_byte b l = s)" if "l < 4" for l s
  proof (cases "unat (eq_util_layer a b)")
    case 0
    then have "r' = r" using r' router_set_direct_run [OF wf, of m c] assms(2) by (simp add: node)
    then show ?thesis using slots [OF that] 0 by auto
  next
    case (Suc k)
    then have "k < length (r_tables r)" using eq_util_layer_Suc(1) wf_routerD(1) [OF wf] by simp
    then have "slot_paths r' l s =
      (if l = k \<and> s = layer_byte b k then d_paths (dest_set_path (t_dests (r_tables r ! k) s) c m) else slot_paths r l s)"
      using r' router_set_direct_run [OF wf, of m c] assms(2) Suc by (auto simp: node Let_def nth_list_update)
    then show ?thesis using slots [OF that] Suc dest_set_path_nonempty by auto
  qed
  then show ?thesis using r' wf' by (auto simp: direct_only_def)
qed

lemma direct_only_run:
  assumes "direct_only a peers r" "\<And>c m. (c, m) \<in> set links \<Longrightarrow> \<exists>b. hops m = [b]"
  shows "\<exists>r'. connect_all links r = Some r' \<and> direct_only a (peers \<union> (\<lambda>(_, m). hd (hops m)) ` set links) r'"
  using assms
proof (induction links arbitrary: r peers)
  case (Cons x links)
  obtain c m where x: "x = (c, m)" by (cases x)
  obtain b where b: "hops m = [b]" using Cons.prems(2) [of c m] x by auto
  obtain r1 where "router_set_direct r c m = Some r1" "direct_only a (insert b peers) r1"
    using direct_only_step [OF Cons.prems(1) b] by blast
  moreover have "\<exists>r'. connect_all links r1 = Some r' \<and> direct_only a (insert b peers \<union> (\<lambda>(_, m). hd (hops m)) ` set links) r'"
    using Cons.IH [OF \<open>direct_only a (insert b peers) r1\<close>] Cons.prems(2) by (auto simp: x)
  ultimately show ?case using b by (simp add: connect_all_def x)
qed (simp add: connect_all_def)

lemma direct_only_owner:
  assumes "direct_only a peers r"
  shows "\<exists>res. router_closest_node r key [] = Some res \<and> (res = None \<longleftrightarrow> (\<forall>b\<in>peers. key XOR a \<le> key XOR b))"
proof -
  have wf: "wf_router r" and node: "r_node r = a" using assms by (auto simp: direct_only_def)
  have usable: "allowed_path (slot_paths r l s) [] \<noteq> None \<longleftrightarrow> (\<exists>b\<in>peers. unat (eq_util_layer a b) = Suc l \<and> layer_byte b l = s)" if "l < 4" for l s
  proof -
    have "allowed_path ps [] \<noteq> None \<longleftrightarrow> ps \<noteq> []" for ps by (cases ps) (simp_all add: allowed_path_def)
    then show ?thesis using assms that by (simp add: direct_only_def)
  qed
  have settled: "layer_settled r key [] l \<longleftrightarrow> (\<forall>b\<in>peers. unat (eq_util_layer a b) = Suc l \<longrightarrow> key XOR a \<le> key XOR b)" if "l < 4" for l
    unfolding layer_settled_def usable [OF that] using distance_layer [of a _ l key]
    by (auto simp: own_distance_def node xor.commute [of _ "layer_byte key l"])
  obtain res where res: "router_closest_node r key [] = Some res" and spec: "case res of
       None \<Rightarrow> \<forall>l<4. layer_settled r key [] l
     | Some (c, n, l, s) \<Rightarrow> l \<le> 3 \<and> layer_closer r key [] (unat l) s (c, n) \<and> (\<forall>l'<4. unat l < l' \<longrightarrow> layer_settled r key [] l')"
    using closest_node_run [OF wf, of key "[]"] by blast
  have "(\<forall>l<4. layer_settled r key [] l) \<longleftrightarrow> (\<forall>b\<in>peers. key XOR a \<le> key XOR b)" (is "?all \<longleftrightarrow> ?min")
  proof
    assume all: ?all
    show ?min
    proof
      fix b assume b: "b \<in> peers"
      show "key XOR a \<le> key XOR b"
      proof (cases "unat (eq_util_layer a b)")
        case 0
        then show ?thesis using eq_util_layer_0_iff [of a b] by (simp add: unat_eq_zero)
      next
        case (Suc l)
        then show ?thesis using all settled [of l] eq_util_layer_Suc(1) [OF Suc] b by blast
      qed
    qed
  qed (use settled in blast)
  moreover have "\<not> (\<forall>l<4. layer_settled r key [] l)" if "res = Some (c, n, l, s)" for c n l s
  proof -
    have "unat l < 4" "layer_closer r key [] (unat l) s (c, n)" using spec that by (simp_all add: word_le_nat_alt)
    then show ?thesis by (force simp: layer_closer_def layer_settled_def)
  qed
  ultimately show ?thesis using res spec by (cases res) auto
qed

text \<open>
  C3. Keys have exactly one owner in a full mesh. Let every node of a set be connected directly to every other one, by any
  connections and metrics, and know nothing else. Then for every key exactly one node answers \<^verbatim>\<open>None\<close> in
  \<^verbatim>\<open>closest_node\<close>, so that it keeps the key, and all others forward it; the owner is the node whose
  identifier has the least XOR distance to the key.
\<close>

theorem to_key_consistency:
  assumes "ns \<noteq> []" "\<And>a c m. a \<in> set ns \<Longrightarrow> (c, m) \<in> set (links a) \<Longrightarrow> \<exists>b. hops m = [b]"
    and "\<And>a. a \<in> set ns \<Longrightarrow> (\<lambda>(_, m). hd (hops m)) ` set (links a) = set ns - {a}"
  shows "\<exists>owner\<in>set ns. (\<forall>b\<in>set ns. key XOR owner \<le> key XOR b) \<and>
    (\<forall>a\<in>set ns. \<exists>r res. connect_all (links a) (router_new a) = Some r \<and> router_closest_node r key [] = Some res \<and>
       (res = None \<longleftrightarrow> a = owner))"
proof -
  define owner where "owner = (ARG_MIN (\<lambda>a. key XOR a) a. a \<in> set ns)"
  have owner: "owner \<in> set ns" and least: "\<And>b. b \<in> set ns \<Longrightarrow> key XOR owner \<le> key XOR b"
    using arg_min_if_finite(1) [of "set ns" "\<lambda>a. key XOR a"] arg_min_least [of "set ns" _ "\<lambda>a. key XOR a"] assms(1)
    by (auto simp: owner_def arg_min_on_def)
  have "\<exists>r res. connect_all (links a) (router_new a) = Some r \<and> router_closest_node r key [] = Some res \<and> (res = None \<longleftrightarrow> a = owner)"
    if a: "a \<in> set ns" for a
  proof -
    have "direct_only a {} (router_new a)" by (simp add: direct_only_def router_new_wf)
    from direct_only_run [OF this, of "links a"] obtain r where
      r: "connect_all (links a) (router_new a) = Some r" "direct_only a (set ns - {a}) r"
      using assms(2,3) [OF a] by auto
    have "(\<forall>b\<in>set ns - {a}. key XOR a \<le> key XOR b) \<longleftrightarrow> a = owner"
    proof
      assume min: "\<forall>b\<in>set ns - {a}. key XOR a \<le> key XOR b"
      show "a = owner"
      proof (rule ccontr)
        assume "a \<noteq> owner"
        then have "key XOR a = key XOR owner" using min owner least [OF a] by (simp add: order.antisym)
        then show False using \<open>a \<noteq> owner\<close> by (metis xor.assoc xor.left_neutral xor_self_eq)
      qed
    qed (use least in blast)
    then show ?thesis using r direct_only_owner [OF r(2), of key] by auto
  qed
  then show ?thesis using owner least by blast
qed

lemma to_key_consistency_witness:
  "\<exists>owner\<in>set [1, 2, 259]. (\<forall>b\<in>set [1, 2, 259]. 6 XOR owner \<le> 6 XOR b) \<and>
    (\<forall>a\<in>set [1, 2, 259]. \<exists>r res.
       connect_all (map (\<lambda>b. (from_out 0 (ucast b), metric_new 1 [b] 1)) (remove1 a [1, 2, 259])) (router_new a) = Some r \<and>
       router_closest_node r 6 [] = Some res \<and> (res = None \<longleftrightarrow> a = owner))"
proof (rule to_key_consistency)
  fix a c m assume "(c, m) \<in> set (map (\<lambda>b. (from_out 0 (ucast b), metric_new 1 [b] 1)) (remove1 a [1, 2, 259]))"
  then show "\<exists>b. hops m = [b]" by (auto simp: metric_new_def)
next
  fix a :: node_id assume "a \<in> set [1, 2, 259]"
  then show "(\<lambda>(_, m). hd (hops m)) ` set (map (\<lambda>b. (from_out 0 (ucast b), metric_new 1 [b] 1)) (remove1 a [1, 2, 259])) = set [1, 2, 259] - {a}"
    by (auto simp: metric_new_def)
qed simp

lemma del_direct_parts:
  assumes "wf_router r" "r' = router_del_direct r c"
  shows "router_next r' dst ex = Some (Some (c', n)) \<Longrightarrow> conn_key c' \<noteq> conn_key c"
    and "router_next_path r' dst ex = Some (Some p) \<Longrightarrow> path_key p \<noteq> conn_key c"
    and "router_closest_node r' key ex = Some (Some (c', n, l, s)) \<Longrightarrow> conn_key c' \<noteq> conn_key c"
    and "router_service_next r' svc ex = Some (Some (ServiceRemoteDest c' n)) \<Longrightarrow> conn_key c' \<noteq> conn_key c"
    and "k < 4 \<Longrightarrow> slot_paths r' k i = filter (\<lambda>p. path_key p \<noteq> conn_key c) (slot_paths r k i)"
proof -
  have wf': "wf_router r'" using router_update_del_direct [OF assms(1)] router_update_wf assms(2) by blast
  have slot: "path_key q \<noteq> conn_key c" if "k < 4" "allowed_path (slot_paths r' k i) ex = Some q" for k i q
    using allowed_path_Some(1) [OF slot_paths_wf [OF wf' that(1)] that(2)] del_direct_slots [OF assms(1) that(1)]
    by (auto simp: assms(2))
  have service: "path_key q \<noteq> conn_key c" if "allowed_path (service_paths r' s) ex = Some q" for s q
    using allowed_path_Some(1) [OF service_paths_wf [OF wf'] that] del_direct_services [OF assms(1)]
    by (auto simp: assms(2))
  note lay = eq_util_layer_Suc(1)
  show "router_next r' dst ex = Some (Some (c', n)) \<Longrightarrow> conn_key c' \<noteq> conn_key c"
    by (auto simp: router_next_run [OF wf'] dest!: slot [OF lay] split: nat.splits)
  show "router_next_path r' dst ex = Some (Some p) \<Longrightarrow> path_key p \<noteq> conn_key c"
    by (auto simp: router_next_run [OF wf'] dest!: slot [OF lay] split: nat.splits)
  show "router_closest_node r' key ex = Some (Some (c', n, l, s)) \<Longrightarrow> conn_key c' \<noteq> conn_key c"
    using closest_node_run [OF wf', of key ex] slot [of "unat l" s]
    by (auto simp: layer_closer_def word_le_nat_alt)
  show "router_service_next r' svc ex = Some (Some (ServiceRemoteDest c' n)) \<Longrightarrow> conn_key c' \<noteq> conn_key c"
    by (auto simp: router_service_next_run [OF wf'] dest!: service split: if_splits)
  show "k < 4 \<Longrightarrow> slot_paths r' k i = filter (\<lambda>p. path_key p \<noteq> conn_key c) (slot_paths r k i)"
    using del_direct_slots [OF assms(1)] assms(2) by simp
qed

text \<open>
  C4. A removed connection is gone: after \<^verbatim>\<open>del_direct\<close> no answer of \<^verbatim>\<open>next\<close>, \<^verbatim>\<open>next_path\<close>,
  \<^verbatim>\<open>closest_node\<close> or \<^verbatim>\<open>service_next\<close> goes over that connection, whatever was learnt over it before, and the
  paths over every other connection are kept with their rank.
\<close>

theorem router_del_direct_gone:
  assumes "wf_router r" "r' = router_del_direct r c"
  shows "(\<forall>dst ex c' n. router_next r' dst ex = Some (Some (c', n)) \<longrightarrow> conn_key c' \<noteq> conn_key c) \<and>
    (\<forall>dst ex p. router_next_path r' dst ex = Some (Some p) \<longrightarrow> path_key p \<noteq> conn_key c) \<and>
    (\<forall>key ex c' n l s. router_closest_node r' key ex = Some (Some (c', n, l, s)) \<longrightarrow> conn_key c' \<noteq> conn_key c) \<and>
    (\<forall>svc ex c' n. router_service_next r' svc ex = Some (Some (ServiceRemoteDest c' n)) \<longrightarrow> conn_key c' \<noteq> conn_key c) \<and>
    (\<forall>k<4. \<forall>i. slot_paths r' k i = filter (\<lambda>p. path_key p \<noteq> conn_key c) (slot_paths r k i)) \<and>
    (\<forall>svc. service_paths r' svc = filter (\<lambda>p. path_key p \<noteq> conn_key c) (service_paths r svc))"
  by (intro conjI allI impI; (erule del_direct_parts [OF assms])?) (simp add: assms(2) del_direct_services [OF assms(1)])

lemma router_del_direct_gone_witness:
  "\<exists>r. router_set_direct (router_new 1) (from_out 0 1) (metric_new 1 [2] 1) = Some r \<and> wf_router r \<and>
     slot_paths r 0 2 \<noteq> [] \<and> slot_paths (router_del_direct r (from_out 0 1)) 0 2 = []"
proof -
  let ?c = "from_out 0 1" and ?m = "metric_new 1 [2] 1"
  obtain r where r: "router_set_direct (router_new 1) ?c ?m = Some r"
    using router_set_direct_run [OF router_new_wf, of ?m 1 ?c] by (simp add: Let_def split: nat.splits)
  have e: "unat (eq_util_layer 1 2) = Suc 0" and b: "layer_byte 2 0 = 2"
    by (simp_all add: eq_util_layer_def layer_byte_def)
  have wf: "wf_router r"
    using router_update_set_direct [OF router_new_wf _ r] router_update_wf by simp
  have "slot_paths r 0 2 = [Path ?c ?m]"
    using slot_paths_first_direct [OF _ r e, of 0 2] b by simp
  with router_del_direct_gone [OF wf refl, of ?c] r wf show ?thesis by auto
qed

text \<open>The copy that the data plane keeps when it starts: nothing.\<close>

definition empty_view :: router_view_t where
  "empty_view = (((\<lambda>_. False), (\<lambda>_. [])), (\<lambda>_ _. None))"

text \<open>An interleaving of router operations with a consumer that pops changes and replays them.\<close>

inductive follows :: "node_id \<Rightarrow> router \<Rightarrow> router_view_t \<Rightarrow> bool" for n where
  follow_new: "follows n (router_new n) empty_view"
| follow_op: "follows n r a \<Longrightarrow> router_op r r' \<Longrightarrow> follows n r' a"
| follow_pop: "follows n r a \<Longrightarrow> router_pop_delta r = (Some e, r') \<Longrightarrow> follows n r' (replay_router a e)"

lemma router_new_in_sync: "router_in_sync empty_view (router_new n)"
proof -
  have "table_log.in_sync (\<lambda>_. None) (table_new n l)" for l
    by (simp add: table_log.in_sync_def table_new_def table_view_def best_key_def)
  then have "\<forall>l<4. table_log.in_sync (\<lambda>_. None) (r_tables (router_new n) ! l)"
    by (simp add: all_less_4 router_new_def)
  moreover have "registry_log.in_sync ((\<lambda>_. False), (\<lambda>_. [])) (registry_new n)"
    by (simp add: registry_log.in_sync_def registry_view_def registry_new_def rdest_view_def rdest_default_def)
  ultimately show ?thesis
    using wf_routerD(1) [OF router_new_wf, of n]
    by (simp add: router_in_sync_def empty_view_def) (simp add: router_new_def)
qed

lemma follows_in_sync: "follows n r a \<Longrightarrow> wf_router r \<and> router_in_sync a r"
proof (induction rule: follows.induct)
  case follow_new
  show ?case by (simp add: router_new_wf router_new_in_sync)
next
  case (follow_op r a r')
  then have "router_update r r'" using router_op_update by blast
  then show ?case using follow_op.IH router_update_wf router_update_sync by blast
next
  case (follow_pop r a e r')
  then show ?case using router_pop_wf router_pop_sync by blast
qed

text \<open>
  C5. The change log is exact. However updates and pops are interleaved, once \<^verbatim>\<open>pop_delta\<close> answers
  \<^verbatim>\<open>None\<close> the consumer that replayed every popped delta, in pop order, on its own initially empty copy holds
  exactly the router's current best connection of every layer and index, its local services and its ranked
  remote providers.
\<close>

theorem router_deltas_exact:
  assumes "follows n r a" "router_pop_delta r = (None, r')"
  shows "a = router_view r"
  using follows_in_sync [OF assms(1)] assms(2) router_pop_drained by blast

lemma router_deltas_exact_witness:
  "\<exists>r a. follows 3 r a \<and> router_pop_delta r = (None, r) \<and> a = router_view r \<and> fst (fst a) 5"
proof -
  let ?r1 = "router_register_service (router_new 3) 5"
  obtain r2 where pop: "router_pop_delta ?r1 = (Some (DeltaRegistry (SetServiceLocal 5)), r2)"
    and drained: "router_pop_delta r2 = (None, r2)"
    by (simp add: router_pop_delta_def router_new_def router_register_service_def registry_add_service_def
        registry_pop_delta_def registry_new_def table_pop_delta_def table_new_def)
  have f: "follows 3 r2 (replay_router empty_view (DeltaRegistry (SetServiceLocal 5)))"
    by (rule follow_pop [OF follow_op [OF follow_new op_register] pop])
  have "fst (fst (replay_router empty_view (DeltaRegistry (SetServiceLocal 5)))) 5"
    by (simp add: empty_view_def)
  with f drained router_deltas_exact [OF f drained] show ?thesis by blast
qed

end
