(* ===== verification/Route_Network.thy ===== *)
theory Route_Network
  imports Core_Router
begin

text \<open>
  Routers that exchange synchronisation messages, as an asynchronous system: \<open>net_step\<close> interleaves local
  operations of any node with \<^verbatim>\<open>create_sync\<close> (the message joins the set of messages ever sent) and
  \<^verbatim>\<open>apply_sync\<close> (any message may be delivered late, repeatedly or never). Connections only ever link two
  different nodes, and a received message is applied with the one-hop metric of its sender, as
  \<^verbatim>\<open>features/router_sync.rs\<close> does.

  The invariant: every stored path is a simple chain of links from its destination to the holder, and its
  destination lies in the zone that the slot stands for.
\<close>

type_synonym link = "node_id \<times> node_id"

record network =
  net_router :: "node_id \<Rightarrow> router"
  net_links :: "link set"
  net_msgs :: "(node_id \<times> node_id \<times> router_sync) set"

definition net_init :: "network" where
  "net_init = \<lparr>net_router = router_new, net_links = {}, net_msgs = {}\<rparr>"

abbreviation put_router :: "node_id \<Rightarrow> router \<Rightarrow> network \<Rightarrow> network" where
  "put_router n r N \<equiv> N\<lparr>net_router := (net_router N)(n := r)\<rparr>"

inductive net_step :: "network \<Rightarrow> network \<Rightarrow> bool" where
  net_connect: "a \<noteq> b \<Longrightarrow> net_step N (N\<lparr>net_links := net_links N \<union> {(a, b), (b, a)}\<rparr>)"
| net_direct: "(b, a) \<in> net_links N \<Longrightarrow> hops m = [b] \<Longrightarrow> router_set_direct (net_router N a) c m = Some r \<Longrightarrow>
    net_step N (put_router a r N)"
| net_disconnect: "net_step N (put_router a (router_del_direct (net_router N a) c) N)"
| net_register: "net_step N (put_router a (router_register_service (net_router N a) s) N)"
| net_pop: "router_pop_delta (net_router N a) = (e, r) \<Longrightarrow> net_step N (put_router a r N)"
| net_send: "(a, b) \<in> net_links N \<Longrightarrow> router_create_sync (net_router N a) b = Some msg \<Longrightarrow>
    net_step N (N\<lparr>net_msgs := insert (a, b, msg) (net_msgs N)\<rparr>)"
| net_receive: "(a, b, msg) \<in> net_msgs N \<Longrightarrow> hops m = [a] \<Longrightarrow> router_apply_sync (net_router N b) c m msg = Some r \<Longrightarrow>
    net_step N (put_router b r N)"

inductive net_reachable :: "network \<Rightarrow> bool" where
  net_start: "net_reachable net_init"
| net_next: "net_reachable N \<Longrightarrow> net_step N N' \<Longrightarrow> net_reachable N'"

subsection \<open>The route invariant\<close>

text \<open>A simple chain of links that ends at the holder.\<close>

definition route_ok :: "link set \<Rightarrow> node_id \<Rightarrow> node_id list \<Rightarrow> bool" where
  "route_ok E n hs \<longleftrightarrow> distinct (hs @ [n]) \<and> successively (\<lambda>x y. (x, y) \<in> E) (hs @ [n])"

text \<open>The nodes that slot \<open>i\<close> of layer \<open>l\<close> of node \<open>n\<close> stands for.\<close>

definition in_zone :: "node_id \<Rightarrow> nat \<Rightarrow> u8 \<Rightarrow> node_id \<Rightarrow> bool" where
  "in_zone n l i d \<longleftrightarrow> layer_byte d l = i \<and> (\<forall>j. l < j \<longrightarrow> j < 4 \<longrightarrow> layer_byte d j = layer_byte n j)"

definition routes_ok :: "link set \<Rightarrow> node_id \<Rightarrow> router \<Rightarrow> bool" where
  "routes_ok E n r \<longleftrightarrow>
     wf_router r \<and> r_node r = n \<and>
     (\<forall>l<4. \<forall>i. \<forall>p\<in>set (slot_paths r l i).
        route_ok E n (hops (path_metric p)) \<and> in_zone n l i (hd (hops (path_metric p)))) \<and>
     (\<forall>s. \<forall>p\<in>set (service_paths r s). route_ok E n (hops (path_metric p)))"

text \<open>What a message in flight announces: routes of the sender that avoid the receiver.\<close>

definition announce_ok :: "link set \<Rightarrow> node_id \<Rightarrow> node_id \<Rightarrow> metric \<Rightarrow> bool" where
  "announce_ok E a b m \<longleftrightarrow> route_ok E a (hops m) \<and> b \<notin> set (hops m)"

definition table_msg_ok :: "link set \<Rightarrow> node_id \<Rightarrow> node_id \<Rightarrow> nat \<Rightarrow> table_sync option \<Rightarrow> bool" where
  "table_msg_ok E a b l s \<longleftrightarrow>
     (\<forall>es i m. s = Some (TableSync es) \<longrightarrow> (i, m) \<in> set es \<longrightarrow>
        announce_ok E a b m \<and> hops m \<noteq> [] \<and> in_zone a l i (hd (hops m)) \<and> unat (eq_util_layer a b) \<le> l + 1)"

definition msg_ok :: "link set \<Rightarrow> node_id \<Rightarrow> node_id \<Rightarrow> router_sync \<Rightarrow> bool" where
  "msg_ok E a b msg \<longleftrightarrow>
     (\<exists>es ts. msg = RouterSync (RegistrySync es) ts \<and> length ts = 4 \<and>
        (a, b) \<in> E \<and> a \<noteq> b \<and> (\<forall>l<4. table_msg_ok E a b l (ts ! l)) \<and>
        (\<forall>i m. (i, m) \<in> set es \<longrightarrow> announce_ok E a b m))"

definition net_ok :: "network \<Rightarrow> bool" where
  "net_ok N \<longleftrightarrow>
     (\<forall>a b. (a, b) \<in> net_links N \<longrightarrow> a \<noteq> b) \<and>
     (\<forall>n. routes_ok (net_links N) n (net_router N n)) \<and>
     (\<forall>(a, b, msg)\<in>net_msgs N. msg_ok (net_links N) a b msg)"

subsection \<open>Growing the link set\<close>

lemma route_ok_mono: "route_ok E n hs \<Longrightarrow> E \<subseteq> E' \<Longrightarrow> route_ok E' n hs"
  by (auto simp: route_ok_def elim!: successively_mono)

lemma routes_ok_mono: "routes_ok E n r \<Longrightarrow> E \<subseteq> E' \<Longrightarrow> routes_ok E' n r"
  unfolding routes_ok_def using route_ok_mono by blast

lemma msg_ok_mono: "msg_ok E a b msg \<Longrightarrow> E \<subseteq> E' \<Longrightarrow> msg_ok E' a b msg"
  unfolding msg_ok_def table_msg_ok_def announce_ok_def using route_ok_mono by fastforce

subsection \<open>Extending a route by one hop\<close>

lemma route_ok_direct: "(b, a) \<in> E \<Longrightarrow> a \<noteq> b \<Longrightarrow> route_ok E a [b]"
  by (simp add: route_ok_def)

lemma announce_extends:
  assumes "announce_ok E a b s" "(a, b) \<in> E" "a \<noteq> b" "hops m = [a]"
  shows "route_ok E b (hops (metric_add s m))"
  using assms by (auto simp: announce_ok_def route_ok_def successively_append_iff)

lemma eq_util_layer_above:
  assumes "unat (eq_util_layer a b) \<le> l + 1" "l < j" "j < 4"
  shows "layer_byte a j = layer_byte b j"
  using less_4_cases [OF assms(3)] assms(1,2)
  by (elim disjE) (auto simp: unat_eq_util_layer split: if_splits)

lemma in_zone_peer: "in_zone a l i d \<Longrightarrow> unat (eq_util_layer a b) \<le> l + 1 \<Longrightarrow> in_zone b l i d"
  using eq_util_layer_above by (auto simp: in_zone_def)

lemma in_zone_direct:
  assumes "unat (eq_util_layer n d) = Suc l"
  shows "in_zone n l (layer_byte d l) d"
  using eq_util_layer_Suc(3) [OF assms] by (auto simp: in_zone_def)

subsection \<open>Every operation keeps the routes good\<close>

lemma routes_okI:
  assumes "wf_router r" "r_node r = n"
    and "\<And>l i p. l < 4 \<Longrightarrow> p \<in> set (slot_paths r l i) \<Longrightarrow>
      route_ok E n (hops (path_metric p)) \<and> in_zone n l i (hd (hops (path_metric p)))"
    and "\<And>s p. p \<in> set (service_paths r s) \<Longrightarrow> route_ok E n (hops (path_metric p))"
  shows "routes_ok E n r"
  using assms by (simp add: routes_ok_def)

lemma routes_okD:
  assumes "routes_ok E n r"
  shows "wf_router r" "r_node r = n"
    "l < 4 \<Longrightarrow> p \<in> set (slot_paths r l i) \<Longrightarrow> route_ok E n (hops (path_metric p))"
    "l < 4 \<Longrightarrow> p \<in> set (slot_paths r l i) \<Longrightarrow> in_zone n l i (hd (hops (path_metric p)))"
    "p \<in> set (service_paths r s) \<Longrightarrow> route_ok E n (hops (path_metric p))"
  using assms by (auto simp: routes_ok_def)

lemma router_op_routes:
  assumes "routes_ok E n r" "router_update r r'"
    and "\<And>l i p. l < 4 \<Longrightarrow> p \<in> set (slot_paths r' l i) \<Longrightarrow> p \<notin> set (slot_paths r l i) \<Longrightarrow>
      route_ok E n (hops (path_metric p)) \<and> in_zone n l i (hd (hops (path_metric p)))"
    and "\<And>s p. p \<in> set (service_paths r' s) \<Longrightarrow> p \<notin> set (service_paths r s) \<Longrightarrow> route_ok E n (hops (path_metric p))"
  shows "routes_ok E n r'"
proof (rule routes_okI)
  show "wf_router r'" "r_node r' = n"
    using router_update_wf [OF assms(2)] assms(2) routes_okD(2) [OF assms(1)] by (simp_all add: router_update_def)
  show "route_ok E n (hops (path_metric p)) \<and> in_zone n l i (hd (hops (path_metric p)))"
    if "l < 4" "p \<in> set (slot_paths r' l i)" for l i p
    using routes_okD(3,4) [OF assms(1) that(1)] assms(3) [OF that] by blast
  show "route_ok E n (hops (path_metric p))" if "p \<in> set (service_paths r' s)" for s p
    using routes_okD(5) [OF assms(1)] assms(4) [OF that] by blast
qed

lemma direct_routes:
  assumes "routes_ok E n r" "(b, n) \<in> E" "n \<noteq> b" "hops m = [b]" "router_set_direct r c m = Some r'"
  shows "routes_ok E n r'"
proof (rule router_op_routes [OF assms(1)])
  note wf = routes_okD(1,2) [OF assms(1)]
  have ne: "hops m \<noteq> []" using assms(4) by simp
  show "router_update r r'" by (rule router_update_set_direct [OF wf(1) ne assms(5)])
  show "route_ok E n (hops (path_metric p)) \<and> in_zone n l i (hd (hops (path_metric p)))"
    if "l < 4" "p \<in> set (slot_paths r' l i)" "p \<notin> set (slot_paths r l i)" for l i p
    using set_direct_origin [OF wf(1) ne assms(5) that(1,2)] that(3) assms(2-4) wf(2)
      route_ok_direct [of b n E] in_zone_direct [of n b l] by auto
  show "route_ok E n (hops (path_metric p))"
    if "p \<in> set (service_paths r' s)" "p \<notin> set (service_paths r s)" for s p
    using that set_direct_services [OF wf(1) ne assms(5)] by simp
qed

lemma disconnect_routes: "routes_ok E n r \<Longrightarrow> routes_ok E n (router_del_direct r c)"
  by (rule router_op_routes [OF _ router_update_del_direct])
     (auto simp: del_direct_slots del_direct_services dest: routes_okD(1))

lemma register_routes: "routes_ok E n r \<Longrightarrow> routes_ok E n (router_register_service r s)"
  by (rule router_op_routes [OF _ router_update_register])
     (auto simp: router_register_service_def registry_add_service_def dest: routes_okD(1))

lemma pop_routes:
  assumes "routes_ok E n r" "router_pop_delta r = (e, r')"
  shows "routes_ok E n r'"
  using routes_okD [OF assms(1)] router_pop_wf [OF _ assms(2)] pop_paths [OF _ assms(2)]
  by (intro routes_okI) auto

lemma apply_sync_slot_origin:
  assumes "wf_router r" "hops m \<noteq> []" "length ts = 4" "router_apply_sync r c m (RouterSync rs ts) = Some r'" "l < 4"
    and "p \<in> set (slot_paths r' l i)" "p \<notin> set (slot_paths r l i)"
  shows "\<exists>es s. ts ! l = Some (TableSync es) \<and> (i, s) \<in> set es \<and> path_metric p = metric_add s m"
proof -
  note eq = apply_sync_slots [OF assms(1-5), of i]
  have "ts ! l \<noteq> None" using eq assms(6,7) by (metis option.simps(4))
  then obtain es where s: "ts ! l = Some (TableSync es)" by (metis not_None_eq table_sync.exhaust)
  have own: "i \<noteq> layer_byte (r_node r) l" using eq assms(6,7) s by auto
  obtain m' where m': "sync_cache m es i = Some m'"
    using eq assms(6,7) s own by (cases "sync_cache m es i") (auto split: if_splits)
  have "p \<in> set (sort_paths (put_path (slot_paths r l i) c m'))" using eq assms(6) s own m' by simp
  then have "path_metric p = m'" using set_sort_put [OF slot_paths_wf [OF assms(1,5)]] assms(7) by blast
  then show ?thesis using sync_cache_origin [OF m'] s by blast
qed

lemma apply_sync_service_origin:
  assumes "wf_router r" "hops m \<noteq> []" "length ts = 4" "router_apply_sync r c m (RouterSync (RegistrySync es) ts) = Some r'"
    and "p \<in> set (service_paths r' s)" "p \<notin> set (service_paths r s)"
  shows "\<exists>x. (s, x) \<in> set es \<and> path_metric p = metric_add x m"
proof -
  note eq = apply_sync_services [OF assms(1-4), of s]
  obtain m' where m': "sync_cache m es s = Some m'" using eq assms(5,6) by (cases "sync_cache m es s") auto
  have "p \<in> set (sort_paths (put_path (service_paths r s) c m'))" using eq assms(5) m' by simp
  then have "path_metric p = m'" using set_sort_put [OF service_paths_wf [OF assms(1)]] assms(6) by blast
  then show ?thesis using sync_cache_origin [OF m'] by blast
qed

lemma receive_routes:
  assumes "routes_ok E b r" "msg_ok E a b msg" "hops m = [a]" "router_apply_sync r c m msg = Some r'"
  shows "routes_ok E b r'"
proof -
  note wf = routes_okD(1,2) [OF assms(1)]
  have ne: "hops m \<noteq> []" using assms(3) by simp
  obtain es ts where msg: "msg = RouterSync (RegistrySync es) ts" "length ts = 4" "(a, b) \<in> E" "a \<noteq> b"
    and tables: "\<And>l. l < 4 \<Longrightarrow> table_msg_ok E a b l (ts ! l)"
    and services: "\<And>i s. (i, s) \<in> set es \<Longrightarrow> announce_ok E a b s"
    using assms(2) unfolding msg_ok_def by blast
  note run = assms(4) [unfolded msg(1)]
  show ?thesis
  proof (rule router_op_routes [OF assms(1)])
    show "router_update r r'" by (rule router_update_apply_sync [OF wf(1) ne msg(2) run])
    show "route_ok E b (hops (path_metric p)) \<and> in_zone b l i (hd (hops (path_metric p)))"
      if l: "l < 4" and p: "p \<in> set (slot_paths r' l i)" "p \<notin> set (slot_paths r l i)" for l i p
    proof -
      obtain es' x where "ts ! l = Some (TableSync es')" "(i, x) \<in> set es'" and pm: "path_metric p = metric_add x m"
        using apply_sync_slot_origin [OF wf(1) ne msg(2) run l p] by blast
      then have x: "announce_ok E a b x" "hops x \<noteq> []" "in_zone a l i (hd (hops x))" "unat (eq_util_layer a b) \<le> l + 1"
        using tables [OF l] unfolding table_msg_ok_def by blast+
      then show ?thesis
        using announce_extends [OF x(1) msg(3,4) assms(3)] in_zone_peer [OF x(3,4)] by (simp add: pm)
    qed
    show "route_ok E b (hops (path_metric p))"
      if p: "p \<in> set (service_paths r' s)" "p \<notin> set (service_paths r s)" for s p
      using apply_sync_service_origin [OF wf(1) ne msg(2) run p] services announce_extends [OF _ msg(3,4) assms(3)]
      by auto
  qed
qed

lemma send_ok:
  assumes "routes_ok E a r" "(a, b) \<in> E" "a \<noteq> b" "router_create_sync r b = Some msg"
  shows "msg_ok E a b msg"
proof -
  note wf = routes_okD(1,2) [OF assms(1)]
  obtain ts where ts: "msg = RouterSync (registry_sync_for (r_registry r) b) ts" "length ts = 4"
      "\<And>l. l < 4 \<Longrightarrow> table_sync_for (r_tables r ! l) b = Some (ts ! l)"
    using router_create_sync_run [OF wf(1), of b] assms(4) by auto
  obtain es where es: "registry_sync_for (r_registry r) b = RegistrySync es"
    by (cases "registry_sync_for (r_registry r) b")
  have "table_msg_ok E a b l (ts ! l)" if l: "l < 4" for l
    unfolding table_msg_ok_def
  proof (intro allI impI)
    fix es i m
    assume "ts ! l = Some (TableSync es)" and i: "(i, m) \<in> set es"
    then have "table_sync_for (r_tables r ! l) b = Some (Some (TableSync es))" using ts(3) [OF l] by simp
    note origin = table_sync_origin [OF wf_routerD(2) [OF wf(1) l] this i]
    then obtain p where p: "p \<in> set (slot_paths r l i)" "path_metric p = m" "b \<notin> set (hops m)" by blast
    then show "announce_ok E a b m \<and> hops m \<noteq> [] \<and> in_zone a l i (hd (hops m)) \<and> unat (eq_util_layer a b) \<le> l + 1"
      using origin(2) routes_okD(3,4) [OF assms(1) l p(1)] wf_paths_hops [OF slot_paths_wf [OF wf(1) l] p(1)] wf(2)
      by (simp add: announce_ok_def)
  qed
  moreover have "announce_ok E a b m" if "(i, m) \<in> set es" for i m
    using registry_sync_origin [OF es that] routes_okD(5) [OF assms(1)]
    by (auto simp: announce_ok_def route_ok_def)
  ultimately show ?thesis using ts es assms(2,3) unfolding msg_ok_def by blast
qed

subsection \<open>The network invariant\<close>

lemma net_init_ok: "net_ok net_init"
  by (auto simp: net_ok_def net_init_def routes_ok_def router_new_wf)
     (simp_all add: router_new_def registry_new_def rdest_default_def)

lemma net_ok_put: "net_ok N \<Longrightarrow> routes_ok (net_links N) n r \<Longrightarrow> net_ok (put_router n r N)"
  by (auto simp: net_ok_def)

lemma net_okD:
  assumes "net_ok N"
  shows "routes_ok (net_links N) n (net_router N n)" "(a, b) \<in> net_links N \<Longrightarrow> a \<noteq> b"
    "(a, b, msg) \<in> net_msgs N \<Longrightarrow> msg_ok (net_links N) a b msg"
  using assms by (auto simp: net_ok_def)

lemma net_step_ok:
  assumes "net_step N N'" "net_ok N"
  shows "net_ok N'"
  using assms
proof (induction rule: net_step.induct)
  case (net_connect a b N)
  let ?E = "net_links N \<union> {(a, b), (b, a)}"
  have "routes_ok ?E n (net_router N n)" for n
    by (rule routes_ok_mono [OF net_okD(1) [OF net_connect(2)]]) blast
  moreover have "msg_ok ?E x y msg" if "(x, y, msg) \<in> net_msgs N" for x y msg
    by (rule msg_ok_mono [OF net_okD(3) [OF net_connect(2) that]]) blast
  ultimately show ?case
    using net_connect net_okD(2) [OF net_connect(2)] by (auto simp: net_ok_def)
next
  case (net_direct b a N m c r)
  then show ?case using direct_routes [OF net_okD(1)] net_okD(2) net_ok_put by metis
next
  case (net_disconnect N a c)
  then show ?case using disconnect_routes [OF net_okD(1)] net_ok_put by blast
next
  case (net_register N a s)
  then show ?case using register_routes [OF net_okD(1)] net_ok_put by blast
next
  case (net_pop N a e r)
  then show ?case using pop_routes [OF net_okD(1)] net_ok_put by blast
next
  case (net_send a b N msg)
  then have "msg_ok (net_links N) a b msg" using send_ok [OF net_okD(1)] net_okD(2) by blast
  then show ?case using net_send(3) by (simp add: net_ok_def)
next
  case (net_receive a b msg N m c r)
  then show ?case using receive_routes [OF net_okD(1) net_okD(3)] net_ok_put by blast
qed

lemma net_reachable_ok: "net_reachable N \<Longrightarrow> net_ok N"
  by (induction rule: net_reachable.induct) (auto intro: net_init_ok net_step_ok)

text \<open>
  C6. Routes never loop. In every state that routers can reach by connecting, disconnecting, registering
  services and exchanging synchronisation messages in any order, with any delay and repetition, a path that
  \<^verbatim>\<open>next_path\<close> selects towards \<open>dst\<close> visits no node twice and never the node itself, follows links that were
  established between consecutive nodes up to the node itself, and starts at a node that agrees with \<open>dst\<close> on
  every byte from the layer where \<open>dst\<close> and the node part upwards. The same holds of the paths to service
  providers, apart from the zone.
\<close>

theorem network_routes_loop_free:
  assumes "net_reachable N"
  shows "(\<forall>p. router_next_path (net_router N n) dst ex = Some (Some p) \<longrightarrow>
      route_ok (net_links N) n (hops (path_metric p)) \<and>
      (\<forall>j<4. unat (eq_util_layer n dst) \<le> Suc j \<longrightarrow> layer_byte (hd (hops (path_metric p))) j = layer_byte dst j)) \<and>
    (\<forall>s. \<forall>p\<in>set (service_paths (net_router N n) s). route_ok (net_links N) n (hops (path_metric p)))"
proof -
  let ?r = "net_router N n"
  have ok: "routes_ok (net_links N) n ?r" using net_reachable_ok [OF assms] by (rule net_okD)
  have "route_ok (net_links N) n (hops (path_metric p)) \<and>
      (\<forall>j<4. unat (eq_util_layer n dst) \<le> Suc j \<longrightarrow> layer_byte (hd (hops (path_metric p))) j = layer_byte dst j)"
    if nx: "router_next_path ?r dst ex = Some (Some p)" for p
  proof -
    obtain l where l: "unat (eq_util_layer n dst) = Suc l" "allowed_path (slot_paths ?r l (layer_byte dst l)) ex = Some p"
      using nx router_next_run(2) [OF routes_okD(1) [OF ok], of dst ex] routes_okD(2) [OF ok]
      by (cases "unat (eq_util_layer n dst)") auto
    note l4 = eq_util_layer_Suc(1) [OF l(1)]
    have p: "p \<in> set (slot_paths ?r l (layer_byte dst l))"
      using allowed_path_Some(1) [OF slot_paths_wf [OF routes_okD(1) [OF ok] l4] l(2)] .
    show ?thesis
      using routes_okD(3,4) [OF ok l4 p] eq_util_layer_Suc(3) [OF l(1)] l(1)
      by (auto simp: in_zone_def le_less)
  qed
  then show ?thesis using routes_okD(5) [OF ok] by blast
qed

lemma network_routes_loop_free_witness:
  "\<exists>N p. net_reachable N \<and> router_next_path (net_router N 1) 2 [] = Some (Some p) \<and>
     route_ok (net_links N) 1 (hops (path_metric p))"
proof -
  let ?c = "from_out 0 1" and ?m = "metric_new 1 [2] 1"
  let ?N1 = "net_init\<lparr>net_links := net_links net_init \<union> {(1, 2), (2, 1)}\<rparr>"
  obtain r where r: "router_set_direct (router_new 1) ?c ?m = Some r"
    using router_set_direct_run [OF router_new_wf, of ?m 1 ?c] by (simp add: Let_def split: nat.splits)
  let ?N2 = "put_router 1 r ?N1"
  have "net_step ?N1 ?N2" using r by (intro net_direct [of 2 1]) (simp_all add: net_init_def)
  moreover have "net_step net_init ?N1" by (rule net_connect) simp
  ultimately have N: "net_reachable ?N2" using net_next [OF net_next [OF net_start]] by blast
  have e: "unat (eq_util_layer 1 2) = Suc 0" and b: "layer_byte 2 0 = 2"
    by (simp_all add: eq_util_layer_def layer_byte_def)
  have wf: "wf_router r" "r_node r = 1"
    using router_update_set_direct [OF router_new_wf _ r] router_update_wf [of "router_new 1" r]
    by (simp_all add: router_update_def [of _ r])
  have "router_next_path r 2 [] = Some (Some (Path ?c ?m))"
    using slot_paths_first_direct [OF _ r e, of 0 2] b e wf
    by (simp add: router_next_run allowed_path_def)
  then have nx: "router_next_path (net_router ?N2 1) 2 [] = Some (Some (Path ?c ?m))" by simp
  with network_routes_loop_free [OF N, of 1 2 "[]"] N show ?thesis by blast
qed

end
