(* ===== verification/Shadow_Router.thy ===== *)
theory Shadow_Router
  imports Core_Router
begin

text \<open>
  The data plane's router (\<^verbatim>\<open>core/router/src/lib.rs\<close> and \<^verbatim>\<open>shadow/\<close>): per layer the best remote of
  every index, per service the ranked remotes, and the routing decision for a message.

  The remote type is a parameter, as in the source. The broadcast history is a separate shared object: its
  operation is an argument of \<open>sr_path_to_services\<close> and \<open>derive_action\<close>, and the locale \<open>broadcast_history\<close>
  states what the router relies on. The lemmas characterise the closest-slot scan, show that a shadow
  router which holds the core router's best connections answers exactly like the core router, and describe
  the recipients of a service broadcast.
\<close>

unbundle bit_operations_syntax

datatype service_broadcast_level = Global | Geo1 | Geo2 | Group

fun same_level :: "service_broadcast_level \<Rightarrow> node_id \<Rightarrow> node_id \<Rightarrow> bool" where
  "same_level Global n1 n2 = True"
| "same_level Geo1 n1 n2 = (geo1 n1 = geo1 n2)"
| "same_level Geo2 n1 n2 = (geo1 n1 = geo1 n2 \<and> geo2 n1 = geo2 n2)"
| "same_level Group n1 n2 = (geo1 n1 = geo1 n2 \<and> geo2 n1 = geo2 n2 \<and> group n1 = group n2)"

fun level_to_u8 :: "service_broadcast_level \<Rightarrow> u8" where
  "level_to_u8 Global = 0"
| "level_to_u8 Geo1 = 1"
| "level_to_u8 Geo2 = 2"
| "level_to_u8 Group = 3"

definition level_of_u8 :: "u8 \<Rightarrow> service_broadcast_level" where
  "level_of_u8 v = (if v = 0 then Global else if v = 1 then Geo1 else if v = 2 then Geo2 else Group)"

datatype route_rule =
    Direct
  | ToNode node_id
  | ToService u8
  | ToServices u8 service_broadcast_level u16
  | ToKey node_id

datatype 'r route_action = Reject | Local | Next 'r | Broadcast bool "'r list"

fun is_local :: "'r route_action \<Rightarrow> bool" where
  "is_local Local = True"
| "is_local _ = False"

fun is_reject :: "'r route_action \<Rightarrow> bool" where
  "is_reject Reject = True"
| "is_reject _ = False"

fun is_remote :: "'r route_action \<Rightarrow> bool" where
  "is_remote (Next _) = True"
| "is_remote _ = False"

subsection \<open>Shadow table\<close>

record 'r shadow_table =
  st_layer :: u8
  st_dests :: "u8 \<Rightarrow> 'r option"

definition st_new :: "u8 \<Rightarrow> 'r shadow_table" where
  "st_new l = \<lparr>st_layer = l, st_dests = (\<lambda>_. None)\<rparr>"

definition st_set :: "'r shadow_table \<Rightarrow> u8 \<Rightarrow> 'r \<Rightarrow> 'r shadow_table" where
  "st_set t i remote = t\<lparr>st_dests := (st_dests t)(i := Some remote)\<rparr>"

definition st_del :: "'r shadow_table \<Rightarrow> u8 \<Rightarrow> 'r shadow_table" where
  "st_del t i = t\<lparr>st_dests := (st_dests t)(i := None)\<rparr>"

definition st_next :: "'r shadow_table \<Rightarrow> node_id \<Rightarrow> 'r option run" where
  "st_next t dst = do { i \<leftarrow> layer dst (st_layer t); Some (st_dests t i) }"

definition st_closest_step :: "'r shadow_table \<Rightarrow> u8 \<Rightarrow> u8 \<Rightarrow> ('r \<times> u8 \<times> u8) option \<Rightarrow> ('r \<times> u8 \<times> u8) option" where
  "st_closest_step t key i closest =
     (case st_dests t i of
        Some remote \<Rightarrow>
          (let distance = i XOR key in
           if (case closest of None \<Rightarrow> True | Some (_, _, d) \<Rightarrow> distance < d)
           then Some (remote, i, distance) else closest)
      | None \<Rightarrow> closest)"

definition st_closest_for :: "'r shadow_table \<Rightarrow> u8 \<Rightarrow> ('r \<times> u8 \<times> u8) option" where
  "st_closest_for t key = fold (st_closest_step t key) all_u8 None"

subsection \<open>Shadow service\<close>

record 'r service_conn =
  sc_conn :: 'r
  sc_next :: node_id
  sc_dest :: node_id
  sc_score :: u32

record 'r service =
  sv_dests :: "'r service_conn list"

definition sv_new :: "'r service" where
  "sv_new = \<lparr>sv_dests = []\<rparr>"

fun position :: "('a \<Rightarrow> bool) \<Rightarrow> 'a list \<Rightarrow> nat option" where
  "position P [] = None"
| "position P (x # xs) = (if P x then Some 0 else map_option Suc (position P xs))"

definition sv_set_conn :: "'r service \<Rightarrow> 'r \<Rightarrow> node_id \<Rightarrow> node_id \<Rightarrow> u32 \<Rightarrow> 'r service" where
  "sv_set_conn s conn nxt dst sc =
     (let x = \<lparr>sc_conn = conn, sc_next = nxt, sc_dest = dst, sc_score = sc\<rparr>;
          ds = (case position (\<lambda>x. sc_conn x = conn) (sv_dests s) of
                  Some i \<Rightarrow> (sv_dests s)[i := x]
                | None \<Rightarrow> sv_dests s @ [x])
      in \<lparr>sv_dests = sort_key sc_score ds\<rparr>)"

definition sv_del_conn :: "'r service \<Rightarrow> 'r \<Rightarrow> 'r service" where
  "sv_del_conn s conn = \<lparr>sv_dests = filter (\<lambda>x. sc_conn x \<noteq> conn) (sv_dests s)\<rparr>"

definition sv_best_conn :: "'r service \<Rightarrow> 'r option" where
  "sv_best_conn s = (case sv_dests s of [] \<Rightarrow> None | x # _ \<Rightarrow> Some (sc_conn x))"

fun bcast_loop :: "node_id \<Rightarrow> service_broadcast_level \<Rightarrow> node_id option \<Rightarrow> 'r service_conn list \<Rightarrow> node_id set \<Rightarrow> 'r list" where
  "bcast_loop n level relay_from [] seen = []"
| "bcast_loop n level relay_from (d # ds) seen =
     (if sc_dest d \<in> seen \<or> \<not> same_level level n (sc_dest d) then bcast_loop n level relay_from ds seen
      else if (case relay_from of Some from \<Rightarrow> sc_next d = from | None \<Rightarrow> False)
      then bcast_loop n level relay_from ds seen
      else sc_conn d # bcast_loop n level relay_from ds (insert (sc_dest d) seen))"

definition sv_broadcast_dests :: "'r service \<Rightarrow> node_id \<Rightarrow> service_broadcast_level \<Rightarrow> node_id option \<Rightarrow> 'r list option" where
  "sv_broadcast_dests s n level relay_from =
     (if sv_dests s = [] then None else Some (bcast_loop n level relay_from (sv_dests s) {}))"

subsection \<open>Shadow router\<close>

datatype 'r shadow_delta =
    SetTable u8 u8 'r
  | DelTable u8 u8
  | SetServiceRemote u8 'r node_id node_id u32
  | DelServiceRemote u8 'r
  | SetLocalService u8
  | DelLocalService u8

record 'r shadow_router =
  sr_node :: node_id
  sr_local :: "u8 \<Rightarrow> bool"
  sr_remote :: "u8 \<Rightarrow> 'r service"
  sr_tables :: "'r shadow_table list"

definition sr_new :: "node_id \<Rightarrow> 'r shadow_router" where
  "sr_new n =
     \<lparr>sr_node = n, sr_local = (\<lambda>_. False), sr_remote = (\<lambda>_. sv_new),
      sr_tables = [st_new 0, st_new 1, st_new 2, st_new 3]\<rparr>"

definition sr_apply_delta :: "'r shadow_router \<Rightarrow> 'r shadow_delta \<Rightarrow> 'r shadow_router run" where
  "sr_apply_delta r delta =
     (case delta of
        SetTable l i remote \<Rightarrow> do {
          t \<leftarrow> index_run (sr_tables r) (unat l);
          ts \<leftarrow> update_run (sr_tables r) (unat l) (st_set t i remote);
          Some (r\<lparr>sr_tables := ts\<rparr>)
        }
      | DelTable l i \<Rightarrow> do {
          t \<leftarrow> index_run (sr_tables r) (unat l);
          ts \<leftarrow> update_run (sr_tables r) (unat l) (st_del t i);
          Some (r\<lparr>sr_tables := ts\<rparr>)
        }
      | SetServiceRemote s conn nxt dst sc \<Rightarrow>
          Some (r\<lparr>sr_remote := (sr_remote r)(s := sv_set_conn (sr_remote r s) conn nxt dst sc)\<rparr>)
      | DelServiceRemote s conn \<Rightarrow>
          Some (r\<lparr>sr_remote := (sr_remote r)(s := sv_del_conn (sr_remote r s) conn)\<rparr>)
      | SetLocalService s \<Rightarrow> Some (r\<lparr>sr_local := (sr_local r)(s := True)\<rparr>)
      | DelLocalService s \<Rightarrow> Some (r\<lparr>sr_local := (sr_local r)(s := False)\<rparr>))"

definition sr_next :: "'r shadow_router \<Rightarrow> node_id \<Rightarrow> 'r option run" where
  "sr_next r dst =
     (let e = unat (eq_util_layer (sr_node r) dst) in
      if e = 0 then Some None
      else do { t \<leftarrow> index_run (sr_tables r) (e - 1); st_next t dst })"

fun sr_closest_layers :: "'r shadow_router \<Rightarrow> node_id \<Rightarrow> u8 list \<Rightarrow> 'r option run" where
  "sr_closest_layers r key [] = Some None"
| "sr_closest_layers r key (i # is) =
     do {
       key_index \<leftarrow> layer key i;
       t \<leftarrow> index_run (sr_tables r) (unat i);
       (case st_closest_for t key_index of
          Some (remote, _, next_distance) \<Rightarrow> do {
            current_index \<leftarrow> layer (sr_node r) i;
            let current_distance = key_index XOR current_index;
            if current_distance > next_distance then Some (Some remote)
            else sr_closest_layers r key is
          }
        | None \<Rightarrow> sr_closest_layers r key is)
     }"

definition sr_closest_for :: "'r shadow_router \<Rightarrow> node_id \<Rightarrow> 'r option run" where
  "sr_closest_for r key = sr_closest_layers r key [3, 2, 1, 0]"

definition sr_path_to_key :: "'r shadow_router \<Rightarrow> node_id \<Rightarrow> 'r route_action run" where
  "sr_path_to_key r key =
     do {
       c \<leftarrow> sr_closest_for r key;
       Some (case c of Some remote \<Rightarrow> Next remote | None \<Rightarrow> Local)
     }"

definition sr_path_to_node :: "'r shadow_router \<Rightarrow> node_id \<Rightarrow> 'r route_action run" where
  "sr_path_to_node r dst =
     (if dst = sr_node r then Some Local
      else do {
        c \<leftarrow> sr_next r dst;
        Some (case c of Some remote \<Rightarrow> Next remote | None \<Rightarrow> Reject)
      })"

definition sr_path_to_service :: "'r shadow_router \<Rightarrow> u8 \<Rightarrow> 'r route_action" where
  "sr_path_to_service r s =
     (if sr_local r s then Local
      else case sv_best_conn (sr_remote r s) of Some c \<Rightarrow> Next c | None \<Rightarrow> Reject)"

text \<open>The history operation \<^verbatim>\<open>already_received_broadcast\<close> answers and updates the shared history.\<close>

type_synonym 'h history_op = "'h \<Rightarrow> node_id option \<Rightarrow> u8 \<Rightarrow> u16 \<Rightarrow> bool \<times> 'h"

definition sr_path_to_services :: "'h history_op \<Rightarrow> 'h \<Rightarrow> 'r shadow_router \<Rightarrow> u8 \<Rightarrow> u16 \<Rightarrow> service_broadcast_level \<Rightarrow>
    node_id option \<Rightarrow> node_id option \<Rightarrow> 'r route_action \<times> 'h" where
  "sr_path_to_services received h r s sq level source relay_from =
     (case received h source s sq of
        (True, h') \<Rightarrow> (Reject, h')
      | (False, h') \<Rightarrow>
          (let local = sr_local r s in
           (case sv_broadcast_dests (sr_remote r s) (sr_node r) level relay_from of
              Some nexts \<Rightarrow> Broadcast local nexts
            | None \<Rightarrow> if local then Local else Reject, h')))"

definition derive_action :: "'h history_op \<Rightarrow> 'h \<Rightarrow> 'r shadow_router \<Rightarrow> route_rule \<Rightarrow> node_id option \<Rightarrow> node_id option \<Rightarrow>
    ('r route_action \<times> 'h) run" where
  "derive_action received h r route source relay_from =
     (case route of
        Direct \<Rightarrow> Some (Local, h)
      | ToNode dst \<Rightarrow> do { a \<leftarrow> sr_path_to_node r dst; Some (a, h) }
      | ToKey key \<Rightarrow> do { a \<leftarrow> sr_path_to_key r key; Some (a, h) }
      | ToService s \<Rightarrow> Some (sr_path_to_service r s, h)
      | ToServices s level sq \<Rightarrow> Some (sr_path_to_services received h r s sq level source relay_from))"

subsection \<open>Invariant and the closest-slot scan\<close>

definition wf_shadow :: "'r shadow_router \<Rightarrow> bool" where
  "wf_shadow r \<longleftrightarrow> length (sr_tables r) = 4 \<and> (\<forall>l<4. unat (st_layer (sr_tables r ! l)) = l)"

lemma wf_shadowD:
  assumes "wf_shadow r"
  shows "length (sr_tables r) = 4" "l < 4 \<Longrightarrow> unat (st_layer (sr_tables r ! l)) = l" "l < 4 \<Longrightarrow> st_layer (sr_tables r ! l) \<le> 3"
  using assms by (auto simp: wf_shadow_def word_le_nat_alt)

lemma sr_new_wf [wf_intros]: "wf_shadow (sr_new n)"
  by (simp add: wf_shadow_def sr_new_def st_new_def all_less_4)

lemma sr_apply_delta_wf [wf_intros]:
  assumes "wf_shadow r" "sr_apply_delta r e = Some r'"
  shows "wf_shadow r' \<and> sr_node r' = sr_node r"
  using assms
  by (cases e) (auto simp: sr_apply_delta_def wf_shadow_def index_run_def update_run_def st_set_def st_del_def
      nth_list_update split: if_splits)

definition scan_best :: "'r shadow_table \<Rightarrow> u8 \<Rightarrow> u8 set \<Rightarrow> ('r \<times> u8 \<times> u8) option \<Rightarrow> bool" where
  "scan_best t key S c \<longleftrightarrow>
     (case c of
        None \<Rightarrow> \<forall>i\<in>S. st_dests t i = None
      | Some (remote, i, d) \<Rightarrow> i \<in> S \<and> st_dests t i = Some remote \<and> d = i XOR key \<and>
          (\<forall>j\<in>S. st_dests t j \<noteq> None \<longrightarrow> d \<le> j XOR key))"

lemma scan_best_step:
  assumes "scan_best t key S c"
  shows "scan_best t key (insert i S) (st_closest_step t key i c)"
proof (cases "st_dests t i")
  case None
  then show ?thesis using assms by (auto simp: scan_best_def st_closest_step_def split: option.splits)
next
  case (Some remote)
  show ?thesis
  proof (cases c)
    case None
    then show ?thesis using assms Some by (auto simp: scan_best_def st_closest_step_def)
  next
    case c: (Some x)
    obtain r j d where x: "x = (r, j, d)" by (cases x)
    show ?thesis
    proof (cases "i XOR key < d")
      case True
      then show ?thesis
        using assms Some c x by (auto simp: scan_best_def st_closest_step_def dest!: bspec)
    next
      case False
      then show ?thesis
        using assms Some c x by (auto simp: scan_best_def st_closest_step_def)
    qed
  qed
qed

lemma scan_best_fold: "scan_best t key S c \<Longrightarrow> scan_best t key (set xs \<union> S) (fold (st_closest_step t key) xs c)"
proof (induction xs arbitrary: S c)
  case (Cons x xs)
  show ?case using Cons.IH [OF scan_best_step [OF Cons.prems, of x]] by simp
qed simp

lemma st_closest_for_spec: "scan_best t key UNIV (st_closest_for t key)"
  using scan_best_fold [of t key "{}" None all_u8] by (simp add: st_closest_for_def scan_best_def)

lemma xor_cancel_u8: "(a :: u8) XOR k = b XOR k \<longleftrightarrow> a = b"
  by (metis xor.assoc xor.right_neutral xor_self_eq)

subsection \<open>Agreement with the core router\<close>

text \<open>The shadow router holds, for every layer and index, the remote of the core's best connection.\<close>

definition mirrors :: "(conn_key \<Rightarrow> 'r) \<Rightarrow> 'r shadow_router \<Rightarrow> router \<Rightarrow> bool" where
  "mirrors addr s r \<longleftrightarrow>
     sr_node s = r_node r \<and>
     (\<forall>l<4. \<forall>i. st_dests (sr_tables s ! l) i = map_option addr (table_view (r_tables r ! l) i))"

lemma table_view_allowed:
  "table_view t i = map_option path_key (allowed_path (d_paths (t_dests t i)) [])"
  by (cases "d_paths (t_dests t i)") (simp_all add: table_view_def best_key_def allowed_path_def)

lemma closest_agree:
  assumes "wf_table t" "\<And>i. st_dests u i = map_option addr (table_view t i)"
  shows "table_closest_for t key [] = Some None \<and> st_closest_for u key = None \<or>
    (\<exists>s c n. table_closest_for t key [] = Some (Some (s, c, n)) \<and>
       st_closest_for u key = Some (addr (conn_key c), s, s XOR key))"
proof -
  have nx: "dest_next (t_dests t i) [] = Some (map_option via (allowed_path (d_paths (t_dests t i)) []))" for i
    using wf_tableD(2) [OF assms(1)] by (rule dest_next_run)
  have dests: "st_dests u i = map_option (\<lambda>p. addr (path_key p)) (allowed_path (d_paths (t_dests t i)) [])" for i
    by (simp add: assms(2) table_view_allowed option.map_comp comp_def)
  obtain f where f: "table_closest_for t key [] = Some f" and fs: "case f of
       None \<Rightarrow> \<forall>s. dest_next (t_dests t s) [] = Some None
     | Some (s, c, n) \<Rightarrow> dest_next (t_dests t s) [] = Some (Some (c, n)) \<and>
         (\<forall>s'. dest_next (t_dests t s') [] \<noteq> Some None \<longrightarrow> s XOR key \<le> s' XOR key)"
    using table_closest_for_spec [OF assms(1), of key "[]"] by blast
  note scan = st_closest_for_spec [of u key]
  show ?thesis
  proof (cases f)
    case None
    then have "st_dests u i = None" for i using fs by (simp add: nx dests)
    then have "st_closest_for u key = None" using scan by (auto simp: scan_best_def split: option.splits)
    then show ?thesis using f None by simp
  next
    case (Some x)
    obtain s c n where x: "x = (s, c, n)" by (cases x)
    then have s: "map_option via (allowed_path (d_paths (t_dests t s)) []) = Some (c, n)"
      and least: "\<And>s'. st_dests u s' \<noteq> None \<Longrightarrow> s XOR key \<le> s' XOR key"
      using fs Some by (auto simp: nx dests)
    then have us: "st_dests u s = Some (addr (conn_key c))" by (auto simp: dests)
    then obtain rem j d where g: "st_closest_for u key = Some (rem, j, d)"
      using scan by (cases "st_closest_for u key") (auto simp: scan_best_def)
    then have j: "st_dests u j = Some rem" "d = j XOR key" "d \<le> s XOR key"
      using scan us by (auto simp: scan_best_def)
    then have "s XOR key = j XOR key" using least [of j] by (simp add: order_antisym)
    then have "s = j" by (simp add: xor_cancel_u8)
    then show ?thesis using f Some x g j us by simp
  qed
qed

lemma closest_layers_agree:
  assumes "wf_router r" "wf_shadow s" "mirrors addr s r" "\<forall>l\<in>set ls. l \<le> 3"
  shows "sr_closest_layers s key ls =
    map_option (map_option (\<lambda>(c, _). addr (conn_key c))) (closest_layers r key [] ls)"
  using assms(4)
proof (induction ls)
  case (Cons l ls)
  have l: "unat l < 4" "l \<le> 3" using Cons.prems by (auto simp: word_le_nat_alt)
  have "table_closest_for (r_tables r ! unat l) (layer_byte key (unat l)) [] = Some None \<and>
      st_closest_for (sr_tables s ! unat l) (layer_byte key (unat l)) = None \<or>
    (\<exists>i c n. table_closest_for (r_tables r ! unat l) (layer_byte key (unat l)) [] = Some (Some (i, c, n)) \<and>
       st_closest_for (sr_tables s ! unat l) (layer_byte key (unat l)) = Some (addr (conn_key c), i, i XOR layer_byte key (unat l)))"
    using assms(3) l by (intro closest_agree wf_layerD(1) [OF wf_routerD(2) [OF assms(1)]]) (auto simp: mirrors_def)
  then show ?case
    using Cons l wf_routerD(1) [OF assms(1)] wf_shadowD(1) [OF assms(2)] assms(3)
    by (auto simp: layer_run mirrors_def)
qed simp

lemma next_agree:
  assumes "wf_router r" "wf_shadow s" "mirrors addr s r"
  shows "sr_next s dst = map_option (map_option (\<lambda>(c, _). addr (conn_key c))) (router_next r dst [])"
proof (cases "unat (eq_util_layer (r_node r) dst)")
  case 0
  then show ?thesis using assms(3) by (simp add: sr_next_def mirrors_def router_next_run [OF assms(1)])
next
  case (Suc l)
  have l: "l < 4" using Suc by (rule eq_util_layer_Suc)
  show ?thesis
    using Suc l wf_shadowD [OF assms(2)] assms(3)
    by (simp add: sr_next_def mirrors_def router_next_run [OF assms(1)] st_next_def layer_run table_view_allowed
        option.map_comp comp_def)
qed

text \<open>
  C8. The data plane forwards like the control plane. When the shadow router of a worker holds the remote of
  the best connection of every layer and index of the core router, its \<^verbatim>\<open>next\<close> and \<^verbatim>\<open>closest_for\<close> return, for
  every destination and key, the remote of the connection that the core router's \<^verbatim>\<open>next\<close> and
  \<^verbatim>\<open>closest_node\<close> choose (without exceptions), although the two scan different structures.
\<close>

theorem shadow_agrees_with_core:
  assumes "wf_router r" "wf_shadow s" "mirrors addr s r"
  shows "sr_next s dst = map_option (map_option (\<lambda>(c, _). addr (conn_key c))) (router_next r dst []) \<and>
    sr_closest_for s key = map_option (map_option (\<lambda>(c, _). addr (conn_key c))) (router_closest_node r key [])"
  unfolding sr_closest_for_def router_closest_node_def
  by (rule conjI [OF next_agree [OF assms] closest_layers_agree [OF assms]]) simp

lemma mirrors_new:
  fixes addr :: "conn_key \<Rightarrow> 'r"
  shows "mirrors addr (sr_new n) (router_new n)"
proof -
  have "st_dests (sr_tables (sr_new n :: 'r shadow_router) ! l) i = None" if "l < 4" for l i
    using that by (auto simp: sr_new_def st_new_def dest!: less_4_cases)
  moreover have "table_view (r_tables (router_new n) ! l) i = None" if "l < 4" for l i
    using slot_paths_new [OF that] by (simp add: table_view_def best_key_def)
  moreover have "sr_node (sr_new n :: 'r shadow_router) = n" by (simp add: sr_new_def)
  ultimately show ?thesis by (simp add: mirrors_def)
qed

lemma shadow_agrees_with_core_witness:
  "wf_router (router_new 5) \<and> wf_shadow (sr_new 5 :: conn_key shadow_router) \<and>
   mirrors (\<lambda>k. k) (sr_new 5) (router_new 5) \<and>
   sr_next (sr_new 5 :: conn_key shadow_router) 9 =
     map_option (map_option (\<lambda>(c, _). conn_key c)) (router_next (router_new 5) 9 [])"
  using shadow_agrees_with_core [OF router_new_wf [of 5] sr_new_wf [of 5] mirrors_new [of "\<lambda>k. k" 5], of 9 9]
    router_new_wf [of 5] sr_new_wf [of 5, where 'a = conn_key] mirrors_new [of "\<lambda>k. k" 5] by simp

subsection \<open>Service broadcast\<close>

text \<open>The remotes a broadcast may use: in the level, and not through the node it came from.\<close>

definition bcast_ok :: "node_id \<Rightarrow> service_broadcast_level \<Rightarrow> node_id option \<Rightarrow> 'r service_conn \<Rightarrow> bool" where
  "bcast_ok n level relay_from d \<longleftrightarrow> same_level level n (sc_dest d) \<and> relay_from \<noteq> Some (sc_next d)"

text \<open>The first usable entry of every destination, in rank order.\<close>

fun first_per_dest :: "'r service_conn list \<Rightarrow> 'r service_conn list" where
  "first_per_dest [] = []"
| "first_per_dest (d # ds) = d # filter (\<lambda>x. sc_dest x \<noteq> sc_dest d) (first_per_dest ds)"

lemma first_per_dest_filter:
  "first_per_dest (filter (\<lambda>x. P (sc_dest x)) ds) = filter (\<lambda>x. P (sc_dest x)) (first_per_dest ds)"
proof (induction ds)
  case (Cons d ds)
  have "filter (\<lambda>x. P (sc_dest x) \<and> sc_dest x \<noteq> sc_dest d) xs = filter (\<lambda>x. P (sc_dest x)) xs"
    if "\<not> P (sc_dest d)" for xs :: "'a service_conn list" using that by (intro filter_cong) auto
  then show ?case using Cons by (auto simp: conj_commute)
qed simp

lemma bcast_loop_eq:
  "bcast_loop n level relay_from ds seen =
     map sc_conn (first_per_dest (filter (\<lambda>d. sc_dest d \<notin> seen) (filter (bcast_ok n level relay_from) ds)))"
proof (induction ds arbitrary: seen)
  case (Cons d ds)
  have relay: "(case relay_from of Some from \<Rightarrow> sc_next d = from | None \<Rightarrow> False) \<longleftrightarrow> relay_from = Some (sc_next d)"
    by (auto split: option.splits)
  have "filter (\<lambda>x. sc_dest x \<noteq> sc_dest d) (first_per_dest (filter (\<lambda>x. sc_dest x \<notin> seen) xs)) =
      first_per_dest (filter (\<lambda>x. sc_dest x \<notin> insert (sc_dest d) seen) xs)" for xs :: "'a service_conn list"
    using first_per_dest_filter [of "\<lambda>x. x \<noteq> sc_dest d" "filter (\<lambda>x. sc_dest x \<notin> seen) xs"]
    by (simp add: conj_commute)
  moreover have "bcast_loop n level relay_from (d # ds) seen =
      (if sc_dest d \<in> seen \<or> \<not> bcast_ok n level relay_from d then bcast_loop n level relay_from ds seen
       else sc_conn d # bcast_loop n level relay_from ds (insert (sc_dest d) seen))"
    by (auto simp: bcast_ok_def relay)
  ultimately show ?case using Cons by (simp del: bcast_loop.simps filter_filter)
qed simp

lemma first_per_dest_spec:
  "distinct (map sc_dest (first_per_dest ds))" "set (first_per_dest ds) \<subseteq> set ds"
  "sc_dest ` set (first_per_dest ds) = sc_dest ` set ds"
proof -
  show sub: "set (first_per_dest ds) \<subseteq> set ds" by (induction ds) auto
  show "distinct (map sc_dest (first_per_dest ds))" by (induction ds) (auto simp: distinct_map_filter)
  show "sc_dest ` set (first_per_dest ds) = sc_dest ` set ds"
  proof (induction ds)
    case (Cons d ds)
    have "sc_dest ` set (first_per_dest (d # ds)) =
        insert (sc_dest d) (sc_dest ` set (first_per_dest ds) - {sc_dest d})" by auto
    then show ?case using Cons by auto
  qed simp
qed

lemma first_per_dest_best:
  assumes "sorted (map sc_score ds)" "x \<in> set (first_per_dest ds)" "y \<in> set ds" "sc_dest y = sc_dest x"
  shows "sc_score x \<le> sc_score y"
  using assms by (induction ds) auto

definition sorted_service :: "'r service \<Rightarrow> bool" where
  "sorted_service s \<longleftrightarrow> sorted (map sc_score (sv_dests s))"

lemma sv_set_conn_sorted [wf_intros]: "sorted_service (sv_set_conn s c n d sc)"
  by (simp add: sorted_service_def sv_set_conn_def Let_def)

lemma sv_del_conn_sorted [wf_intros]: "sorted_service s \<Longrightarrow> sorted_service (sv_del_conn s c)"
  by (simp add: sorted_service_def sv_del_conn_def sorted_filter)

text \<open>
  C9. Recipients of a service broadcast. \<^verbatim>\<open>broadcast_dests\<close> of a ranked provider list picks, for every
  destination node inside the level that is reachable over a connection not leading back to the relaying
  node, exactly one provider entry, a cheapest one, and nothing else; the remotes returned are those of the
  picked entries, in rank order.
\<close>

theorem broadcast_dests_spec:
  assumes "sorted_service s" "sv_broadcast_dests s n level relay_from = Some remotes"
  shows "\<exists>picked. remotes = map sc_conn picked \<and> set picked \<subseteq> set (sv_dests s) \<and> distinct (map sc_dest picked) \<and>
    sc_dest ` set picked = sc_dest ` {d\<in>set (sv_dests s). bcast_ok n level relay_from d} \<and>
    (\<forall>x\<in>set picked. bcast_ok n level relay_from x \<and>
      (\<forall>y\<in>set (sv_dests s). bcast_ok n level relay_from y \<and> sc_dest y = sc_dest x \<longrightarrow> sc_score x \<le> sc_score y))"
proof -
  let ?ds = "filter (bcast_ok n level relay_from) (sv_dests s)"
  have "remotes = map sc_conn (first_per_dest ?ds)"
    using assms(2) by (auto simp: sv_broadcast_dests_def bcast_loop_eq split: if_splits)
  moreover have "sorted (map sc_score ?ds)" using assms(1) by (simp add: sorted_service_def sorted_filter)
  note first_per_dest_best [OF this]
  ultimately show ?thesis
    using first_per_dest_spec [of ?ds] by (intro exI [of _ "first_per_dest ?ds"]) auto
qed

lemma broadcast_dests_spec_witness:
  "\<exists>s. sorted_service s \<and> sv_broadcast_dests s 1 Global (Some 7) = Some [11 :: nat] \<and>
     (\<exists>picked. [11] = map sc_conn picked \<and> set picked \<subseteq> set (sv_dests s))"
proof -
  let ?s = "sv_set_conn (sv_set_conn (sv_set_conn sv_new (10 :: nat) 7 2 5) 11 8 2 6) 12 9 2 9"
  have run: "sv_broadcast_dests ?s 1 Global (Some 7) = Some [11 :: nat]"
    by (simp add: sv_broadcast_dests_def sv_set_conn_def sv_new_def)
  have sorted: "sorted_service ?s" by (rule sv_set_conn_sorted)
  from broadcast_dests_spec [OF sorted run]
  have "\<exists>picked. [11] = map sc_conn picked \<and> set picked \<subseteq> set (sv_dests ?s)" by (elim exE conjE) (intro exI conjI)
  with sorted run show ?thesis by (intro exI [of _ ?s] conjI)
qed

subsection \<open>Routing decisions\<close>

text \<open>What the router relies on from the broadcast history: a message that is remembered is reported as
  received and changes nothing, a new one is reported once and remembered.\<close>

locale broadcast_history =
  fixes received :: "'h history_op"
    and remembered :: "'h \<Rightarrow> (node_id option \<times> u8 \<times> u16) set"
    and ok :: "'h \<Rightarrow> bool"
  assumes received_answer: "ok h \<Longrightarrow> fst (received h src s sq) \<longleftrightarrow> (src, s, sq) \<in> remembered h"
    and received_again: "ok h \<Longrightarrow> (src, s, sq) \<in> remembered h \<Longrightarrow> snd (received h src s sq) = h"
    and received_remembers: "ok h \<Longrightarrow> (src, s, sq) \<in> remembered (snd (received h src s sq))"
    and received_ok: "ok h \<Longrightarrow> ok (snd (received h src s sq))"
begin

lemma broadcast_once:
  assumes "ok h" "sr_path_to_services received h r s sq level src relay = (a, h')"
  shows "sr_path_to_services received h' r' s sq level' src relay' = (Reject, h')"
    and "a \<noteq> Reject \<Longrightarrow> (src, s, sq) \<notin> remembered h" "ok h'"
proof -
  obtain b where b: "received h src s sq = (b, h')"
    using assms(2) by (cases "received h src s sq") (auto simp: sr_path_to_services_def Let_def split: bool.splits)
  have ok': "ok h'" "(src, s, sq) \<in> remembered h'"
    using received_ok [OF assms(1), of src s sq] received_remembers [OF assms(1), of src s sq] b by simp_all
  then have "received h' src s sq = (True, h')"
    using received_answer [of h' src s sq] received_again [of h' src s sq]
    by (cases "received h' src s sq") simp
  then show "sr_path_to_services received h' r' s sq level' src relay' = (Reject, h')"
    by (simp add: sr_path_to_services_def)
  show "a \<noteq> Reject \<Longrightarrow> (src, s, sq) \<notin> remembered h"
    using assms received_answer [OF assms(1), of src s sq] b by (auto simp: sr_path_to_services_def)
  show "ok h'" by (rule ok'(1))
qed

end

lemma layers_le_3: "\<forall>l\<in>set [3, 2, 1, 0 :: u8]. l \<le> 3"
  by simp

lemma sr_queries_run:
  assumes "wf_shadow r"
  shows "\<exists>x. sr_next r dst = Some x" "\<exists>x. sr_closest_for r key = Some x"
proof -
  show "\<exists>x. sr_next r dst = Some x"
    using wf_shadowD [OF assms] unat_eq_util_layer_le [of "sr_node r" dst]
    by (auto simp: sr_next_def st_next_def layer_run Let_def)
  have "\<exists>x. sr_closest_layers r key ls = Some x" if "\<forall>l\<in>set ls. l \<le> 3" for ls
    using that
  proof (induction ls)
    case (Cons l ls)
    have "unat l < 4" "l \<le> 3" using Cons.prems by (auto simp: word_le_nat_alt)
    then show ?case
      using Cons wf_shadowD(1) [OF assms] by (auto simp: layer_run split: option.splits)
  qed simp
  then show "\<exists>x. sr_closest_for r key = Some x" unfolding sr_closest_for_def by (metis layers_le_3)
qed

end
