(* ===== verification/Broadcast_History.thy ===== *)
theory Broadcast_History
  imports Shadow_Router
begin

text \<open>
  The broadcast history that the workers of a node share (\<^verbatim>\<open>packages/runner/src/history.rs\<close>): a set of
  received (source, service, sequence) keys with a queue of their arrival times, bounded by age and by number.
  Both operations run under the two locks of the source, so each is one atomic step.

  It implements the contract \<open>broadcast_history\<close> of the shadow router. The further lemmas bound its size and
  show how long a key is remembered.
\<close>

definition HISTORY_TIMEOUT_MS :: time where "HISTORY_TIMEOUT_MS = 2000"

type_synonym bcast_key = "node_id option \<times> u8 \<times> u16"

record history =
  hi_now :: time
  hi_queue :: "(time \<times> bcast_key) list"
  hi_map :: "bcast_key \<rightharpoonup> bool"

definition history_default :: history where
  "history_default = \<lparr>hi_now = 0, hi_queue = [], hi_map = Map.empty\<rparr>"

definition already_received_broadcast :: "history history_op" where
  "already_received_broadcast h from service sq =
     (let key = (from, service, sq) in
      if hi_map h key \<noteq> None then (True, h)
      else
        (let m = (hi_map h)(key \<mapsto> True);
             q = hi_queue h @ [(hi_now h, key)]
         in if length q > 10000
            then (False, h\<lparr>hi_queue := tl q, hi_map := m(snd (hd q) := None)\<rparr>)
            else (False, h\<lparr>hi_queue := q, hi_map := m\<rparr>)))"

text \<open>The \<^verbatim>\<open>while let\<close> loop over the front of the queue.\<close>

fun expire :: "time \<Rightarrow> (time \<times> bcast_key) list \<Rightarrow> (bcast_key \<rightharpoonup> bool) \<Rightarrow>
    (time \<times> bcast_key) list \<times> (bcast_key \<rightharpoonup> bool)" where
  "expire now [] m = ([], m)"
| "expire now ((t, key) # q) m =
     (if now \<ge> t + HISTORY_TIMEOUT_MS then expire now q (m(key := None)) else ((t, key) # q, m))"

definition set_ts :: "history \<Rightarrow> time \<Rightarrow> history" where
  "set_ts h now =
     (let (q, m) = expire now (hi_queue h) (hi_map h)
      in h\<lparr>hi_now := now, hi_queue := q, hi_map := m\<rparr>)"

subsection \<open>Invariant\<close>

definition wf_history :: "history \<Rightarrow> bool" where
  "wf_history h \<longleftrightarrow>
     distinct (map snd (hi_queue h)) \<and> dom (hi_map h) = snd ` set (hi_queue h) \<and> length (hi_queue h) \<le> 10000"

lemma history_default_wf [wf_intros]: "wf_history history_default"
  by (simp add: wf_history_def history_default_def)

lemma received_cases:
  assumes "wf_history h"
  obtains (again) "(src, s, sq) \<in> dom (hi_map h)" "already_received_broadcast h src s sq = (True, h)"
  | (new) h' dropped rest where "(src, s, sq) \<notin> dom (hi_map h)" "already_received_broadcast h src s sq = (False, h')"
      "hi_now h' = hi_now h" "hi_queue h = dropped @ rest" "hi_queue h' = rest @ [(hi_now h, src, s, sq)]"
      "length dropped \<le> 1" "dropped \<noteq> [] \<Longrightarrow> length rest = 9999" "wf_history h'"
proof (cases "(src, s, sq) \<in> dom (hi_map h)")
  case True
  then show ?thesis by (intro again) (auto simp: already_received_broadcast_def)
next
  case False
  let ?k = "(src, s, sq)" and ?x = "(hi_now h, src, s, sq)"
  have fresh: "?k \<notin> snd ` set (hi_queue h)" and wf: "distinct (map snd (hi_queue h))"
      "dom (hi_map h) = snd ` set (hi_queue h)" "length (hi_queue h) \<le> 10000"
    using False assms by (simp_all add: wf_history_def)
  show ?thesis
  proof (cases "length (hi_queue h) = 10000")
    case True
    then obtain y q where q: "hi_queue h = y # q" by (cases "hi_queue h") auto
    let ?h = "h\<lparr>hi_queue := q @ [?x], hi_map := ((hi_map h)(?k \<mapsto> True))(snd y := None)\<rparr>"
    have "dom (hi_map ?h) = insert ?k (dom (hi_map h)) - {snd y}" by auto
    then have "dom (hi_map ?h) = snd ` set (q @ [?x])"
      using wf(1) fresh unfolding wf(2) q by (simp add: insert_Diff_if)
    then have "wf_history ?h" using wf fresh True unfolding q by (simp add: wf_history_def)
    moreover have "already_received_broadcast h src s sq = (False, ?h)"
      using False True q by (simp add: already_received_broadcast_def Let_def domIff)
    ultimately show ?thesis using new [of ?h "[y]" q] False q True by simp
  next
    case short: False
    let ?h = "h\<lparr>hi_queue := hi_queue h @ [?x], hi_map := (hi_map h)(?k \<mapsto> True)\<rparr>"
    have "dom (hi_map ?h) = snd ` set (hi_queue ?h)" using wf(2) by auto
    then have "wf_history ?h" using wf fresh short by (simp add: wf_history_def)
    moreover have "already_received_broadcast h src s sq = (False, ?h)"
      using False short wf(3) by (simp add: already_received_broadcast_def Let_def domIff)
    ultimately show ?thesis using new [of ?h "[]" "hi_queue h"] False by simp
  qed
qed

lemma expire_spec:
  assumes "distinct (map snd q)" "dom m = snd ` set q" "expire now q m = (q', m')"
  shows "q' = dropWhile (\<lambda>(t, _). now \<ge> t + HISTORY_TIMEOUT_MS) q \<and> dom m' = snd ` set q' \<and> distinct (map snd q')"
  using assms
proof (induction now q m arbitrary: q' m' rule: expire.induct)
  case (2 now t key q m)
  show ?case
  proof (cases "now \<ge> t + HISTORY_TIMEOUT_MS")
    case True
    have "dom (m(key := None)) = dom m - {key}" by auto
    then have dom: "dom (m(key := None)) = snd ` set q" using 2(2) unfolding 2(3) by simp
    have "distinct (map snd q)" "expire now q (m(key := None)) = (q', m')" using 2(2,4) True by simp_all
    from 2(1) [OF True this(1) dom this(2)] True show ?thesis by auto
  next
    case False
    then have "q' = (t, key) # q" "m' = m" using 2(4) by simp_all
    then show ?thesis using 2(2,3) False by simp
  qed
qed simp

lemma set_ts_spec:
  assumes "wf_history h"
  shows "hi_queue (set_ts h now) = dropWhile (\<lambda>(t, _). now \<ge> t + HISTORY_TIMEOUT_MS) (hi_queue h)"
    "hi_now (set_ts h now) = now" "wf_history (set_ts h now)"
proof -
  obtain q m where e: "expire now (hi_queue h) (hi_map h) = (q, m)" by fastforce
  have s: "q = dropWhile (\<lambda>(t, _). now \<ge> t + HISTORY_TIMEOUT_MS) (hi_queue h) \<and> dom m = snd ` set q \<and> distinct (map snd q)"
    using assms by (intro expire_spec [OF _ _ e]) (auto simp: wf_history_def)
  moreover have "length q \<le> length (hi_queue h)" using s by (simp add: length_dropWhile_le)
  ultimately show "hi_queue (set_ts h now) = dropWhile (\<lambda>(t, _). now \<ge> t + HISTORY_TIMEOUT_MS) (hi_queue h)"
      "hi_now (set_ts h now) = now" "wf_history (set_ts h now)"
    using assms e by (auto simp: set_ts_def wf_history_def)
qed

interpretation worker_history: broadcast_history already_received_broadcast "\<lambda>h. dom (hi_map h)" wf_history
proof unfold_locales
  fix h src s sq
  assume wf: "wf_history h"
  show "fst (already_received_broadcast h src s sq) \<longleftrightarrow> (src, s, sq) \<in> dom (hi_map h)"
    using wf by (cases rule: received_cases [of h src s sq]) auto
  show "wf_history (snd (already_received_broadcast h src s sq))"
    using wf by (cases rule: received_cases [of h src s sq]) (auto simp: wf)
  show "snd (already_received_broadcast h src s sq) = h" if "(src, s, sq) \<in> dom (hi_map h)"
    using wf that by (cases rule: received_cases [of h src s sq]) auto
  show "(src, s, sq) \<in> dom (hi_map (snd (already_received_broadcast h src s sq)))"
    using wf
  proof (cases rule: received_cases [of h src s sq])
    case (new h' dropped rest)
    have "(src, s, sq) \<in> snd ` set (hi_queue h')" unfolding new(5) by simp
    then show ?thesis using new(2,8) by (simp add: wf_history_def)
  qed auto
qed

subsection \<open>How long a broadcast is remembered\<close>

datatype history_event = Received bcast_key | Clock time

fun history_step :: "history_event \<Rightarrow> history \<Rightarrow> history" where
  "history_step (Received (src, s, sq)) h = snd (already_received_broadcast h src s sq)"
| "history_step (Clock now) h = set_ts h now"

text \<open>The entry \<open>e\<close> sits in the queue with at most \<open>n\<close> later arrivals behind it.\<close>

definition kept :: "time \<times> bcast_key \<Rightarrow> nat \<Rightarrow> history \<Rightarrow> bool" where
  "kept e n h \<longleftrightarrow> wf_history h \<and> (\<exists>pre post. hi_queue h = pre @ e # post \<and> length post \<le> n)"

lemma kept_received:
  assumes "kept e n h" "n < 9999"
  shows "kept e (Suc n) (history_step (Received k) h)"
proof -
  obtain src s sq where k: "k = (src, s, sq)" by (cases k)
  obtain pre post where q: "hi_queue h = pre @ e # post" "length post \<le> n" and wf: "wf_history h"
    using assms(1) by (auto simp: kept_def)
  show ?thesis
    using wf
  proof (cases rule: received_cases [of h src s sq])
    case again
    then show ?thesis using wf q by (fastforce simp: k kept_def)
  next
    case (new h' dropped rest)
    have "\<exists>pre'. rest = pre' @ e # post"
    proof (cases dropped)
      case Nil
      then show ?thesis using q new(4) by auto
    next
      case (Cons x xs)
      then have "pre @ e # post = x # rest" "length rest = 9999" using new(4,6,7) q by auto
      then show ?thesis using q(2) assms(2) by (cases pre) auto
    qed
    then obtain pre' where "hi_queue h' = pre' @ e # (post @ [(hi_now h, src, s, sq)])"
      using new(5) by auto
    then have "\<exists>pre post. hi_queue h' = pre @ e # post \<and> length post \<le> Suc n"
      using q(2) by (intro exI [of _ pre'] exI [of _ "post @ [(hi_now h, src, s, sq)]"]) simp
    then show ?thesis using new(2,8) by (simp add: k kept_def)
  qed
qed

lemma kept_clock:
  assumes "kept (t, k) n h" "now < t + HISTORY_TIMEOUT_MS"
  shows "kept (t, k) n (history_step (Clock now) h)"
proof -
  obtain pre post where q: "hi_queue h = pre @ (t, k) # post" "length post \<le> n" and wf: "wf_history h"
    using assms(1) by (auto simp: kept_def)
  have "dropWhile (\<lambda>(t, _). now \<ge> t + HISTORY_TIMEOUT_MS) (pre @ (t, k) # post) =
      dropWhile (\<lambda>(t, _). now \<ge> t + HISTORY_TIMEOUT_MS) pre @ (t, k) # post"
    using assms(2) by (induction pre) auto
  then show ?thesis
    using set_ts_spec [OF wf, of now] q by (auto simp: kept_def)
qed

lemma kept_run:
  assumes "kept (t, k) n h" "n + length evs \<le> 9999" "\<forall>now. Clock now \<in> set evs \<longrightarrow> now < t + HISTORY_TIMEOUT_MS"
  shows "kept (t, k) (n + length evs) (fold history_step evs h)"
  using assms
proof (induction evs arbitrary: n h)
  case (Cons ev evs)
  have "kept (t, k) (Suc n) (history_step ev h)"
  proof (cases ev)
    case (Received x)
    then show ?thesis using kept_received [OF Cons.prems(1)] Cons.prems(2) by simp
  next
    case (Clock now)
    have "kept (t, k) n (history_step ev h)"
      unfolding Clock by (rule kept_clock [OF Cons.prems(1)]) (use Cons.prems(3) Clock in auto)
    then show ?thesis unfolding kept_def by (meson le_SucI)
  qed
  then show ?case using Cons.IH [of "Suc n" "history_step ev h"] Cons.prems by simp
qed simp

text \<open>
  C10. A broadcast is accepted once. After the history has answered that a broadcast is new, whatever other
  broadcasts arrive and however the clock is set in between, the same broadcast is reported as already
  received, as long as the clock has not been moved to 2000 ms or more after the acceptance and fewer than
  10000 further events have been processed.
\<close>

theorem broadcast_accepted_once:
  assumes "wf_history h" "already_received_broadcast h src s sq = (False, h')"
    and "\<forall>now. Clock now \<in> set evs \<longrightarrow> now < hi_now h + HISTORY_TIMEOUT_MS" "length evs < 10000"
  shows "fst (already_received_broadcast (fold history_step evs h') src s sq)"
proof -
  let ?h = "fold history_step evs h'"
  have "kept (hi_now h, src, s, sq) 0 h'"
    using assms(1) by (cases rule: received_cases [of h src s sq]) (use assms(2) in \<open>auto simp: kept_def\<close>)
  then have "kept (hi_now h, src, s, sq) (0 + length evs) ?h" by (rule kept_run) (use assms(3,4) in auto)
  then have "wf_history ?h" "(src, s, sq) \<in> dom (hi_map ?h)" by (auto simp: kept_def wf_history_def)
  then show ?thesis using worker_history.received_answer by simp
qed

lemma broadcast_accepted_once_witness:
  "fst (already_received_broadcast (fold history_step [Clock 1999, Received (Some 4, 5, 6)]
     (snd (already_received_broadcast history_default (Some 1) 2 3))) (Some 1) 2 3)"
proof -
  have "already_received_broadcast history_default (Some 1) 2 3 =
      (False, snd (already_received_broadcast history_default (Some 1) 2 3))"
    by (simp add: already_received_broadcast_def history_default_def Let_def)
  from broadcast_accepted_once [OF history_default_wf this, of "[Clock 1999, Received (Some 4, 5, 6)]"]
  show ?thesis by (simp add: history_default_def HISTORY_TIMEOUT_MS_def)
qed

text \<open>
  C11. A service broadcast is forwarded at most once by a node: with the workers' history, the second routing
  decision for the same source, service and sequence number, taken right after the first by any worker, with
  any routing state, level and relaying node, rejects the message, and the history stays bounded by 10000
  entries and consistent.
\<close>

theorem service_broadcast_once:
  assumes "wf_history h"
    and "derive_action already_received_broadcast h r (ToServices s level sq) src relay = Some (a, h')"
  shows "derive_action already_received_broadcast h' r' (ToServices s level' sq) src relay' = Some (Reject, h') \<and>
    wf_history h'"
  using worker_history.broadcast_once(1,3) [OF assms(1), of r s sq level src relay a h'] assms(2)
  by (simp add: derive_action_def)

lemma service_broadcast_once_witness:
  "\<exists>a h'. derive_action already_received_broadcast history_default (sr_new 1 :: nat shadow_router)
       (ToServices 2 Global 3) (Some 9) None = Some (a, h') \<and>
     derive_action already_received_broadcast h' (sr_new 1 :: nat shadow_router) (ToServices 2 Geo1 3) (Some 9) (Some 4) =
       Some (Reject, h')"
proof -
  obtain a h' where "derive_action already_received_broadcast history_default (sr_new 1 :: nat shadow_router)
      (ToServices 2 Global 3) (Some 9) None = Some (a, h')"
    by (simp add: derive_action_def) (metis surj_pair)
  with service_broadcast_once [OF history_default_wf this] show ?thesis by blast
qed

end
