(* ===== verification/Transport_Msg.thy ===== *)
theory Transport_Msg
  imports Shadow_Router
begin

text \<open>
  The wire format of the overlay (\<^verbatim>\<open>packages/network/src/base/msg.rs\<close>): the header codec, the in-place
  changes of the time-to-live, and messages as a header followed by a payload.

  \<open>to_bytes\<close> writes into a slice the caller supplies, as the source does; for a \<^verbatim>\<open>ToService\<close> route three of its
  bytes are skipped and keep what the slice held. The network buffer type is not part of the repository: a
  message's buffer is its byte list, and the memory that a header is written into is an argument.
\<close>

unbundle bit_operations_syntax

definition DEFAULT_MSG_TTL :: u8 where "DEFAULT_MSG_TTL = 64"
definition ROUTE_RULE_DIRECT :: u8 where "ROUTE_RULE_DIRECT = 0"
definition ROUTE_RULE_TO_NODE :: u8 where "ROUTE_RULE_TO_NODE = 1"
definition ROUTE_RULE_TO_SERVICE :: u8 where "ROUTE_RULE_TO_SERVICE = 2"
definition ROUTE_RULE_TO_SERVICES :: u8 where "ROUTE_RULE_TO_SERVICES = 3"
definition ROUTE_RULE_TO_KEY :: u8 where "ROUTE_RULE_TO_KEY = 4"

lemmas route_consts = ROUTE_RULE_DIRECT_def ROUTE_RULE_TO_NODE_def ROUTE_RULE_TO_SERVICE_def
  ROUTE_RULE_TO_SERVICES_def ROUTE_RULE_TO_KEY_def

datatype header_error = InvalidVersion | InvalidRoute | TooSmall

record header =
  h_version :: u8
  h_encrypt :: bool
  h_route :: route_rule
  h_ttl :: u8
  h_feature :: u8
  h_meta :: u8
  h_from_node :: "node_id option"

definition header_is_secure :: "u8 \<Rightarrow> bool" where
  "header_is_secure first_byte \<longleftrightarrow> first_byte AND 32 \<noteq> 0"

definition header_build :: "u8 \<Rightarrow> u8 \<Rightarrow> route_rule \<Rightarrow> header" where
  "header_build feature meta route =
     \<lparr>h_version = 0, h_encrypt = False, h_route = route, h_ttl = DEFAULT_MSG_TTL,
      h_feature = feature, h_meta = meta, h_from_node = None\<rparr>"

definition header_new :: header where
  "header_new = header_build 0 0 Direct"

definition set_ttl :: "header \<Rightarrow> u8 \<Rightarrow> header" where "set_ttl h v = h\<lparr>h_ttl := v\<rparr>"
definition set_encrypt :: "header \<Rightarrow> bool \<Rightarrow> header" where "set_encrypt h v = h\<lparr>h_encrypt := v\<rparr>"
definition set_from_node :: "header \<Rightarrow> node_id option \<Rightarrow> header" where "set_from_node h v = h\<lparr>h_from_node := v\<rparr>"
definition set_feature :: "header \<Rightarrow> u8 \<Rightarrow> header" where "set_feature h v = h\<lparr>h_feature := v\<rparr>"
definition set_meta :: "header \<Rightarrow> u8 \<Rightarrow> header" where "set_meta h v = h\<lparr>h_meta := v\<rparr>"
definition set_route :: "header \<Rightarrow> route_rule \<Rightarrow> header" where "set_route h v = h\<lparr>h_route := v\<rparr>"

definition serialize_size :: "header \<Rightarrow> nat" where
  "serialize_size h =
     4 + (if h_from_node h \<noteq> None then 4 else 0) + (if h_route h = Direct then 0 else 4)"

text \<open>\<^verbatim>\<open>to_be_bytes\<close> and \<^verbatim>\<open>from_be_bytes\<close>.\<close>

definition be32 :: "u32 \<Rightarrow> bytes" where
  "be32 w = [ucast (drop_bit 24 w), ucast (drop_bit 16 w), ucast (drop_bit 8 w), ucast w]"

definition of_be32 :: "u8 \<Rightarrow> u8 \<Rightarrow> u8 \<Rightarrow> u8 \<Rightarrow> u32" where
  "of_be32 a b c d = push_bit 24 (ucast a) OR push_bit 16 (ucast b) OR push_bit 8 (ucast c) OR ucast d"

definition be16 :: "u16 \<Rightarrow> bytes" where
  "be16 w = [ucast (drop_bit 8 w), ucast w]"

definition of_be16 :: "u8 \<Rightarrow> u8 \<Rightarrow> u16" where
  "of_be16 a b = push_bit 8 (ucast a) OR ucast b"

text \<open>\<^verbatim>\<open>copy_from_slice\<close> at an offset.\<close>

definition copy_at :: "nat \<Rightarrow> bytes \<Rightarrow> bytes \<Rightarrow> bytes" where
  "copy_at p bs out = take p out @ bs @ drop (p + length bs) out"

definition route_type :: "route_rule \<Rightarrow> u8" where
  "route_type r =
     (case r of
        Direct \<Rightarrow> ROUTE_RULE_DIRECT
      | ToNode _ \<Rightarrow> ROUTE_RULE_TO_NODE
      | ToService _ \<Rightarrow> ROUTE_RULE_TO_SERVICE
      | ToServices _ _ _ \<Rightarrow> ROUTE_RULE_TO_SERVICES
      | ToKey _ \<Rightarrow> ROUTE_RULE_TO_KEY)"

definition first_byte :: "header \<Rightarrow> u8" where
  "first_byte h =
     push_bit 6 (h_version h) OR (if h_encrypt h then push_bit 5 1 else 0) OR
     (if h_from_node h \<noteq> None then push_bit 4 1 else 0) OR (route_type (h_route h) AND 15)"

text \<open>The write of the route destination, and the advanced write position.\<close>

definition put_route :: "route_rule \<Rightarrow> nat \<Rightarrow> bytes \<Rightarrow> bytes \<times> nat" where
  "put_route r p out =
     (case r of
        Direct \<Rightarrow> (out, p)
      | ToNode n \<Rightarrow> (copy_at p (be32 n) out, p + 4)
      | ToService s \<Rightarrow> (out[p := s], p + 4)
      | ToServices s level sq \<Rightarrow> (copy_at (p + 2) (be16 sq) (out[p := s, p + 1 := level_to_u8 level]), p + 4)
      | ToKey k \<Rightarrow> (copy_at p (be32 k) out, p + 4))"

definition to_bytes :: "header \<Rightarrow> bytes \<Rightarrow> (nat \<times> bytes) option" where
  "to_bytes h out =
     (if length out < serialize_size h then None
      else
        (let out1 = out[0 := first_byte h, 1 := h_ttl h, 2 := h_feature h, 3 := h_meta h];
             (out2, p) = put_route (h_route h) 4 out1;
             out3 = (case h_from_node h of Some n \<Rightarrow> copy_at p (be32 n) out2 | None \<Rightarrow> out2)
         in Some (4 + (if h_from_node h \<noteq> None then 4 else 0) + (if h_route h = Direct then 0 else 4), out3)))"

definition rewrite_ttl :: "bytes \<Rightarrow> u8 \<Rightarrow> bytes option" where
  "rewrite_ttl buf v = (if length buf < 2 then None else Some (buf[1 := v]))"

definition decrease_ttl :: "bytes \<Rightarrow> bool \<times> bytes" where
  "decrease_ttl buf =
     (if length buf < 2 then (False, buf)
      else if buf ! 1 = 0 then (False, buf)
      else (True, buf[1 := buf ! 1 - 1]))"

text \<open>The route destination at offset 4.\<close>

definition get_route :: "u8 \<Rightarrow> bytes \<Rightarrow> header_error + (route_rule \<times> nat)" where
  "get_route rt bs =
     (if rt = ROUTE_RULE_DIRECT then Inr (Direct, 4)
      else if rt = ROUTE_RULE_TO_NODE then
        (if length bs < 8 then Inl TooSmall else Inr (ToNode (of_be32 (bs ! 4) (bs ! 5) (bs ! 6) (bs ! 7)), 8))
      else if rt = ROUTE_RULE_TO_SERVICE then
        (if length bs < 8 then Inl TooSmall else Inr (ToService (bs ! 4), 8))
      else if rt = ROUTE_RULE_TO_SERVICES then
        (if length bs < 8 then Inl TooSmall
         else Inr (ToServices (bs ! 4) (level_of_u8 (bs ! 5)) (of_be16 (bs ! 6) (bs ! 7)), 8))
      else if rt = ROUTE_RULE_TO_KEY then
        (if length bs < 8 then Inl TooSmall else Inr (ToKey (of_be32 (bs ! 4) (bs ! 5) (bs ! 6) (bs ! 7)), 8))
      else Inl InvalidRoute)"

definition header_try_from :: "bytes \<Rightarrow> header_error + header" where
  "header_try_from bs =
     (if length bs < 4 then Inl TooSmall
      else
        (let version = drop_bit 6 (bs ! 0);
             e_bit = (drop_bit 5 (bs ! 0) AND 1 = 1);
             n_bit = (drop_bit 4 (bs ! 0) AND 1 = 1);
             rt = bs ! 0 AND 15
         in if version \<noteq> 0 then Inl InvalidVersion
            else case get_route rt bs of
                Inl e \<Rightarrow> Inl e
              | Inr (route, p) \<Rightarrow>
                  if n_bit \<and> length bs < p + 4 then Inl TooSmall
                  else Inr \<lparr>h_version = version, h_encrypt = e_bit, h_route = route, h_ttl = bs ! 1,
                            h_feature = bs ! 2, h_meta = bs ! 3,
                            h_from_node = (if n_bit
                              then Some (of_be32 (bs ! p) (bs ! (p + 1)) (bs ! (p + 2)) (bs ! (p + 3))) else None)\<rparr>))"

subsection \<open>Messages\<close>

record transport_msg =
  tm_buffer :: bytes
  tm_header :: header
  tm_payload_start :: nat

definition is_secure_header :: "u8 \<Rightarrow> bool" where
  "is_secure_header b \<longleftrightarrow> drop_bit 2 b AND 1 = 1"

text \<open>\<open>spare\<close> is the memory in front of (for \<open>build_raw\<close>) or behind (for \<open>build\<close>) the buffer's content that the
  header is written into; \<^verbatim>\<open>expect\<close> panics when it is too short.\<close>

definition msg_build_raw :: "bytes \<Rightarrow> header \<Rightarrow> bytes \<Rightarrow> transport_msg run" where
  "msg_build_raw spare h payload =
     do {
       (n, out) \<leftarrow> to_bytes h spare;
       Some \<lparr>tm_buffer = out @ payload, tm_header = h, tm_payload_start = serialize_size h\<rparr>
     }"

definition msg_build :: "bytes \<Rightarrow> u8 \<Rightarrow> u8 \<Rightarrow> route_rule \<Rightarrow> bytes \<Rightarrow> transport_msg run" where
  "msg_build spare feature meta route payload =
     (let h = set_route (set_meta (set_feature header_new feature) meta) route in
      do {
        (n, out) \<leftarrow> to_bytes h spare;
        Some \<lparr>tm_buffer = out @ payload, tm_header = h, tm_payload_start = serialize_size h\<rparr>
      })"

definition msg_payload :: "transport_msg \<Rightarrow> bytes run" where
  "msg_payload t =
     (if tm_payload_start t \<le> length (tm_buffer t) then Some (drop (tm_payload_start t) (tm_buffer t)) else None)"

definition msg_try_from :: "bytes \<Rightarrow> header_error + transport_msg" where
  "msg_try_from bs =
     (case header_try_from bs of
        Inl e \<Rightarrow> Inl e
      | Inr h \<Rightarrow> Inr \<lparr>tm_buffer = bs, tm_header = h, tm_payload_start = serialize_size h\<rparr>)"

subsection \<open>Packet metadata\<close>

text \<open>\<^verbatim>\<open>base/feature.rs\<close>: the metadata of an incoming and an outgoing packet.\<close>

record net_incoming_meta =
  im_source :: "node_id option"
  im_ttl :: u8
  im_meta :: u8
  im_secure :: bool

record net_outgoing_meta =
  om_source :: bool
  om_ttl :: u8
  om_meta :: u8
  om_secure :: bool

definition incoming_of_header :: "header \<Rightarrow> net_incoming_meta" where
  "incoming_of_header h = \<lparr>im_source = h_from_node h, im_ttl = h_ttl h, im_meta = h_meta h, im_secure = h_encrypt h\<rparr>"

definition outgoing_secure :: net_outgoing_meta where
  "outgoing_secure = \<lparr>om_source = False, om_ttl = DEFAULT_MSG_TTL, om_meta = 0, om_secure = True\<rparr>"

definition to_header :: "net_outgoing_meta \<Rightarrow> u8 \<Rightarrow> route_rule \<Rightarrow> node_id \<Rightarrow> header" where
  "to_header m feature rule n =
     set_encrypt (set_from_node (set_ttl (header_build feature (om_meta m) rule) (om_ttl m))
       (if om_source m then Some n else None)) (om_secure m)"

definition to_incoming :: "net_outgoing_meta \<Rightarrow> node_id \<Rightarrow> net_incoming_meta" where
  "to_incoming m n =
     \<lparr>im_source = (if om_source m then Some n else None), im_ttl = om_ttl m, im_meta = om_meta m, im_secure = om_secure m\<rparr>"

subsection \<open>Integers on the wire\<close>

lemma be32_bytes [simp]: "length (be32 w) = 4"
  by (simp add: be32_def)

lemma of_be32_be32:
  "of_be32 (ucast (drop_bit 24 w)) (ucast (drop_bit 16 w)) (ucast (drop_bit 8 w)) (ucast w) = w"
proof (rule bit_word_eqI)
  fix k assume "k < LENGTH(32)"
  then show "bit (of_be32 (ucast (drop_bit 24 w)) (ucast (drop_bit 16 w)) (ucast (drop_bit 8 w)) (ucast w)) k = bit w k"
    by (cases "k < 8"; cases "k < 16"; cases "k < 24")
       (auto simp: of_be32_def bit_or_iff bit_push_bit_iff bit_ucast_iff bit_drop_bit_eq not_less)
qed

lemma of_be16_be16: "of_be16 (ucast (drop_bit 8 w)) (ucast w) = w"
proof (rule bit_word_eqI)
  fix k assume "k < LENGTH(16)"
  then show "bit (of_be16 (ucast (drop_bit 8 w)) (ucast w)) k = bit w k"
    by (auto simp: of_be16_def bit_or_iff bit_push_bit_iff bit_ucast_iff bit_drop_bit_eq not_less)
qed

lemma be32_of_be32: "be32 (of_be32 a b c d) = [a, b, c, d]"
proof -
  have "ucast (drop_bit 24 (of_be32 a b c d)) = a" "ucast (drop_bit 16 (of_be32 a b c d)) = b"
    "ucast (drop_bit 8 (of_be32 a b c d)) = c" "ucast (of_be32 a b c d) = d"
    by (rule bit_word_eqI; auto simp: of_be32_def bit_or_iff bit_push_bit_iff bit_ucast_iff bit_drop_bit_eq
        dest: bit_imp_le_length)+
  then show ?thesis by (simp add: be32_def)
qed

lemma be16_of_be16: "be16 (of_be16 a b) = [a, b]"
proof -
  have "ucast (drop_bit 8 (of_be16 a b)) = a" "ucast (of_be16 a b) = b"
    by (rule bit_word_eqI; auto simp: of_be16_def bit_or_iff bit_push_bit_iff bit_ucast_iff bit_drop_bit_eq
        dest: bit_imp_le_length)+
  then show ?thesis by (simp add: be16_def)
qed

lemma level_roundtrip [simp]: "level_of_u8 (level_to_u8 l) = l"
  by (cases l) (simp_all add: level_of_u8_def)

lemma level_to_of: "v \<le> 3 \<Longrightarrow> level_to_u8 (level_of_u8 v) = v"
proof -
  assume "v \<le> 3"
  then have "unat v \<le> 3" by (simp add: word_le_nat_alt)
  then have "unat v = unat (0 :: u8) \<or> unat v = unat (1 :: u8) \<or> unat v = unat (2 :: u8) \<or> unat v = unat (3 :: u8)" by auto
  then have "v = 0 \<or> v = 1 \<or> v = 2 \<or> v = 3" by (simp only: word_unat_eq_iff)
  then show ?thesis by (auto simp: level_of_u8_def)
qed

subsection \<open>The header as an explicit byte list\<close>

lemma first_byte_bits:
  assumes "h_version h = 0"
  shows "drop_bit 6 (first_byte h) = 0" "drop_bit 5 (first_byte h) AND 1 = 1 \<longleftrightarrow> h_encrypt h"
    "drop_bit 4 (first_byte h) AND 1 = 1 \<longleftrightarrow> h_from_node h \<noteq> None" "first_byte h AND 15 = route_type (h_route h)"
    "header_is_secure (first_byte h) \<longleftrightarrow> h_encrypt h"
  using assms
  by (cases "h_encrypt h"; cases "h_from_node h"; cases "h_route h";
      simp add: first_byte_def route_type_def route_consts header_is_secure_def)+

text \<open>The four bytes of a route destination; \<open>old\<close> is what the slice held there.\<close>

definition route_bytes :: "route_rule \<Rightarrow> bytes \<Rightarrow> bytes" where
  "route_bytes r old =
     (case r of
        Direct \<Rightarrow> []
      | ToNode n \<Rightarrow> be32 n
      | ToService s \<Rightarrow> s # drop 1 (take 4 old)
      | ToServices s level sq \<Rightarrow> [s, level_to_u8 level] @ be16 sq
      | ToKey k \<Rightarrow> be32 k)"

definition from_bytes :: "node_id option \<Rightarrow> bytes" where
  "from_bytes f = (case f of Some n \<Rightarrow> be32 n | None \<Rightarrow> [])"

lemma split_prefix:
  assumes "n \<le> length xs"
  obtains ys zs where "xs = ys @ zs" "length ys = n"
  using assms by (metis append_take_drop_id length_take min_absorb2)

lemma explicit_4: "length xs = 4 \<Longrightarrow> \<exists>a b c d. xs = [a, b, c, d]"
  by (auto simp: length_Suc_conv numeral_eq_Suc)

lemma copy_at_append: "length pre = p \<Longrightarrow> length mid = length bs \<Longrightarrow> copy_at p bs (pre @ mid @ post) = pre @ bs @ post"
  by (simp add: copy_at_def)

lemma put_route_run:
  assumes "length pre = 4" "length mid = (if r = Direct then 0 else 4)"
  shows "put_route r 4 (pre @ mid @ post) = (pre @ route_bytes r mid @ post, 4 + length mid)"
proof (cases "r = Direct")
  case True
  then show ?thesis using assms by (simp add: put_route_def route_bytes_def)
next
  case False
  then obtain a b c d where mid: "mid = [a, b, c, d]" using explicit_4 assms(2) by fastforce
  obtain e f g h where pre: "pre = [e, f, g, h]" using explicit_4 [OF assms(1)] by blast
  show ?thesis
    using False by (cases r) (simp_all add: put_route_def route_bytes_def copy_at_def mid pre be32_def be16_def)
qed

lemma to_bytes_run:
  assumes "out = pre @ mid @ src @ post" "length pre = 4" "length mid = (if h_route h = Direct then 0 else 4)"
    and "length src = (if h_from_node h = None then 0 else 4)"
  shows "to_bytes h out = Some (serialize_size h,
    [first_byte h, h_ttl h, h_feature h, h_meta h] @ route_bytes (h_route h) mid @ from_bytes (h_from_node h) @ post)"
proof -
  let ?hd = "[first_byte h, h_ttl h, h_feature h, h_meta h]"
  obtain a b c d where pre: "pre = [a, b, c, d]" using explicit_4 [OF assms(2)] by blast
  have upd: "out[0 := first_byte h, 1 := h_ttl h, 2 := h_feature h, 3 := h_meta h] = ?hd @ mid @ src @ post"
    by (simp add: assms(1) pre)
  have len: "length (route_bytes (h_route h) mid) = length mid"
    using assms(3) by (cases "h_route h") (simp_all add: route_bytes_def be32_def be16_def)
  have "(case h_from_node h of Some n \<Rightarrow> copy_at (4 + length mid) (be32 n) (?hd @ route_bytes (h_route h) mid @ src @ post)
      | None \<Rightarrow> ?hd @ route_bytes (h_route h) mid @ src @ post) =
      ?hd @ route_bytes (h_route h) mid @ from_bytes (h_from_node h) @ post"
    using assms(4) len copy_at_append [of "?hd @ route_bytes (h_route h) mid" "4 + length mid" src _ post]
    by (cases "h_from_node h") (simp_all add: from_bytes_def)
  moreover have "\<not> length out < serialize_size h"
    using assms by (simp add: serialize_size_def)
  moreover have "put_route (h_route h) 4 (?hd @ mid @ src @ post) = (?hd @ route_bytes (h_route h) mid @ src @ post, 4 + length mid)"
    by (rule put_route_run) (use assms(3) in auto)
  ultimately show ?thesis
    by (simp only: to_bytes_def upd Let_def case_prod_conv if_False serialize_size_def)
qed

subsection \<open>Properties\<close>

lemma to_bytes_split:
  assumes "serialize_size h \<le> length out"
  obtains pre mid src post where "out = pre @ mid @ src @ post" "length pre = 4"
    "length mid = (if h_route h = Direct then 0 else 4)" "length src = (if h_from_node h = None then 0 else 4)"
    "post = drop (serialize_size h) out"
proof -
  define r f where rf: "r = (if h_route h = Direct then 0 else 4 :: nat)" "f = (if h_from_node h = None then 0 else 4 :: nat)"
  have size: "serialize_size h = 4 + r + f" by (simp add: serialize_size_def rf)
  have "4 \<le> length out" using assms size by simp
  then obtain pre r1 where 1: "out = pre @ r1" "length pre = 4" by (rule split_prefix)
  have "r \<le> length r1" using assms size 1 by simp
  then obtain mid r2 where 2: "r1 = mid @ r2" "length mid = r" by (rule split_prefix)
  have "f \<le> length r2" using assms size 1 2 by simp
  then obtain src post where 3: "r2 = src @ post" "length src = f" by (rule split_prefix)
  show ?thesis
  proof (rule that)
    show "out = pre @ mid @ src @ post" by (simp add: 1(1) 2(1) 3(1))
    show "length pre = 4" by (rule 1(2))
    show "length mid = (if h_route h = Direct then 0 else 4)" using 2(2) rf(1) by simp
    show "length src = (if h_from_node h = None then 0 else 4)" using 3(2) rf(2) by simp
    show "post = drop (serialize_size h) out" by (simp add: size 1 2 3)
  qed
qed

lemma decode_explicit:
  assumes "h_version h = 0" "length mid = (if h_route h = Direct then 0 else 4)"
  shows "header_try_from ([first_byte h, h_ttl h, h_feature h, h_meta h] @ route_bytes (h_route h) mid @
      from_bytes (h_from_node h) @ post) = Inr h"
proof -
  note bits = first_byte_bits [OF assms(1)]
  define fb where "fb = first_byte h"
  have "header_try_from ([fb, h_ttl h, h_feature h, h_meta h] @ route_bytes (h_route h) mid @ from_bytes (h_from_node h) @ post) =
      Inr \<lparr>h_version = 0, h_encrypt = h_encrypt h, h_route = h_route h, h_ttl = h_ttl h,
           h_feature = h_feature h, h_meta = h_meta h, h_from_node = h_from_node h\<rparr>"
  proof (cases "h_route h = Direct")
    case True
    then show ?thesis
      using bits [folded fb_def]
      by (cases "h_from_node h") (simp_all add: header_try_from_def get_route_def route_type_def route_consts
          route_bytes_def from_bytes_def be32_def of_be32_be32 Let_def)
  next
    case False
    then obtain a b c d where "mid = [a, b, c, d]" using explicit_4 assms(2) by fastforce
    then show ?thesis
      using bits [folded fb_def] False
      by (cases "h_from_node h"; cases "h_route h") (simp_all add: header_try_from_def get_route_def route_type_def
          route_consts route_bytes_def from_bytes_def be32_def be16_def of_be32_be32 of_be16_be16 Let_def)
  qed
  moreover have "h = \<lparr>h_version = 0, h_encrypt = h_encrypt h, h_route = h_route h, h_ttl = h_ttl h,
      h_feature = h_feature h, h_meta = h_meta h, h_from_node = h_from_node h\<rparr>"
    using assms(1) by (cases h) simp
  ultimately show ?thesis by (simp add: fb_def)
qed

text \<open>
  C12. Header round trip. For a header of version 0, \<^verbatim>\<open>to_bytes\<close> succeeds on every slice that is long
  enough, reports \<^verbatim>\<open>serialize_size\<close> bytes written, leaves the rest of the slice untouched, and decoding the
  slice, with whatever payload follows, gives the same header back; on a slice that is too short it refuses.
\<close>

theorem header_roundtrip:
  assumes "h_version h = 0"
  shows "if length out < serialize_size h then to_bytes h out = None
    else \<exists>out'. to_bytes h out = Some (serialize_size h, out') \<and> length out' = length out \<and>
      drop (serialize_size h) out' = drop (serialize_size h) out \<and> header_try_from out' = Inr h"
proof (cases "length out < serialize_size h")
  case True
  then show ?thesis by (simp add: to_bytes_def)
next
  case False
  then have "serialize_size h \<le> length out" by simp
  from to_bytes_split [OF this] obtain pre mid src post where
    split: "out = pre @ mid @ src @ post" "length pre = 4"
    "length mid = (if h_route h = Direct then 0 else 4)" "length src = (if h_from_node h = None then 0 else 4)"
    "post = drop (serialize_size h) out" by blast
  define hb where "hb = [first_byte h, h_ttl h, h_feature h, h_meta h] @ route_bytes (h_route h) mid @ from_bytes (h_from_node h)"
  have len: "length hb = serialize_size h"
    unfolding hb_def using split(3) by (cases "h_route h"; cases "h_from_node h")
      (simp_all add: serialize_size_def route_bytes_def from_bytes_def be32_def be16_def)
  moreover have "length out = serialize_size h + length post" using split(2-4) by (simp add: split(1) serialize_size_def)
  moreover have "to_bytes h out = Some (serialize_size h, hb @ post)"
    using to_bytes_run [OF split(1-4)] by (simp add: hb_def)
  moreover have "header_try_from (hb @ post) = Inr h"
    using decode_explicit [OF assms split(3), of post] by (simp add: hb_def)
  ultimately show ?thesis using False split(5) by simp
qed

lemma header_roundtrip_witness:
  "\<exists>out'. to_bytes (set_from_node (header_build 1 2 (ToServices 3 Geo2 500)) (Some 9)) (replicate 20 7) = Some (12, out') \<and>
     header_try_from out' = Inr (set_from_node (header_build 1 2 (ToServices 3 Geo2 500)) (Some 9))"
  using header_roundtrip [of "set_from_node (header_build 1 2 (ToServices 3 Geo2 500)) (Some 9)" "replicate 20 7"]
  by (simp add: serialize_size_def set_from_node_def header_build_def) blast

lemma first_byte_rebuild:
  fixes b :: u8
  assumes "drop_bit 6 b = 0"
  shows "push_bit 6 0 OR (if drop_bit 5 b AND 1 = 1 then push_bit 5 1 else 0) OR
    (if drop_bit 4 b AND 1 = 1 then push_bit 4 1 else 0) OR (b AND 15) = b"
proof (rule bit_word_eqI)
  fix k assume k: "k < LENGTH(8)"
  have high: "\<not> bit b 6" "\<not> bit b 7"
    using arg_cong [OF assms, of "\<lambda>x. bit x 0"] arg_cong [OF assms, of "\<lambda>x. bit x 1"] by (simp_all add: bit_drop_bit_eq)
  have one: "drop_bit n b AND 1 = 1 \<longleftrightarrow> bit b n" for n
    by (simp add: and_one_eq bit_iff_odd_drop_bit odd_iff_mod_2_eq_one)
  have mask: "(15 :: u8) = mask 4" by (simp add: mask_eq_exp_minus_1)
  have flag: "bit (if c then push_bit n 1 else 0 :: u8) k \<longleftrightarrow> c \<and> n = k" for c n
    using k by (auto simp: bit_exp_iff)
  have "bit (push_bit 6 0 OR (if drop_bit 5 b AND 1 = 1 then push_bit 5 1 else 0) OR
      (if drop_bit 4 b AND 1 = 1 then push_bit 4 1 else 0) OR (b AND 15)) k \<longleftrightarrow>
      bit b 5 \<and> 5 = k \<or> bit b 4 \<and> 4 = k \<or> bit b k \<and> k < 4"
    unfolding bit_or_iff bit_and_iff mask bit_mask_iff flag one using k by simp
  moreover have "k < 4 \<or> k = 4 \<or> k = 5 \<or> k = 6 \<or> k = 7" using k by auto
  ultimately show "bit (push_bit 6 0 OR (if drop_bit 5 b AND 1 = 1 then push_bit 5 1 else 0) OR
      (if drop_bit 4 b AND 1 = 1 then push_bit 4 1 else 0) OR (b AND 15)) k = bit b k"
    using high by (metis less_irrefl numeral_less_iff)
qed

lemma get_route_inverse:
  assumes "get_route rt bs = Inr (r, p)" "bs = pre @ post" "length pre = 4"
    and "\<And>x l q. r = ToServices x l q \<Longrightarrow> bs ! 5 \<le> 3"
  shows "route_type r = rt" "p = (if r = Direct then 4 else 8)" "p \<le> length bs"
    "route_bytes r (take (p - 4) post) = take (p - 4) post"
proof -
  obtain a b c d where pre: "pre = [a, b, c, d]" using explicit_4 [OF assms(3)] by blast
  have "route_type r = rt \<and> p = (if r = Direct then 4 else 8) \<and> p \<le> length bs \<and>
      route_bytes r (take (p - 4) post) = take (p - 4) post"
  proof (cases "rt = ROUTE_RULE_DIRECT")
    case True
    then show ?thesis using assms pre by (auto simp: get_route_def route_type_def route_bytes_def)
  next
    case False
    then have "8 \<le> length bs" using assms(1) by (auto simp: get_route_def split: if_splits)
    then have "4 \<le> length post" using assms(2,3) by simp
    then obtain mid post' where "post = mid @ post'" "length mid = 4" by (rule split_prefix)
    then obtain e f g h where "post = e # f # g # h # post'" using explicit_4 by fastforce
    then have bs: "bs = a # b # c # d # e # f # g # h # post'" "post = e # f # g # h # post'" using assms(2) pre by simp_all
    consider "rt = 1" "r = ToNode (of_be32 e f g h)" "p = 8" | "rt = 2" "r = ToService e" "p = 8"
      | "rt = 3" "r = ToServices e (level_of_u8 f) (of_be16 g h)" "p = 8" "f \<le> 3"
      | "rt = 4" "r = ToKey (of_be32 e f g h)" "p = 8"
      using assms(1,4) False unfolding bs(1) by (auto simp: get_route_def route_consts split: if_splits)
    then show ?thesis
      by cases (simp_all add: bs route_type_def route_bytes_def be32_of_be32 be16_of_be16 level_to_of route_consts)
  qed
  then show "route_type r = rt" "p = (if r = Direct then 4 else 8)" "p \<le> length bs"
    "route_bytes r (take (p - 4) post) = take (p - 4) post" by auto
qed

lemma header_try_from_cases:
  assumes "header_try_from bs = Inr h"
  obtains p where "4 \<le> length bs" "drop_bit 6 (bs ! 0) = 0" "h_version h = 0" "get_route (bs ! 0 AND 15) bs = Inr (h_route h, p)"
    "h_encrypt h \<longleftrightarrow> drop_bit 5 (bs ! 0) AND 1 = 1" "h_ttl h = bs ! 1" "h_feature h = bs ! 2" "h_meta h = bs ! 3"
    "h_from_node h \<noteq> None \<longleftrightarrow> drop_bit 4 (bs ! 0) AND 1 = 1"
    "\<And>n. h_from_node h = Some n \<Longrightarrow> p + 4 \<le> length bs \<and> n = of_be32 (bs ! p) (bs ! (p + 1)) (bs ! (p + 2)) (bs ! (p + 3))"
proof -
  obtain r p where "get_route (bs ! 0 AND 15) bs = Inr (r, p)"
    using assms by (auto simp: header_try_from_def Let_def split: if_splits sum.splits)
  with assms show ?thesis
    by (intro that [of p]) (auto simp: header_try_from_def Let_def split: if_splits)
qed

lemma be32_at: "p + 4 \<le> length xs \<Longrightarrow> be32 (of_be32 (xs ! p) (xs ! (p + 1)) (xs ! (p + 2)) (xs ! (p + 3))) = take 4 (drop p xs)"
  by (simp add: be32_of_be32 take_Suc_conv_app_nth numeral_eq_Suc Cons_nth_drop_Suc [symmetric])

text \<open>Decoding and encoding again, where the level byte of a service broadcast is one that the encoder writes.\<close>

lemma header_decode_plain:
  assumes "header_try_from bs = Inr h" "\<And>x l q. h_route h = ToServices x l q \<Longrightarrow> bs ! 5 \<le> 3"
  shows "serialize_size h \<le> length bs \<and> to_bytes h bs = Some (serialize_size h, bs)"
  using assms(1)
proof (cases rule: header_try_from_cases)
  case (1 p)
  obtain pre r1 where pre: "bs = pre @ r1" "length pre = 4" using 1(1) by (rule split_prefix)
  note route = get_route_inverse [OF 1(4) pre assms(2)]
  let ?f = "if h_from_node h = None then 0 else 4 :: nat"
  have size: "serialize_size h = p + ?f" "p + ?f \<le> length bs"
    using 1(10) route(2,3) by (auto simp: serialize_size_def)
  define mid src post where parts: "mid = take (p - 4) r1" "src = take ?f (drop (p - 4) r1)" "post = drop ?f (drop (p - 4) r1)"
  have bs: "bs = pre @ mid @ src @ post" unfolding pre(1) parts append_take_drop_id by (rule refl)
  have lens: "length mid = (if h_route h = Direct then 0 else 4)" "length src = ?f"
    using size pre route(2) by (auto simp: parts)
  have fb: "first_byte h = bs ! 0"
    using first_byte_rebuild [OF 1(2)] 1(3,5,9) route(1) by (simp add: first_byte_def)
  have src: "from_bytes (h_from_node h) = src"
  proof (cases "h_from_node h")
    case (Some n)
    have "take 4 (drop p bs) = src" using Some pre route(2) by (auto simp: parts)
    then show ?thesis using Some 1(10) [OF Some] be32_at [of p bs] by (simp add: from_bytes_def)
  qed (simp add: from_bytes_def parts)
  have "[bs ! 0, bs ! 1, bs ! 2, bs ! 3] = pre" using explicit_4 [OF pre(2)] by (auto simp: pre)
  then show ?thesis
    using to_bytes_run [OF bs pre(2) lens] size fb src route(4) 1(6-8) bs by (simp add: parts(1) [symmetric])
qed

text \<open>The level byte of a service broadcast counts only up to 3, in reading and in writing.\<close>

lemma header_level_byte:
  assumes "header_try_from bs = Inr h" "h_route h = ToServices x l q"
  shows "header_try_from (bs[5 := min (bs ! 5) 3]) = Inr h" "8 \<le> length bs"
proof -
  have "level_of_u8 (min v 3) = level_of_u8 v" for v
    by (cases "v \<le> 3") (auto simp: level_of_u8_def min_def)
  then have "get_route rt (bs[5 := min (bs ! 5) 3]) = get_route rt bs" if "rt \<noteq> ROUTE_RULE_TO_NODE" "rt \<noteq> ROUTE_RULE_TO_KEY" for rt
    using that by (simp add: get_route_def)
  moreover obtain p where p: "get_route (bs ! 0 AND 15) bs = Inr (ToServices x l q, p)"
    using header_try_from_cases [OF assms(1)] assms(2) by metis
  then have "bs ! 0 AND 15 = ROUTE_RULE_TO_SERVICES" "8 \<le> length bs" "p = 8"
    by (simp_all add: get_route_def split: if_splits)
  ultimately show "header_try_from (bs[5 := min (bs ! 5) 3]) = Inr h" "8 \<le> length bs"
    using assms(1) p by (auto simp: header_try_from_def Let_def route_consts split: if_splits)
qed

lemma to_bytes_level:
  assumes "h_route h = ToServices x l q" "serialize_size h \<le> length bs"
  shows "to_bytes h (bs[5 := v]) = to_bytes h bs"
proof -
  let ?f = "if h_from_node h = None then 0 else 4 :: nat"
  have "8 + ?f \<le> length bs" using assms by (auto simp: serialize_size_def)
  then obtain pre r1 where 1: "bs = pre @ r1" "length pre = 4" using split_prefix [of 4 bs] by auto
  obtain mid r2 where 2: "r1 = mid @ r2" "length mid = 4" using split_prefix [of 4 r1] 1 \<open>8 + ?f \<le> length bs\<close> by auto
  obtain src post where 3: "r2 = src @ post" "length src = ?f" using split_prefix [of ?f r2] 1 2 \<open>8 + ?f \<le> length bs\<close> by auto
  have "bs[5 := v] = pre @ mid[1 := v] @ src @ post" using 1 2 3 by (simp add: list_update_append)
  from to_bytes_run [OF this 1(2), of h] to_bytes_run [of bs pre mid src post h] 1 2 3 assms(1)
  show ?thesis by (simp add: route_bytes_def)
qed

text \<open>
  C13. Decoding is exact. When \<^verbatim>\<open>try_from\<close> accepts a byte string, the header it returns occupies a prefix of
  it, so that taking the payload never panics, and writing that header back onto the same bytes changes none of
  them, with one exception: the level byte of a service broadcast, where every value above 3 decodes to the group
  level and is written back as 3.
\<close>

theorem header_decode_exact:
  assumes "header_try_from bs = Inr h"
  shows "serialize_size h \<le> length bs \<and>
    to_bytes h bs = Some (serialize_size h, case h_route h of ToServices _ _ _ \<Rightarrow> bs[5 := min (bs ! 5) 3] | _ \<Rightarrow> bs)"
proof (cases "\<exists>x l q. h_route h = ToServices x l q")
  case True
  then obtain x l q where r: "h_route h = ToServices x l q" by blast
  let ?bs = "bs[5 := min (bs ! 5) 3]"
  note lv = header_level_byte [OF assms r]
  have "serialize_size h \<le> length ?bs \<and> to_bytes h ?bs = Some (serialize_size h, ?bs)"
    using lv by (intro header_decode_plain) simp_all
  then show ?thesis using to_bytes_level [OF r, of bs] by (simp add: r)
next
  case False
  then show ?thesis using header_decode_plain [OF assms] by (auto split: route_rule.split)
qed

lemma header_decode_exact_witness:
  "header_try_from [33, 5, 6, 7, 0, 0, 1, 2, 9] =
     Inr \<lparr>h_version = 0, h_encrypt = True, h_route = ToNode 258, h_ttl = 5, h_feature = 6, h_meta = 7, h_from_node = None\<rparr> \<and>
   to_bytes \<lparr>h_version = 0, h_encrypt = True, h_route = ToNode 258, h_ttl = 5, h_feature = 6, h_meta = 7, h_from_node = None\<rparr>
     [33, 5, 6, 7, 0, 0, 1, 2, 9] = Some (8, [33, 5, 6, 7, 0, 0, 1, 2, 9]) \<and>
   header_try_from [3, 5, 6, 7, 4, 200, 1, 2] =
     Inr \<lparr>h_version = 0, h_encrypt = False, h_route = ToServices 4 Group 258, h_ttl = 5, h_feature = 6, h_meta = 7, h_from_node = None\<rparr> \<and>
   to_bytes \<lparr>h_version = 0, h_encrypt = False, h_route = ToServices 4 Group 258, h_ttl = 5, h_feature = 6, h_meta = 7, h_from_node = None\<rparr>
     [3, 5, 6, 7, 4, 200, 1, 2] = Some (8, [3, 5, 6, 7, 4, 3, 1, 2])"
proof -
  let ?h = "\<lparr>h_version = 0, h_encrypt = True, h_route = ToNode 258, h_ttl = 5, h_feature = 6, h_meta = 7, h_from_node = None\<rparr>"
  let ?g = "\<lparr>h_version = 0, h_encrypt = False, h_route = ToServices 4 Group 258, h_ttl = 5, h_feature = 6, h_meta = 7, h_from_node = None\<rparr>"
  have d: "header_try_from [33, 5, 6, 7, 0, 0, 1, 2, 9] = Inr ?h" "header_try_from [3, 5, 6, 7, 4, 200, 1, 2] = Inr ?g"
    by (simp_all add: header_try_from_def get_route_def route_consts of_be32_def of_be16_def level_of_u8_def)
  from header_decode_exact [OF d(1)] header_decode_exact [OF d(2)] d show ?thesis by (simp add: serialize_size_def min_def)
qed

subsection \<open>Time to live\<close>

text \<open>\<open>k\<close> successive relays, each of which decreases the time to live of the packet.\<close>

fun relays :: "nat \<Rightarrow> bytes \<Rightarrow> bytes option" where
  "relays 0 buf = Some buf"
| "relays (Suc k) buf = (case decrease_ttl buf of (True, buf') \<Rightarrow> relays k buf' | (False, _) \<Rightarrow> None)"

lemma get_route_ttl: "get_route rt (bs[Suc 0 := v]) = get_route rt bs"
  by (simp add: get_route_def)

lemma header_try_from_ttl:
  assumes "header_try_from bs = Inr h"
  shows "header_try_from (bs[Suc 0 := v]) = Inr (h\<lparr>h_ttl := v\<rparr>)"
proof -
  obtain r p where r: "get_route (bs ! 0 AND 15) bs = Inr (r, p)"
    using assms by (auto simp: header_try_from_def Let_def split: if_splits sum.splits)
  then have "p = 4 \<or> p = 8" by (auto simp: get_route_def split: if_splits)
  then show ?thesis
    using assms r by (auto simp: header_try_from_def get_route_ttl Let_def split: if_splits)
qed

lemma decrease_ttl_run:
  assumes "header_try_from bs = Inr h"
  shows "decrease_ttl bs = (if h_ttl h = 0 then (False, bs) else (True, bs[Suc 0 := h_ttl h - 1]))"
  using assms by (cases rule: header_try_from_cases) (auto simp: decrease_ttl_def)

text \<open>
  C14. \<^verbatim>\<open>decrease_ttl\<close> succeeds exactly as often as the time to live says. For a packet whose header decodes to
  \<open>h\<close>, exactly the first \<open>ttl\<close> calls succeed; after \<open>k\<close> of them the header is unchanged but for a time to live
  that is \<open>k\<close> smaller, and so is the rest of the packet. The subtraction never wraps around.
\<close>

theorem ttl_bounds_relays:
  assumes "header_try_from bs = Inr h"
  shows "relays k bs = (if k \<le> unat (h_ttl h) then Some (bs[1 := h_ttl h - word_of_nat k]) else None) \<and>
    (k \<le> unat (h_ttl h) \<longrightarrow> header_try_from (bs[1 := h_ttl h - word_of_nat k]) = Inr (h\<lparr>h_ttl := h_ttl h - word_of_nat k\<rparr>) \<and>
      unat (h_ttl h - word_of_nat k) = unat (h_ttl h) - k)"
proof -
  have "relays k bs = (if k \<le> unat (h_ttl h) then Some (bs[Suc 0 := h_ttl h - word_of_nat k]) else None)"
    using assms
  proof (induction k arbitrary: bs h)
    case 0
    then show ?case by (cases rule: header_try_from_cases) (simp add: list_update_same_conv)
  next
    case (Suc k)
    show ?case
    proof (cases "h_ttl h = 0")
      case True
      then show ?thesis using decrease_ttl_run [OF Suc.prems] by simp
    next
      case False
      then have "unat (h_ttl h - 1) = unat (h_ttl h) - 1" "unat (h_ttl h) \<noteq> 0"
        by (simp_all add: unat_minus_one unat_eq_zero)
      then show ?thesis
        using Suc.IH [OF header_try_from_ttl [OF Suc.prems, of "h_ttl h - 1"]] decrease_ttl_run [OF Suc.prems] False
        by (auto simp: algebra_simps)
    qed
  qed
  moreover have "unat (h_ttl h - word_of_nat k) = unat (h_ttl h) - k" if "k \<le> unat (h_ttl h)"
  proof -
    have "unat (word_of_nat k :: u8) = k"
      using that unat_u8_less [of "h_ttl h"] by (simp add: unat_of_nat take_bit_nat_eq_self)
    then show ?thesis using that by (simp add: unat_sub word_le_nat_alt)
  qed
  ultimately show ?thesis using header_try_from_ttl [OF assms] by simp
qed

lemma ttl_bounds_relays_witness:
  "header_try_from [0, 2, 6, 7, 99] = Inr (set_ttl (header_build 6 7 Direct) 2) \<and>
   relays 2 [0, 2, 6, 7, 99] = Some [0, 0, 6, 7, 99] \<and> relays 3 [0, 2, 6, 7, 99] = None"
proof -
  have d: "header_try_from [0, 2, 6, 7, 99] = Inr (set_ttl (header_build 6 7 Direct) 2)"
    by (simp add: header_try_from_def get_route_def route_consts set_ttl_def header_build_def)
  from ttl_bounds_relays [OF d, of 2] ttl_bounds_relays [OF d, of 3] d show ?thesis by (simp add: set_ttl_def header_build_def)
qed

subsection \<open>Messages and flags\<close>

lemma to_bytes_exact:
  assumes "h_version h = 0" "length spare = serialize_size h"
  shows "\<exists>out. to_bytes h spare = Some (serialize_size h, out) \<and> length out = serialize_size h \<and>
    (\<forall>payload. header_try_from (out @ payload) = Inr h)"
proof -
  have "serialize_size h \<le> length spare" using assms(2) by simp
  from to_bytes_split [OF this] obtain pre mid src post where
    split: "spare = pre @ mid @ src @ post" "length pre = 4"
    "length mid = (if h_route h = Direct then 0 else 4)" "length src = (if h_from_node h = None then 0 else 4)"
    "post = drop (serialize_size h) spare" by blast
  then have nil: "post = []" using assms(2) by simp
  have len: "4 + length mid + length (from_bytes (h_from_node h)) = serialize_size h"
    "length (route_bytes (h_route h) mid) = length mid"
    using split(3) by (cases "h_route h"; cases "h_from_node h";
      simp add: serialize_size_def route_bytes_def from_bytes_def be32_def be16_def)+
  show ?thesis
    using to_bytes_run [OF split(1-4)] decode_explicit [OF assms(1) split(3)] len by (simp add: nil)
qed

text \<open>
  C15. Messages are self-describing: a message built from a header or from feature, meta and route, with the
  header memory of the size it asks for, does not panic, yields its payload back, and parsing its buffer gives
  the same message; the encryption flag that routers test on the first byte is the header's flag.
\<close>

theorem transport_msg_roundtrip:
  assumes "h_version h = 0" "length spare = serialize_size h"
  shows "\<exists>t. msg_build_raw spare h payload = Some t \<and> msg_try_from (tm_buffer t) = Inr t \<and> tm_header t = h \<and>
    msg_payload t = Some payload \<and> header_is_secure (tm_buffer t ! 0) = h_encrypt h"
proof -
  obtain out where out: "to_bytes h spare = Some (serialize_size h, out)" "length out = serialize_size h"
      "\<And>p. header_try_from (out @ p) = Inr h"
    using to_bytes_exact [OF assms] by blast
  have "header_is_secure ((out @ payload) ! 0) = h_encrypt h"
  proof -
    have "drop_bit 5 ((out @ payload) ! 0) AND 1 = 1 \<longleftrightarrow> h_encrypt h"
      using header_try_from_cases [OF out(3) [of payload]] by metis
    moreover have "b AND 32 = 0 \<longleftrightarrow> \<not> drop_bit 5 b AND 1 = 1" for b :: u8
      using and_exp_eq_0_iff_not_bit [of b 5] by (simp add: and_one_eq bit_iff_odd_drop_bit odd_iff_mod_2_eq_one)
    ultimately show ?thesis by (simp add: header_is_secure_def)
  qed
  then show ?thesis
    using out by (simp add: msg_build_raw_def msg_try_from_def msg_payload_def)
qed

lemma transport_msg_roundtrip_witness:
  "\<exists>t. msg_build_raw (replicate 8 0) (header_build 3 4 (ToKey 77)) [1, 2] = Some t \<and> msg_payload t = Some [1, 2]"
  using transport_msg_roundtrip [of "header_build 3 4 (ToKey 77)" "replicate 8 0" "[1, 2]"]
  by (auto simp: header_build_def serialize_size_def)

text \<open>
  The second test of the encryption flag reads the wrong bit: \<^verbatim>\<open>TransportMsg::is_secure_header\<close> looks at
  the third lowest bit of the first byte, which belongs to the route type. It denies the flag of every encrypted
  message that is not routed to a key, and affirms it for every message routed to a key, encrypted or not.
\<close>

theorem is_secure_header_reads_route:
  assumes "h_version h = 0"
  shows "is_secure_header (first_byte h) \<longleftrightarrow> (\<exists>k. h_route h = ToKey k)"
  using assms
  by (cases "h_encrypt h"; cases "h_from_node h"; cases "h_route h")
     (simp_all add: first_byte_def route_type_def route_consts is_secure_header_def)

lemma is_secure_header_reads_route_witness:
  "header_is_secure (first_byte (set_encrypt (header_build 1 2 Direct) True)) \<and>
   \<not> is_secure_header (first_byte (set_encrypt (header_build 1 2 Direct) True))"
  using is_secure_header_reads_route [of "set_encrypt (header_build 1 2 Direct) True"]
  by (simp add: set_encrypt_def header_build_def first_byte_def header_is_secure_def route_type_def route_consts)

end
