(* ===== verification/Feature_Base.thy ===== *)
theory Feature_Base
  imports Transport_Msg
begin

text \<open>
  The vocabulary that controller, workers and features share (\<^verbatim>\<open>packages/network/src/base/mod.rs\<close> and
  \<^verbatim>\<open>base/feature.rs\<close>): connection events, feature inputs and outputs, and the hash maps keyed by a connection.

  The secure context that a \<^verbatim>\<open>Connected\<close> event carries is opaque key material and is not represented. A
  \<^verbatim>\<open>Multiaddr\<close> is its byte string.
\<close>

datatype socket_addr = SocketV4 u32 u16 | SocketV6 "128 word" u16

record net_pair =
  np_local :: socket_addr
  np_remote :: socket_addr

record connection_ctx =
  cx_conn :: conn_id
  cx_node :: node_id
  cx_pair :: net_pair

datatype connection_event =
    Connected connection_ctx
  | Stats connection_ctx u32
  | Disconnected connection_ctx

type_synonym node_addr = "node_id \<times> bytes"

datatype 'u feature_actor = ActorController 'u | ActorWorker u16 'u | ActorService u8

fun actor_into2 :: "('u \<Rightarrow> 'v) \<Rightarrow> 'u feature_actor \<Rightarrow> 'v feature_actor" where
  "actor_into2 cv (ActorController u) = ActorController (cv u)"
| "actor_into2 cv (ActorWorker w u) = ActorWorker w (cv u)"
| "actor_into2 cv (ActorService s) = ActorService s"

datatype feature_shared_input = Tick nat | Connection connection_event

datatype ('u, 'c, 't) feature_input =
    FromWorker 't
  | Control "'u feature_actor" 'c
  | NetMsg connection_ctx net_incoming_meta bytes
  | LocalMsg net_incoming_meta bytes

datatype ('u, 'e, 'w) feature_output =
    OutToWorker bool 'w
  | OutEvent "'u feature_actor" 'e
  | OutSendDirect conn_id net_outgoing_meta bytes
  | OutSendRoute route_rule net_outgoing_meta bytes
  | OutConnectTo node_addr
  | OutDisconnectFrom node_id
  | OutResourceEmpty

fun output_into2 :: "('u \<Rightarrow> 'u2) \<Rightarrow> ('e \<Rightarrow> 'e2) \<Rightarrow> ('w \<Rightarrow> 'w2) \<Rightarrow> ('u, 'e, 'w) feature_output \<Rightarrow> ('u2, 'e2, 'w2) feature_output" where
  "output_into2 fu fe fw (OutToWorker b w) = OutToWorker b (fw w)"
| "output_into2 fu fe fw (OutEvent a e) = OutEvent (actor_into2 fu a) (fe e)"
| "output_into2 fu fe fw (OutSendDirect c m b) = OutSendDirect c m b"
| "output_into2 fu fe fw (OutSendRoute r m b) = OutSendRoute r m b"
| "output_into2 fu fe fw (OutConnectTo a) = OutConnectTo a"
| "output_into2 fu fe fw (OutDisconnectFrom n) = OutDisconnectFrom n"
| "output_into2 fu fe fw OutResourceEmpty = OutResourceEmpty"

datatype ('u, 'c, 'w) feature_worker_input =
    WFromController bool 'w
  | WControl "'u feature_actor" 'c
  | WNetwork conn_id net_incoming_meta bytes
  | WLocal net_incoming_meta bytes
  | WTunPkt bytes

datatype ('u, 'c, 'e, 't) feature_worker_output =
    WForwardControl "'u feature_actor" 'c
  | WForwardNetwork conn_id net_incoming_meta bytes
  | WForwardLocal net_incoming_meta bytes
  | WToController 't
  | WEvent "'u feature_actor" 'e
  | WSendDirect conn_id net_outgoing_meta bytes
  | WSendRoute route_rule net_outgoing_meta bytes
  | WRawDirect conn_id bytes
  | WRawBroadcast "conn_id list" bytes
  | WRawDirect2 net_pair bytes
  | WRawBroadcast2 "net_pair list" bytes
  | WOutTunPkt bytes
  | WResourceEmpty

fun worker_output_into2 :: "('u \<Rightarrow> 'u2) \<Rightarrow> ('c \<Rightarrow> 'c2) \<Rightarrow> ('e \<Rightarrow> 'e2) \<Rightarrow> ('t \<Rightarrow> 't2) \<Rightarrow>
    ('u, 'c, 'e, 't) feature_worker_output \<Rightarrow> ('u2, 'c2, 'e2, 't2) feature_worker_output" where
  "worker_output_into2 fu fc fe ft (WForwardControl a c) = WForwardControl (actor_into2 fu a) (fc c)"
| "worker_output_into2 fu fc fe ft (WForwardNetwork c h m) = WForwardNetwork c h m"
| "worker_output_into2 fu fc fe ft (WForwardLocal h m) = WForwardLocal h m"
| "worker_output_into2 fu fc fe ft (WToController t) = WToController (ft t)"
| "worker_output_into2 fu fc fe ft (WEvent a e) = WEvent (actor_into2 fu a) (fe e)"
| "worker_output_into2 fu fc fe ft (WSendDirect c m b) = WSendDirect c m b"
| "worker_output_into2 fu fc fe ft (WSendRoute r m b) = WSendRoute r m b"
| "worker_output_into2 fu fc fe ft (WRawDirect c b) = WRawDirect c b"
| "worker_output_into2 fu fc fe ft (WRawBroadcast cs b) = WRawBroadcast cs b"
| "worker_output_into2 fu fc fe ft (WRawDirect2 p b) = WRawDirect2 p b"
| "worker_output_into2 fu fc fe ft (WRawBroadcast2 ps b) = WRawBroadcast2 ps b"
| "worker_output_into2 fu fc fe ft (WOutTunPkt b) = WOutTunPkt b"
| "worker_output_into2 fu fc fe ft WResourceEmpty = WResourceEmpty"

subsection \<open>Hash maps keyed by a connection\<close>

text \<open>Keys compare by \<open>conn_key\<close>; inserting under an equal key keeps the key that is already stored.\<close>

type_synonym 'v conn_map = "(conn_id \<times> 'v) list"

fun conn_get :: "'v conn_map \<Rightarrow> conn_id \<Rightarrow> 'v option" where
  "conn_get [] c = None"
| "conn_get ((d, v) # m) c = (if conn_eq d c then Some v else conn_get m c)"

fun conn_insert :: "'v conn_map \<Rightarrow> conn_id \<Rightarrow> 'v \<Rightarrow> 'v conn_map" where
  "conn_insert [] c v = [(c, v)]"
| "conn_insert ((d, w) # m) c v = (if conn_eq d c then (d, v) # m else (d, w) # conn_insert m c v)"

definition conn_remove :: "'v conn_map \<Rightarrow> conn_id \<Rightarrow> 'v conn_map" where
  "conn_remove m c = filter (\<lambda>(d, _). \<not> conn_eq d c) m"

definition conn_keys :: "'v conn_map \<Rightarrow> conn_key set" where
  "conn_keys m = set (map (conn_key \<circ> fst) m)"

definition wf_conn_map :: "'v conn_map \<Rightarrow> bool" where
  "wf_conn_map m \<longleftrightarrow> distinct (map (conn_key \<circ> fst) m)"

lemma conn_keys_simps [simp]: "conn_keys [] = {}" "conn_keys ((d, v) # m) = insert (conn_key d) (conn_keys m)"
  by (simp_all add: conn_keys_def)

lemma conn_get_insert: "conn_get (conn_insert m c v) d = (if conn_key c = conn_key d then Some v else conn_get m d)"
  by (induction m) auto

lemma conn_get_remove: "conn_get (conn_remove m c) d = (if conn_key c = conn_key d then None else conn_get m d)"
  by (induction m) (auto simp: conn_remove_def)

lemma conn_get_None: "conn_get m c = None \<longleftrightarrow> conn_key c \<notin> conn_keys m"
proof (induction m)
  case (Cons x m)
  then show ?case by (cases x) auto
qed simp

lemma conn_get_key: "conn_key c = conn_key d \<Longrightarrow> conn_get m c = conn_get m d"
proof (induction m)
  case (Cons x m)
  then show ?case by (cases x) simp
qed simp

lemma conn_keys_insert: "conn_keys (conn_insert m c v) = insert (conn_key c) (conn_keys m)"
proof (induction m)
  case (Cons x m)
  then show ?case by (cases x) auto
qed simp

lemma conn_keys_remove: "conn_keys (conn_remove m c) = conn_keys m - {conn_key c}"
proof (induction m)
  case (Cons x m)
  obtain d v where x: "x = (d, v)" by (cases x)
  have "conn_remove (x # m) c = (if conn_key d = conn_key c then conn_remove m c else x # conn_remove m c)"
    by (simp add: conn_remove_def x)
  then show ?case using Cons by (simp add: x insert_Diff_if)
qed (simp add: conn_remove_def)

lemma wf_conn_Cons: "wf_conn_map ((d, v) # m) \<longleftrightarrow> conn_key d \<notin> conn_keys m \<and> wf_conn_map m"
  by (simp add: wf_conn_map_def conn_keys_def)

lemma wf_conn_insert [wf_intros]: "wf_conn_map m \<Longrightarrow> wf_conn_map (conn_insert m c v)"
proof (induction m)
  case (Cons x m)
  then show ?case by (cases x) (auto simp: wf_conn_Cons conn_keys_insert)
qed (simp add: wf_conn_map_def)

lemma wf_conn_remove [wf_intros]: "wf_conn_map m \<Longrightarrow> wf_conn_map (conn_remove m c)"
  by (simp add: wf_conn_map_def conn_remove_def distinct_map_filter)

lemma conn_get_member: "conn_get m c = Some v \<Longrightarrow> \<exists>d. (d, v) \<in> set m \<and> conn_key d = conn_key c"
proof (induction m)
  case (Cons x m)
  then show ?case by (cases x) (auto split: if_splits)
qed simp

lemma conn_insert_member: "(d, w) \<in> set (conn_insert m c v) \<Longrightarrow> (d, w) \<in> set m \<or> w = v \<and> conn_key d = conn_key c"
proof (induction m)
  case (Cons x m)
  then show ?case by (cases x) (auto split: if_splits)
qed simp

end
