(* ===== verification/Router_Sync.thy ===== *)
theory Router_Sync
  imports Feature_Base
begin

text \<open>
  The router synchronisation feature (\<^verbatim>\<open>packages/network/src/features/router_sync.rs\<close>): it owns the core router,
  feeds it with connection events and the synchronisation messages of the neighbours, and turns the router's
  deltas into updates for the shadow routers of the workers.

  \<^verbatim>\<open>bincode\<close> is a parameter: \<open>ser\<close> and \<open>de\<close>. The invariant \<open>rsf_inv\<close> relates the feature to a worker's shadow
  router at every moment: a slot without pending delta mirrors the core router, and the last pending delta of
  any other slot carries its final value. So a worker whose controller has nothing pending forwards as the core
  router does.
\<close>

definition INIT_RTT_MS :: u16 where "INIT_RTT_MS = 1000"
definition INIT_BW :: u32 where "INIT_BW = 100000000"

datatype rsf_control = DumpRouter
datatype rsf_event = DumpRouterEvent router_dump_rec

type_synonym 'u rsf_output = "('u, rsf_event, net_pair shadow_delta) feature_output"

record 'u rsf =
  rsf_router :: router
  rsf_conns :: "(node_id \<times> net_pair \<times> metric) conn_map"
  rsf_queue :: "'u rsf_output list"
  rsf_services :: "u8 list"
  rsf_shutdown :: bool

definition rsf_new :: "node_id \<Rightarrow> u8 list \<Rightarrow> 'u rsf" where
  "rsf_new n services =
     \<lparr>rsf_router = router_new n, rsf_conns = [], rsf_queue = [], rsf_services = services, rsf_shutdown = False\<rparr>"

definition sync_meta :: net_outgoing_meta where
  "sync_meta = \<lparr>om_source = False, om_ttl = 1, om_meta = 0, om_secure = True\<rparr>"

definition send_sync_to :: "(router_sync \<Rightarrow> bytes) \<Rightarrow> conn_id \<Rightarrow> node_id \<Rightarrow> 'u rsf \<Rightarrow> 'u rsf run" where
  "send_sync_to ser conn n f =
     do {
       s \<leftarrow> router_create_sync (rsf_router f) n;
       Some (f\<lparr>rsf_queue := rsf_queue f @ [OutSendDirect conn sync_meta (ser s)]\<rparr>)
     }"

definition set_conn :: "connection_ctx \<Rightarrow> metric \<Rightarrow> 'u rsf \<Rightarrow> 'u rsf run" where
  "set_conn ctx m f =
     do {
       r \<leftarrow> router_set_direct (rsf_router f) (cx_conn ctx) m;
       Some (f\<lparr>rsf_conns := conn_insert (rsf_conns f) (cx_conn ctx) (cx_node ctx, cx_pair ctx, m), rsf_router := r\<rparr>)
     }"

definition rsf_on_shared_input :: "(router_sync \<Rightarrow> bytes) \<Rightarrow> 'u rsf \<Rightarrow> feature_shared_input \<Rightarrow> 'u rsf run" where
  "rsf_on_shared_input ser f input =
     (case input of
        Tick tick_count \<Rightarrow>
          if tick_count < 1 then Some f
          else
            (let f1 = f\<lparr>rsf_router := fold (\<lambda>s r. router_register_service r s) (rev (rsf_services f)) (rsf_router f),
                        rsf_services := []\<rparr>
             in for_run (\<lambda>(conn, n, _). send_sync_to ser conn n) (rsf_conns f1) f1)
      | Connection (Connected ctx) \<Rightarrow> do {
          f1 \<leftarrow> set_conn ctx (metric_new INIT_RTT_MS [cx_node ctx] INIT_BW) f;
          send_sync_to ser (cx_conn ctx) (cx_node ctx) f1
        }
      | Connection (Stats ctx rtt_ms) \<Rightarrow> set_conn ctx (metric_new (ucast rtt_ms) [cx_node ctx] INIT_BW) f
      | Connection (Disconnected ctx) \<Rightarrow>
          Some (f\<lparr>rsf_conns := conn_remove (rsf_conns f) (cx_conn ctx),
                  rsf_router := router_del_direct (rsf_router f) (cx_conn ctx)\<rparr>))"

definition rsf_on_input :: "(bytes \<Rightarrow> router_sync option) \<Rightarrow> 'u rsf \<Rightarrow> ('u, rsf_control, unit) feature_input \<Rightarrow> 'u rsf run" where
  "rsf_on_input de f input =
     (case input of
        FromWorker _ \<Rightarrow> Some f
      | Control actor DumpRouter \<Rightarrow> do {
          d \<leftarrow> router_dump (rsf_router f);
          Some (f\<lparr>rsf_queue := rsf_queue f @ [OutEvent actor (DumpRouterEvent d)]\<rparr>)
        }
      | NetMsg ctx meta buf \<Rightarrow>
          if \<not> im_secure meta then Some f
          else (case conn_get (rsf_conns f) (cx_conn ctx) of
              Some (_, _, m) \<Rightarrow>
                (case de buf of
                   Some s \<Rightarrow> do {
                     r \<leftarrow> router_apply_sync (rsf_router f) (cx_conn ctx) m s;
                     Some (f\<lparr>rsf_router := r\<rparr>)
                   }
                 | None \<Rightarrow> Some f)
            | None \<Rightarrow> Some f)
      | LocalMsg _ _ \<Rightarrow> Some f)"

definition rsf_on_shutdown :: "'u rsf \<Rightarrow> 'u rsf" where
  "rsf_on_shutdown f = f\<lparr>rsf_shutdown := True\<rparr>"

definition rsf_is_empty :: "'u rsf \<Rightarrow> bool" where
  "rsf_is_empty f \<longleftrightarrow> rsf_shutdown f \<and> rsf_queue f = []"

text \<open>The \<^verbatim>\<open>match\<close> on a popped delta; \<open>None\<close> is the early return of \<^verbatim>\<open>?\<close> when the connection is unknown.\<close>

definition shadow_rule :: "(node_id \<times> net_pair \<times> metric) conn_map \<Rightarrow> router_delta \<Rightarrow> net_pair shadow_delta option" where
  "shadow_rule conns delta =
     (case delta of
        DeltaTable l (TableDelta i (SetBestPath conn)) \<Rightarrow>
          map_option (\<lambda>(_, pair, _). SetTable l i pair) (conn_get conns conn)
      | DeltaTable l (TableDelta i DelBestPath) \<Rightarrow> Some (DelTable l i)
      | DeltaRegistry (SetServiceLocal s) \<Rightarrow> Some (SetLocalService s)
      | DeltaRegistry (DelServiceLocal s) \<Rightarrow> Some (DelLocalService s)
      | DeltaRegistry (ServiceRemote s (SetServicePath conn dst sc)) \<Rightarrow>
          map_option (\<lambda>(n, pair, _). SetServiceRemote s pair n dst sc) (conn_get conns conn)
      | DeltaRegistry (ServiceRemote s (DelServicePath conn)) \<Rightarrow>
          map_option (\<lambda>(_, pair, _). DelServiceRemote s pair) (conn_get conns conn))"

definition rsf_pop_output :: "'u rsf \<Rightarrow> 'u rsf_output option \<times> 'u rsf" where
  "rsf_pop_output f =
     (case router_pop_delta (rsf_router f) of
        (Some delta, r) \<Rightarrow> (map_option (OutToWorker True) (shadow_rule (rsf_conns f) delta), f\<lparr>rsf_router := r\<rparr>)
      | (None, r) \<Rightarrow>
          (case rsf_queue f of
             [] \<Rightarrow> (None, f\<lparr>rsf_router := r\<rparr>)
           | x # xs \<Rightarrow> (Some x, f\<lparr>rsf_router := r, rsf_queue := xs\<rparr>)))"

text \<open>The worker half: it forwards to the controller and applies the controller's deltas.\<close>

record 'u rsf_worker =
  rsw_queue :: "('u, rsf_control, rsf_event, unit) feature_worker_output list"
  rsw_shutdown :: bool

definition rsw_on_input :: "'u rsf_worker \<Rightarrow> net_pair shadow_router \<Rightarrow>
    ('u, rsf_control, net_pair shadow_delta) feature_worker_input \<Rightarrow> ('u rsf_worker \<times> net_pair shadow_router) run" where
  "rsw_on_input w r input =
     (case input of
        WControl actor c \<Rightarrow> Some (w\<lparr>rsw_queue := rsw_queue w @ [WForwardControl actor c]\<rparr>, r)
      | WNetwork conn h msg \<Rightarrow> Some (w\<lparr>rsw_queue := rsw_queue w @ [WForwardNetwork conn h msg]\<rparr>, r)
      | WFromController _ delta \<Rightarrow> do { r' \<leftarrow> sr_apply_delta r delta; Some (w, r') }
      | WLocal _ _ \<Rightarrow> Some (w, r)
      | WTunPkt _ \<Rightarrow> Some (w, r))"

subsection \<open>Controller and worker together\<close>

text \<open>Assumption on the transport: a connection keeps its address pair.\<close>

fun event_addr :: "(conn_key \<Rightarrow> net_pair) \<Rightarrow> feature_shared_input \<Rightarrow> bool" where
  "event_addr addr (Connection (Connected ctx)) = (cx_pair ctx = addr (conn_key (cx_conn ctx)))"
| "event_addr addr (Connection (Stats ctx _)) = (cx_pair ctx = addr (conn_key (cx_conn ctx)))"
| "event_addr addr _ = True"

text \<open>Every interleaving of the feature's inputs with the delivery of its outputs to a worker.\<close>

inductive rsf_run :: "(router_sync \<Rightarrow> bytes) \<Rightarrow> (bytes \<Rightarrow> router_sync option) \<Rightarrow> (conn_key \<Rightarrow> net_pair) \<Rightarrow> node_id \<Rightarrow>
    'u rsf \<Rightarrow> net_pair shadow_router \<Rightarrow> bool" for ser de addr n where
  run_new: "rsf_run ser de addr n (rsf_new n services) (sr_new n)"
| run_shared: "rsf_run ser de addr n f s \<Longrightarrow> event_addr addr input \<Longrightarrow> rsf_on_shared_input ser f input = Some f' \<Longrightarrow>
    rsf_run ser de addr n f' s"
| run_input: "rsf_run ser de addr n f s \<Longrightarrow> rsf_on_input de f input = Some f' \<Longrightarrow> rsf_run ser de addr n f' s"
| run_deliver: "rsf_run ser de addr n f s \<Longrightarrow> rsf_pop_output f = (Some (OutToWorker b delta), f') \<Longrightarrow>
    sr_apply_delta s delta = Some s' \<Longrightarrow> rsf_run ser de addr n f' s'"
| run_pop: "rsf_run ser de addr n f s \<Longrightarrow> rsf_pop_output f = (out, f') \<Longrightarrow>
    (\<forall>b delta. out \<noteq> Some (OutToWorker b delta)) \<Longrightarrow> rsf_run ser de addr n f' s"

subsection \<open>Pending deltas of one slot\<close>

definition slot_pending :: "u8 \<Rightarrow> table_delta list \<Rightarrow> dest_delta list" where
  "slot_pending i ds = List.map_filter (\<lambda>d. case d of TableDelta j e \<Rightarrow> if j = i then Some e else None) ds"

fun delta_key :: "dest_delta \<Rightarrow> conn_key option" where
  "delta_key (SetBestPath c) = Some (conn_key c)"
| "delta_key DelBestPath = None"

lemma slot_pending_simps [simp]:
  "slot_pending i [] = []"
  "slot_pending i (TableDelta j e # ds) = (if j = i then e # slot_pending i ds else slot_pending i ds)"
  "slot_pending i (ds @ es) = slot_pending i ds @ slot_pending i es"
  by (simp_all add: slot_pending_def List.map_filter_def)

lemma replay_delta_key [simp]: "replay_delta k e = delta_key e"
  by (cases e) simp_all

lemma foldl_replay_at:
  "foldl replay_table f ds i = (if slot_pending i ds = [] then f i else delta_key (last (slot_pending i ds)))"
proof (induction ds arbitrary: f)
  case (Cons d ds)
  obtain j e where "d = TableDelta j e" by (cases d)
  then show ?case by (simp add: Cons.IH)
qed simp

text \<open>A worker's slot against the core's: equal, or the last pending delta carries the final value.\<close>

definition slot_inv :: "(conn_key \<Rightarrow> 'r) \<Rightarrow> 'r shadow_table \<Rightarrow> table \<Rightarrow> u8 \<Rightarrow> bool" where
  "slot_inv addr u t i \<longleftrightarrow>
     (if slot_pending i (t_deltas t) = [] then st_dests u i = map_option addr (table_view t i)
      else delta_key (last (slot_pending i (t_deltas t))) = table_view t i)"

lemma slot_inv_tracks:
  assumes "table_tracks t t'" "slot_inv addr u t i"
  shows "slot_inv addr u t' i"
proof -
  obtain es where es: "t_deltas t' = t_deltas t @ es" "foldl replay_table (table_view t) es = table_view t'"
    using assms(1) by (auto simp: tracks_def)
  have "table_view t' i = (if slot_pending i es = [] then table_view t i else delta_key (last (slot_pending i es)))"
    using foldl_replay_at [of "table_view t" es i] es(2) by simp
  then show ?thesis using assms(2) es(1) by (auto simp: slot_inv_def)
qed

subsection \<open>The invariant\<close>

definition conns_ok :: "(conn_key \<Rightarrow> net_pair) \<Rightarrow> (node_id \<times> net_pair \<times> metric) conn_map \<Rightarrow> bool" where
  "conns_ok addr conns \<longleftrightarrow> (\<forall>c n p m. (c, n, p, m) \<in> set conns \<longrightarrow> p = addr (conn_key c) \<and> hops m = [n])"

definition paths_known :: "(node_id \<times> net_pair \<times> metric) conn_map \<Rightarrow> router \<Rightarrow> bool" where
  "paths_known conns r \<longleftrightarrow> (\<forall>l<4. \<forall>i. path_key ` set (slot_paths r l i) \<subseteq> conn_keys conns)"

definition slots_inv :: "(conn_key \<Rightarrow> net_pair) \<Rightarrow> net_pair shadow_router \<Rightarrow> router \<Rightarrow> bool" where
  "slots_inv addr s r \<longleftrightarrow> (\<forall>l<4. \<forall>i. slot_inv addr (sr_tables s ! l) (r_tables r ! l) i)"

definition rsf_inv :: "(conn_key \<Rightarrow> net_pair) \<Rightarrow> 'u rsf \<Rightarrow> net_pair shadow_router \<Rightarrow> bool" where
  "rsf_inv addr f s \<longleftrightarrow>
     wf_router (rsf_router f) \<and> wf_shadow s \<and> sr_node s = r_node (rsf_router f) \<and> slots_inv addr s (rsf_router f) \<and>
     conns_ok addr (rsf_conns f) \<and> paths_known (rsf_conns f) (rsf_router f) \<and>
     (\<forall>b d. OutToWorker b d \<notin> set (rsf_queue f))"

lemma conns_ok_get: "conns_ok addr m \<Longrightarrow> conn_get m c = Some (n, p, mt) \<Longrightarrow> p = addr (conn_key c) \<and> hops mt = [n]"
  using conn_get_member [of m c] by (fastforce simp: conns_ok_def)

lemma conns_ok_insert:
  "conns_ok addr m \<Longrightarrow> p = addr (conn_key c) \<Longrightarrow> hops mt = [n] \<Longrightarrow> conns_ok addr (conn_insert m c (n, p, mt))"
  unfolding conns_ok_def by (auto dest!: conn_insert_member)

lemma conns_ok_remove: "conns_ok addr m \<Longrightarrow> conns_ok addr (conn_remove m c)"
  by (auto simp: conns_ok_def conn_remove_def)

lemma rsf_inv_update:
  assumes "rsf_inv addr f s" "router_update (rsf_router f) r" "conns_ok addr m" "paths_known m r"
  shows "rsf_inv addr (f\<lparr>rsf_conns := m, rsf_router := r\<rparr>) s"
proof -
  have "slots_inv addr s r"
    using assms(1,2) slot_inv_tracks by (fastforce simp: slots_inv_def rsf_inv_def router_update_def layer_update_def)
  then show ?thesis
    using assms router_update_wf [OF assms(2)] by (auto simp: rsf_inv_def router_update_def)
qed

lemma rsf_inv_queue:
  "rsf_inv addr f s \<Longrightarrow> (\<forall>b d. OutToWorker b d \<notin> set q) \<Longrightarrow> rsf_inv addr (f\<lparr>rsf_queue := q\<rparr>) s"
  by (simp add: rsf_inv_def)

lemma rsf_invD:
  assumes "rsf_inv addr f s"
  shows "wf_router (rsf_router f)" "conns_ok addr (rsf_conns f)" "paths_known (rsf_conns f) (rsf_router f)"
    "OutToWorker b d \<notin> set (rsf_queue f)"
  using assms by (auto simp: rsf_inv_def)

lemma send_sync_inv:
  assumes "rsf_inv addr f s" "send_sync_to ser c n f = Some f'"
  shows "rsf_inv addr f' s"
  using assms by (auto simp: send_sync_to_def bind_eq_Some_conv rsf_inv_def)

lemma set_conn_inv:
  assumes "rsf_inv addr f s" "set_conn ctx m f = Some f'" "cx_pair ctx = addr (conn_key (cx_conn ctx))" "hops m = [cx_node ctx]"
  shows "rsf_inv addr f' s"
proof -
  let ?conns = "conn_insert (rsf_conns f) (cx_conn ctx) (cx_node ctx, cx_pair ctx, m)"
  obtain r where r: "router_set_direct (rsf_router f) (cx_conn ctx) m = Some r" and f': "f' = f\<lparr>rsf_conns := ?conns, rsf_router := r\<rparr>"
    using assms(2) by (auto simp: set_conn_def bind_eq_Some_conv)
  note inv = rsf_invD [OF assms(1)]
  have ne: "hops m \<noteq> []" using assms(4) by simp
  have "paths_known ?conns r"
    unfolding paths_known_def conn_keys_insert
  proof (intro allI impI subsetI)
    fix l i k assume l: "l < 4" and "k \<in> path_key ` set (slot_paths r l i)"
    then obtain p where "p \<in> set (slot_paths r l i)" "k = path_key p" by blast
    then show "k \<in> insert (conn_key (cx_conn ctx)) (conn_keys (rsf_conns f))"
      using set_direct_origin [OF inv(1) ne r l] inv(3) l by (fastforce simp: paths_known_def)
  qed
  then show ?thesis
    unfolding f' using rsf_inv_update [OF assms(1) router_update_set_direct [OF inv(1) ne r]]
      conns_ok_insert [OF inv(2) assms(3,4)] by blast
qed

text \<open>What the decoder guarantees by the type of a message: the array has four entries.\<close>

definition de_shape :: "(bytes \<Rightarrow> router_sync option) \<Rightarrow> bool" where
  "de_shape de \<longleftrightarrow> (\<forall>b rs ts. de b = Some (RouterSync rs ts) \<longrightarrow> length ts = 4)"

lemma apply_sync_known:
  assumes "wf_router r" "hops m \<noteq> []" "length ts = 4" "router_apply_sync r c m (RouterSync rs ts) = Some r'"
    and "paths_known conns r" "conn_key c \<in> conn_keys conns"
  shows "paths_known conns r'"
  unfolding paths_known_def
proof (intro allI impI subsetI)
  fix l i k assume l: "l < 4" and "k \<in> path_key ` set (slot_paths r' l i)"
  then obtain p where p: "p \<in> set (slot_paths r' l i)" "k = path_key p" by blast
  have old: "path_key q \<in> conn_keys conns" if "q \<in> set (slot_paths r l i)" for q
    using assms(5) l that by (auto simp: paths_known_def)
  have put: "q \<in> set (slot_paths r l i) \<or> path_key q = conn_key c"
    if "q \<in> set (sort_paths (put_path (slot_paths r l i) c m'))" for q m'
    using set_sort_put [OF slot_paths_wf [OF assms(1) l] that] by blast
  note eq = apply_sync_slots [OF assms(1-4) l, of i]
  have "p \<in> set (slot_paths r l i) \<or> path_key p = conn_key c"
  proof (cases "ts ! l")
    case None
    then show ?thesis using eq p by simp
  next
    case (Some s)
    obtain es where "s = TableSync es" by (cases s)
    with Some show ?thesis
      using eq p put by (cases "sync_cache m es i") (auto split: if_splits)
  qed
  then show "k \<in> conn_keys conns" using old p assms(6) by auto
qed

lemma rsf_on_input_inv:
  assumes "rsf_inv addr f s" "de_shape de" "rsf_on_input de f input = Some f'"
  shows "rsf_inv addr f' s"
proof (cases input)
  case (Control actor c)
  then show ?thesis
    using assms(1,3) by (cases c) (auto simp: rsf_on_input_def bind_eq_Some_conv rsf_inv_def)
next
  case (NetMsg ctx meta buf)
  show ?thesis
  proof (cases "\<exists>n p m rs ts. im_secure meta \<and> conn_get (rsf_conns f) (cx_conn ctx) = Some (n, p, m) \<and> de buf = Some (RouterSync rs ts)")
    case True
    then obtain n p m rs ts where c: "im_secure meta" "conn_get (rsf_conns f) (cx_conn ctx) = Some (n, p, m)"
      and d: "de buf = Some (RouterSync rs ts)" by blast
    obtain r where r: "router_apply_sync (rsf_router f) (cx_conn ctx) m (RouterSync rs ts) = Some r" and f': "f' = f\<lparr>rsf_router := r\<rparr>"
      using assms(3) NetMsg c d by (auto simp: rsf_on_input_def bind_eq_Some_conv simp del: router_apply_sync.simps)
    note inv = rsf_invD [OF assms(1)]
    have ne: "hops m \<noteq> []" and len: "length ts = 4"
      using conns_ok_get [OF inv(2) c(2)] assms(2) d by (auto simp: de_shape_def)
    have key: "conn_key (cx_conn ctx) \<in> conn_keys (rsf_conns f)" using c(2) conn_get_None [of "rsf_conns f" "cx_conn ctx"] by simp
    have "rsf_inv addr (f\<lparr>rsf_conns := rsf_conns f, rsf_router := r\<rparr>) s"
      by (rule rsf_inv_update [OF assms(1) router_update_apply_sync [OF inv(1) ne len r] inv(2)
          apply_sync_known [OF inv(1) ne len r inv(3) key]])
    then show ?thesis by (simp add: f')
  next
    case False
    have "f' = f"
    proof (cases "de buf")
      case None
      then show ?thesis using assms(3) NetMsg by (auto simp: rsf_on_input_def split: if_splits option.splits)
    next
      case (Some x)
      obtain rs ts where "x = RouterSync rs ts" by (cases x)
      then show ?thesis
        using assms(3) NetMsg Some False by (auto simp: rsf_on_input_def split: if_splits option.splits)
    qed
    then show ?thesis using assms(1) by simp
  qed
qed (use assms in \<open>auto simp: rsf_on_input_def\<close>)

lemma register_known: "paths_known conns r \<Longrightarrow> paths_known conns (router_register_service r s)"
  by (simp add: paths_known_def router_register_service_def)

lemma register_inv:
  "rsf_inv addr f s \<Longrightarrow> rsf_inv addr (f\<lparr>rsf_router := router_register_service (rsf_router f) x\<rparr>) s"
  using rsf_inv_update [OF _ router_update_register, of addr f s "rsf_conns f"] register_known rsf_invD by fastforce

lemma rsf_tick_inv:
  assumes "rsf_inv addr f s"
  shows "rsf_inv addr (f\<lparr>rsf_router := fold (\<lambda>s r. router_register_service r s) xs (rsf_router f), rsf_services := ys\<rparr>) s"
proof -
  have "rsf_inv addr (f\<lparr>rsf_router := fold (\<lambda>s r. router_register_service r s) xs (rsf_router f)\<rparr>) s"
    using assms
  proof (induction xs arbitrary: f)
    case (Cons x xs)
    show ?case using Cons.IH [OF register_inv [OF Cons.prems, of x]] by simp
  qed simp
  then show ?thesis by (simp add: rsf_inv_def)
qed

lemma sync_all_inv:
  "rsf_inv addr f s \<Longrightarrow> for_run (\<lambda>(conn, n, _). send_sync_to ser conn n) xs f = Some f' \<Longrightarrow> rsf_inv addr f' s"
proof (induction xs arbitrary: f)
  case (Cons x xs)
  obtain c n v where x: "x = (c, n, v)" by (cases x)
  then obtain g where "send_sync_to ser c n f = Some g" "for_run (\<lambda>(conn, n, _). send_sync_to ser conn n) xs g = Some f'"
    using Cons.prems(2) by (auto simp: bind_eq_Some_conv)
  then show ?case using Cons.IH send_sync_inv [OF Cons.prems(1)] by blast
qed simp

lemma rsf_on_shared_inv:
  assumes "rsf_inv addr f s" "event_addr addr input" "rsf_on_shared_input ser f input = Some f'"
  shows "rsf_inv addr f' s"
proof (cases input)
  case (Tick t)
  show ?thesis
  proof (cases "t < 1")
    case True
    then show ?thesis using assms Tick by (simp add: rsf_on_shared_input_def)
  next
    case False
    then show ?thesis
      using sync_all_inv [OF rsf_tick_inv [OF assms(1)]] assms(3) Tick by (simp add: rsf_on_shared_input_def Let_def)
  qed
next
  case (Connection ev)
  show ?thesis
  proof (cases ev)
    case (Connected ctx)
    obtain f1 where "set_conn ctx (metric_new INIT_RTT_MS [cx_node ctx] INIT_BW) f = Some f1"
        "send_sync_to ser (cx_conn ctx) (cx_node ctx) f1 = Some f'"
      using assms(3) Connection Connected by (auto simp: rsf_on_shared_input_def bind_eq_Some_conv)
    then show ?thesis
      using set_conn_inv [OF assms(1)] send_sync_inv assms(2) Connection Connected by fastforce
  next
    case (Stats ctx rtt)
    then show ?thesis
      using set_conn_inv [OF assms(1), of ctx "metric_new (ucast rtt) [cx_node ctx] INIT_BW" f'] assms Connection
      by (simp add: rsf_on_shared_input_def)
  next
    case (Disconnected ctx)
    note inv = rsf_invD [OF assms(1)]
    have "paths_known (conn_remove (rsf_conns f) (cx_conn ctx)) (router_del_direct (rsf_router f) (cx_conn ctx))"
      using inv(3) by (fastforce simp: paths_known_def del_direct_slots [OF inv(1)] conn_keys_remove)
    from rsf_inv_update [OF assms(1) router_update_del_direct [OF inv(1)] conns_ok_remove [OF inv(2)] this]
    show ?thesis using assms(3) Connection Disconnected by (auto simp: rsf_on_shared_input_def)
  qed
qed

subsection \<open>Delivering deltas\<close>

text \<open>A worker's table after a delta for slot \<open>i\<close>; an untranslatable delta is lost.\<close>

definition table_after :: "(node_id \<times> net_pair \<times> metric) conn_map \<Rightarrow> u8 \<Rightarrow> dest_delta \<Rightarrow> net_pair shadow_table \<Rightarrow> net_pair shadow_table" where
  "table_after conns i e u =
     (case e of
        SetBestPath c \<Rightarrow> (case conn_get conns c of Some (_, p, _) \<Rightarrow> st_set u i p | None \<Rightarrow> u)
      | DelBestPath \<Rightarrow> st_del u i)"

lemma slot_inv_pop:
  assumes "slot_inv addr u t j" "table_pop_delta t = (Some (TableDelta i e), t')" "conns_ok addr conns"
    and "path_key ` set (d_paths (t_dests t i)) \<subseteq> conn_keys conns"
  shows "slot_inv addr (table_after conns i e u) t' j"
proof -
  have t: "t_deltas t = TableDelta i e # t_deltas t'" and view: "table_view t' = table_view t"
    using assms(2) by (auto simp: table_pop_delta_def table_view_def split: list.splits)
  have dests: "st_dests (table_after conns i e u) j = (if j \<noteq> i then st_dests u j else
      case e of DelBestPath \<Rightarrow> None
      | SetBestPath c \<Rightarrow> (case conn_get conns c of Some (_, p, _) \<Rightarrow> Some p | None \<Rightarrow> st_dests u j))"
    by (auto simp: table_after_def st_set_def st_del_def split: dest_delta.splits option.splits)
  show ?thesis
  proof (cases "j = i \<and> slot_pending i (t_deltas t') = []")
    case True
    then have final: "delta_key e = table_view t i" using assms(1) by (simp add: slot_inv_def t)
    show ?thesis
    proof (cases e)
      case DelBestPath
      then show ?thesis using True final dests by (simp add: slot_inv_def view)
    next
      case (SetBestPath c)
      then obtain p ps where "d_paths (t_dests t i) = p # ps" "path_key p = conn_key c"
        using final by (cases "d_paths (t_dests t i)") (auto simp: table_view_def best_key_def)
      then have "conn_key c \<in> conn_keys conns" using assms(4) by auto
      then obtain n pr m where g: "conn_get conns c = Some (n, pr, m)"
        using conn_get_None [of conns c] by (cases "conn_get conns c") auto
      then have "pr = addr (conn_key c)" using conns_ok_get [OF assms(3)] by blast
      then show ?thesis using True final [symmetric] dests SetBestPath g by (simp add: slot_inv_def view)
    qed
  next
    case False
    then show ?thesis using assms(1) dests by (auto simp: slot_inv_def t view split: if_splits)
  qed
qed

text \<open>What popping and delivering does to the worker: nothing, or one table or registry update.\<close>

lemma slots_inv_tables:
  assumes "slots_inv addr s r" "\<And>j. j < 4 \<Longrightarrow> j \<noteq> l \<Longrightarrow> r_tables r' ! j = r_tables r ! j" "l < 4" "length (sr_tables s) = 4"
    and "\<And>i. slot_inv addr u (r_tables r' ! l) i"
  shows "slots_inv addr (s\<lparr>sr_tables := (sr_tables s)[l := u]\<rparr>) r'"
  using assms by (auto simp: slots_inv_def nth_list_update)

lemma deliver_table:
  assumes inv: "rsf_inv addr f s" and l: "l < 4"
    and pop: "table_pop_delta (r_tables (rsf_router f) ! l) = (Some (TableDelta i e), r_tables r' ! l)"
    and frame: "\<And>j. j < 4 \<Longrightarrow> j \<noteq> l \<Longrightarrow> r_tables r' ! j = r_tables (rsf_router f) ! j"
      "wf_router r'" "r_node r' = r_node (rsf_router f)" "paths_known (rsf_conns f) r'"
    and upd: "s' = s\<lparr>sr_tables := (sr_tables s)[l := table_after (rsf_conns f) i e (sr_tables s ! l)]\<rparr>"
  shows "rsf_inv addr (f\<lparr>rsf_router := r'\<rparr>) s'"
proof -
  have known: "path_key ` set (slot_paths (rsf_router f) l i) \<subseteq> conn_keys (rsf_conns f)"
    using rsf_invD(3) [OF inv] l by (simp add: paths_known_def)
  have "slot_inv addr (table_after (rsf_conns f) i e (sr_tables s ! l)) (r_tables r' ! l) j" for j
    using inv l by (intro slot_inv_pop [OF _ pop rsf_invD(2) [OF inv] known]) (simp add: rsf_inv_def slots_inv_def)
  moreover have "length (sr_tables s) = 4" using inv by (simp add: rsf_inv_def wf_shadowD)
  ultimately have "slots_inv addr s' r'"
    unfolding upd using inv frame(1) l by (intro slots_inv_tables [of addr s "rsf_router f"]) (auto simp: rsf_inv_def)
  moreover have "wf_shadow s'" "sr_node s' = sr_node s"
    using inv l by (auto simp: upd rsf_inv_def wf_shadow_def table_after_def st_set_def st_del_def nth_list_update
        split: dest_delta.splits option.splits)
  ultimately show ?thesis using inv frame(2-4) by (simp add: rsf_inv_def)
qed

lemma rsf_pop_cases:
  assumes "rsf_inv addr f s" "rsf_pop_output f = (out, f')"
  obtains (queued) "router_pop_delta (rsf_router f) = (None, rsf_router f)"
      "f' = f\<lparr>rsf_queue := tl (rsf_queue f)\<rparr>" "\<And>b d. out \<noteq> Some (OutToWorker b d)"
  | (registry) d r where "router_pop_delta (rsf_router f) = (Some (DeltaRegistry d), r)" "f' = f\<lparr>rsf_router := r\<rparr>"
      "out = map_option (OutToWorker True) (shadow_rule (rsf_conns f) (DeltaRegistry d))"
  | (table) l i e r where "router_pop_delta (rsf_router f) = (Some (DeltaTable (word_of_nat l) (TableDelta i e)), r)"
      "l < 4" "f' = f\<lparr>rsf_router := r\<rparr>"
      "out = map_option (OutToWorker True) (shadow_rule (rsf_conns f) (DeltaTable (word_of_nat l) (TableDelta i e)))"
proof -
  note wf = rsf_invD(1) [OF assms(1)]
  obtain d r where pop: "router_pop_delta (rsf_router f) = (d, r)" by fastforce
  from wf pop show ?thesis
  proof (cases rule: router_pop_cases)
    case none
    have "f\<lparr>rsf_router := rsf_router f, rsf_queue := q\<rparr> = f\<lparr>rsf_queue := q\<rparr>" for q by simp
    then show ?thesis
      using none pop assms rsf_invD(4) [OF assms(1)]
      by (intro queued) (auto simp: rsf_pop_output_def split: list.splits)
  next
    case (registry d')
    then show ?thesis using that(2) pop assms(2) by (auto simp: rsf_pop_output_def)
  next
    case (table l d')
    obtain i e where "d' = TableDelta i e" by (cases d')
    then show ?thesis using that(3) table pop assms(2) by (auto simp: rsf_pop_output_def)
  qed
qed

lemma pop_known:
  "wf_router r \<Longrightarrow> router_pop_delta r = (e, r') \<Longrightarrow> paths_known conns r \<Longrightarrow> paths_known conns r'"
  by (auto simp: paths_known_def pop_paths)

lemma rsf_registry_inv:
  assumes "rsf_inv addr f s" "router_pop_delta (rsf_router f) = (Some (DeltaRegistry d), r)"
    and "sr_tables s' = sr_tables s" "sr_node s' = sr_node s"
  shows "rsf_inv addr (f\<lparr>rsf_router := r\<rparr>) s'"
proof -
  note wf = rsf_invD(1) [OF assms(1)]
  have "r_tables r = r_tables (rsf_router f)" using wf assms(2) by (cases rule: router_pop_cases) auto
  then show ?thesis
    using assms router_pop_wf [OF wf assms(2)] pop_known [OF wf assms(2)]
    by (auto simp: rsf_inv_def slots_inv_def wf_shadow_def)
qed

lemma registry_rule_frame:
  assumes "shadow_rule conns (DeltaRegistry d) = Some delta" "sr_apply_delta s delta = Some s'"
  shows "sr_tables s' = sr_tables s \<and> sr_node s' = sr_node s"
  using assms
  by (auto simp: shadow_rule_def sr_apply_delta_def split: registry_delta.splits registry_dest_delta.splits)

lemma table_rule_apply:
  assumes "length (sr_tables s) = 4" "l < 4"
  shows "case shadow_rule conns (DeltaTable (word_of_nat l) (TableDelta i e)) of
      None \<Rightarrow> table_after conns i e (sr_tables s ! l) = sr_tables s ! l
    | Some delta \<Rightarrow> sr_apply_delta s delta = Some (s\<lparr>sr_tables := (sr_tables s)[l := table_after conns i e (sr_tables s ! l)]\<rparr>)"
  using assms unat_small [OF assms(2)]
  by (auto simp: shadow_rule_def sr_apply_delta_def table_after_def split: dest_delta.splits option.splits)

lemma rsf_table_inv:
  assumes "rsf_inv addr f s" "l < 4"
    and "router_pop_delta (rsf_router f) = (Some (DeltaTable (word_of_nat l) (TableDelta i e)), r)"
  shows "rsf_inv addr (f\<lparr>rsf_router := r\<rparr>)
    (s\<lparr>sr_tables := (sr_tables s)[l := table_after (rsf_conns f) i e (sr_tables s ! l)]\<rparr>)"
proof -
  note wf = rsf_invD(1) [OF assms(1)]
  note frame = router_pop_wf [OF wf assms(3)] pop_known [OF wf assms(3) rsf_invD(3) [OF assms(1)]]
  from wf assms(3) show ?thesis
  proof (cases rule: router_pop_cases)
    case (table k d)
    have "k = l" using table(1,2) assms(2) unat_small [of k] unat_small [of l] by simp
    then show ?thesis
      using table frame by (intro deliver_table [OF assms(1,2)]) auto
  qed simp_all
qed

lemma rsf_deliver_inv:
  assumes "rsf_inv addr f s" "rsf_pop_output f = (Some (OutToWorker b delta), f')" "sr_apply_delta s delta = Some s'"
  shows "rsf_inv addr f' s'"
  using assms(1,2)
proof (cases rule: rsf_pop_cases)
  case (registry d r)
  obtain delta' where rule: "shadow_rule (rsf_conns f) (DeltaRegistry d) = Some delta'" and "delta = delta'"
    using registry(3) by (cases "shadow_rule (rsf_conns f) (DeltaRegistry d)") auto
  with registry_rule_frame [OF rule] assms(3) have "sr_tables s' = sr_tables s \<and> sr_node s' = sr_node s" by simp
  then show ?thesis unfolding registry(2) using rsf_registry_inv [OF assms(1) registry(1)] by blast
next
  case (table l i e r)
  have "length (sr_tables s) = 4" using assms(1) by (simp add: rsf_inv_def wf_shadowD)
  from table_rule_apply [OF this table(2), of "rsf_conns f" i e] table(4) assms(3)
  have "s' = s\<lparr>sr_tables := (sr_tables s)[l := table_after (rsf_conns f) i e (sr_tables s ! l)]\<rparr>"
    by (auto split: option.splits)
  then show ?thesis using rsf_table_inv [OF assms(1) table(2,1)] table(3) by simp
qed blast

lemma in_set_tlD: "x \<in> set (tl xs) \<Longrightarrow> x \<in> set xs"
  by (cases xs) auto

lemma rsf_lost_inv:
  assumes "rsf_inv addr f s" "rsf_pop_output f = (out, f')" "\<forall>b delta. out \<noteq> Some (OutToWorker b delta)"
  shows "rsf_inv addr f' s"
  using assms(1,2)
proof (cases rule: rsf_pop_cases)
  case queued
  have "rsf_inv addr (f\<lparr>rsf_queue := tl (rsf_queue f)\<rparr>) s"
    by (rule rsf_inv_queue [OF assms(1)]) (use rsf_invD(4) [OF assms(1)] in \<open>auto dest: in_set_tlD\<close>)
  then show ?thesis by (simp add: queued)
next
  case (registry d r)
  then show ?thesis using rsf_registry_inv [OF assms(1)] by simp
next
  case (table l i e r)
  have len: "length (sr_tables s) = 4" using assms(1) by (simp add: rsf_inv_def wf_shadowD)
  have "shadow_rule (rsf_conns f) (DeltaTable (word_of_nat l) (TableDelta i e)) = None"
    using table(4) assms(3) by (auto simp: map_option_case split: option.splits)
  then have "table_after (rsf_conns f) i e (sr_tables s ! l) = sr_tables s ! l"
    using table_rule_apply [OF len table(2), of "rsf_conns f" i e] by simp
  then show ?thesis using rsf_table_inv [OF assms(1) table(2,1)] table(3) by simp
qed

lemma rsf_new_inv: "rsf_inv addr (rsf_new n services) (sr_new n)"
proof -
  have "slots_inv addr (sr_new n) (router_new n)"
    using mirrors_new [of addr n]
    by (auto simp: slots_inv_def slot_inv_def mirrors_def router_new_def table_new_def dest!: less_4_cases)
  moreover have "paths_known [] (router_new n)" by (simp add: paths_known_def)
  ultimately show ?thesis
    by (simp add: rsf_inv_def rsf_new_def router_new_wf sr_new_wf conns_ok_def) (simp add: sr_new_def router_new_def)
qed

lemma rsf_run_inv: "rsf_run ser de addr n f s \<Longrightarrow> de_shape de \<Longrightarrow> rsf_inv addr f s"
proof (induction rule: rsf_run.induct)
  case (run_new services)
  show ?case by (rule rsf_new_inv)
next
  case (run_shared f s input f')
  then show ?case using rsf_on_shared_inv by blast
next
  case (run_input f s input f')
  then show ?case using rsf_on_input_inv by blast
next
  case (run_deliver f s b delta f' s')
  then show ?case using rsf_deliver_inv by blast
next
  case (run_pop f s out f')
  then show ?case using rsf_lost_inv by blast
qed

text \<open>
  C7. Workers forward as the controller routes. However connection events, synchronisation messages and
  deliveries interleave, and even though deltas about a connection that has been closed meanwhile are dropped,
  as soon as the core router has no pending delta the worker's \<^verbatim>\<open>next\<close> and \<^verbatim>\<open>closest_for\<close> return, for every
  destination and key, the address pair of the connection that the core router chooses.
\<close>

theorem workers_follow_controller:
  assumes "de_shape de" "rsf_run ser de addr n f s" "router_pop_delta (rsf_router f) = (None, r')"
  shows "sr_next s dst = map_option (map_option (\<lambda>(c, _). addr (conn_key c))) (router_next (rsf_router f) dst []) \<and>
    sr_closest_for s key = map_option (map_option (\<lambda>(c, _). addr (conn_key c))) (router_closest_node (rsf_router f) key [])"
proof -
  have inv: "rsf_inv addr f s" using rsf_run_inv [OF assms(2,1)] .
  note wf = rsf_invD(1) [OF inv]
  have "t_deltas (r_tables (rsf_router f) ! l) = []" if "l < 4" for l
    using wf assms(3) by (cases rule: router_pop_cases) (use that in auto)
  then have "mirrors addr s (rsf_router f)"
    using inv by (auto simp: mirrors_def rsf_inv_def slots_inv_def slot_inv_def)
  moreover have "wf_shadow s" using inv by (simp add: rsf_inv_def)
  ultimately show ?thesis
    using next_agree [OF wf] closest_layers_agree [OF wf _ _ layers_le_3]
    unfolding sr_closest_for_def router_closest_node_def by blast
qed

definition demo_pair :: net_pair where
  "demo_pair = \<lparr>np_local = SocketV4 1 80, np_remote = SocketV4 2 80\<rparr>"

lemma workers_follow_controller_witness:
  "de_shape (\<lambda>_. None) \<and> rsf_run (\<lambda>_. []) (\<lambda>_. None) (\<lambda>_. demo_pair) 5 (rsf_new 5 [] :: unit rsf) (sr_new 5) \<and>
   sr_next (sr_new 5) 9 = map_option (map_option (\<lambda>(c, _). demo_pair)) (router_next (router_new 5) 9 [])"
proof -
  have shape: "de_shape (\<lambda>_. None)" by (simp add: de_shape_def)
  have run: "rsf_run (\<lambda>_. []) (\<lambda>_. None) (\<lambda>_. demo_pair) 5 (rsf_new 5 [] :: unit rsf) (sr_new 5)" by (rule run_new)
  have "router_pop_delta (rsf_router (rsf_new 5 [] :: unit rsf)) = (None, router_new 5)"
    by (simp add: rsf_new_def router_pop_delta_def router_new_def registry_pop_delta_def registry_new_def
        table_pop_delta_def table_new_def)
  from workers_follow_controller [OF shape run this, of 9] shape run show ?thesis by (simp add: rsf_new_def)
qed

subsection \<open>Services over a closed connection\<close>

definition services_known :: "(node_id \<times> net_pair \<times> metric) conn_map \<Rightarrow> router \<Rightarrow> bool" where
  "services_known conns r \<longleftrightarrow> (\<forall>i. path_key ` set (service_paths r i) \<subseteq> conn_keys conns)"

lemma set_conn_services:
  assumes "wf_router (rsf_router f)" "set_conn ctx m f = Some f'" "hops m \<noteq> []"
  shows "services_known (rsf_conns f) (rsf_router f) \<Longrightarrow> services_known (rsf_conns f') (rsf_router f')"
    "conn_keys (rsf_conns f') = insert (conn_key (cx_conn ctx)) (conn_keys (rsf_conns f))"
  using assms set_direct_services [OF assms(1,3)]
  by (fastforce simp: set_conn_def bind_eq_Some_conv services_known_def conn_keys_insert)+

lemma send_sync_frame:
  "send_sync_to ser c n f = Some f' \<Longrightarrow> rsf_router f' = rsf_router f \<and> rsf_conns f' = rsf_conns f"
  by (auto simp: send_sync_to_def bind_eq_Some_conv)

lemma sync_all_frame:
  "for_run (\<lambda>(conn, n, _). send_sync_to ser conn n) xs f = Some f' \<Longrightarrow> rsf_router f' = rsf_router f \<and> rsf_conns f' = rsf_conns f"
proof (induction xs arbitrary: f)
  case (Cons x xs)
  obtain c n v where x: "x = (c, n, v)" by (cases x)
  then obtain g where g: "send_sync_to ser c n f = Some g" "for_run (\<lambda>(conn, n, _). send_sync_to ser conn n) xs g = Some f'"
    using Cons.prems by (auto simp: bind_eq_Some_conv)
  then show ?case using Cons.IH [OF g(2)] send_sync_frame [OF g(1)] by simp
qed simp

lemma register_all_services: "service_paths (fold (\<lambda>s r. router_register_service r s) xs r) i = service_paths r i"
  by (induction xs arbitrary: r) (simp_all add: router_register_service_def registry_add_service_def)

text \<open>The connection that an event opens or measures.\<close>

fun event_opens :: "feature_shared_input \<Rightarrow> conn_key option" where
  "event_opens (Connection (Connected ctx)) = Some (conn_key (cx_conn ctx))"
| "event_opens (Connection (Stats ctx _)) = Some (conn_key (cx_conn ctx))"
| "event_opens _ = None"

lemma shared_services:
  assumes "wf_router (rsf_router f)" "rsf_on_shared_input ser f input = Some f'"
  shows "services_known (rsf_conns f) (rsf_router f) \<Longrightarrow> services_known (rsf_conns f') (rsf_router f')"
    "conn_keys (rsf_conns f') \<subseteq> conn_keys (rsf_conns f) \<union> set_option (event_opens input)"
proof -
  have "(services_known (rsf_conns f) (rsf_router f) \<longrightarrow> services_known (rsf_conns f') (rsf_router f')) \<and>
    conn_keys (rsf_conns f') \<subseteq> conn_keys (rsf_conns f) \<union> set_option (event_opens input)"
  proof (cases input)
    case (Tick t)
    then show ?thesis
      using assms(2) sync_all_frame
      by (fastforce simp: rsf_on_shared_input_def services_known_def register_all_services Let_def split: if_splits)
  next
    case (Connection ev)
    show ?thesis
    proof (cases ev)
      case (Connected ctx)
      obtain f1 where f1: "set_conn ctx (metric_new INIT_RTT_MS [cx_node ctx] INIT_BW) f = Some f1"
          "send_sync_to ser (cx_conn ctx) (cx_node ctx) f1 = Some f'"
        using assms(2) Connection Connected by (auto simp: rsf_on_shared_input_def bind_eq_Some_conv)
      show ?thesis
        using set_conn_services [OF assms(1) f1(1)] send_sync_frame [OF f1(2)] Connection Connected by simp
    next
      case (Stats ctx rtt)
      then show ?thesis
        using set_conn_services [OF assms(1), of ctx "metric_new (ucast rtt) [cx_node ctx] INIT_BW" f'] assms(2) Connection
        by (simp add: rsf_on_shared_input_def)
    next
      case (Disconnected ctx)
      then show ?thesis
        using assms(2) Connection
        by (fastforce simp: rsf_on_shared_input_def services_known_def del_direct_services [OF assms(1)] conn_keys_remove)
    qed
  qed
  then show "services_known (rsf_conns f) (rsf_router f) \<Longrightarrow> services_known (rsf_conns f') (rsf_router f')"
    "conn_keys (rsf_conns f') \<subseteq> conn_keys (rsf_conns f) \<union> set_option (event_opens input)" by blast+
qed

lemma input_services:
  assumes "rsf_inv addr f s" "de_shape de" "rsf_on_input de f input = Some f'"
  shows "services_known (rsf_conns f) (rsf_router f) \<Longrightarrow> services_known (rsf_conns f') (rsf_router f')" "rsf_conns f' = rsf_conns f"
proof -
  show "rsf_conns f' = rsf_conns f"
    using assms(3) by (auto simp: rsf_on_input_def bind_eq_Some_conv split: feature_input.splits rsf_control.splits if_splits option.splits)
  assume known: "services_known (rsf_conns f) (rsf_router f)"
  consider (same) "rsf_router f' = rsf_router f" "rsf_conns f' = rsf_conns f"
    | (sync) c n p m es ts where "conn_get (rsf_conns f) c = Some (n, p, m)" "length ts = 4"
        "router_apply_sync (rsf_router f) c m (RouterSync (RegistrySync es) ts) = Some (rsf_router f')"
        "rsf_conns f' = rsf_conns f"
  proof (cases input)
    case (NetMsg ctx meta buf)
    show ?thesis
    proof (cases "\<exists>n p m x. im_secure meta \<and> conn_get (rsf_conns f) (cx_conn ctx) = Some (n, p, m) \<and> de buf = Some x")
      case True
      then obtain n p m x where c: "im_secure meta" "conn_get (rsf_conns f) (cx_conn ctx) = Some (n, p, m)" "de buf = Some x" by blast
      obtain rs ts where "x = RouterSync rs ts" by (cases x)
      moreover obtain es where "rs = RegistrySync es" by (cases rs)
      ultimately have x: "de buf = Some (RouterSync (RegistrySync es) ts)" using c(3) by simp
      then have "length ts = 4" using assms(2) by (simp add: de_shape_def)
      then show ?thesis
        using assms(3) NetMsg c(1,2) x that(2) [of "cx_conn ctx" n p m ts es]
        by (auto simp: rsf_on_input_def bind_eq_Some_conv simp del: router_apply_sync.simps)
    next
      case False
      then have "f' = f" using assms(3) NetMsg by (auto simp: rsf_on_input_def split: if_splits option.splits)
      then show ?thesis using that(1) by simp
    qed
  next
    case (Control actor c)
    then show ?thesis using assms(3) that(1) by (cases c) (auto simp: rsf_on_input_def bind_eq_Some_conv)
  next
    case (FromWorker x)
    then show ?thesis using assms(3) that(1) by (simp add: rsf_on_input_def)
  next
    case (LocalMsg x y)
    then show ?thesis using assms(3) that(1) by (simp add: rsf_on_input_def)
  qed
  then show "services_known (rsf_conns f') (rsf_router f')"
  proof cases
    case same
    then show ?thesis using known by simp
  next
    case sync
    note inv = rsf_invD [OF assms(1)]
    have ne: "hops m \<noteq> []" using conns_ok_get [OF inv(2) sync(1)] by simp
    have key: "conn_key c \<in> conn_keys (rsf_conns f)" using sync(1) conn_get_None [of "rsf_conns f" c] by simp
    show ?thesis
      using known key set_sort_put [OF service_paths_wf [OF inv(1)]]
      by (fastforce simp: services_known_def sync(4) apply_sync_services [OF inv(1) ne sync(2,3)] split: option.splits)
  qed
qed

lemma pop_services:
  assumes "wf_router (rsf_router f)" "rsf_pop_output f = (out, f')"
  shows "services_known (rsf_conns f) (rsf_router f) \<Longrightarrow> services_known (rsf_conns f') (rsf_router f')" "rsf_conns f' = rsf_conns f"
proof -
  obtain e r where pop: "router_pop_delta (rsf_router f) = (e, r)" by fastforce
  have "rsf_router f' = r \<and> rsf_conns f' = rsf_conns f"
    using assms(2) pop by (auto simp: rsf_pop_output_def split: option.splits list.splits)
  then show "services_known (rsf_conns f) (rsf_router f) \<Longrightarrow> services_known (rsf_conns f') (rsf_router f')" "rsf_conns f' = rsf_conns f"
    using pop_paths(2) [OF assms(1) pop] by (simp_all add: services_known_def)
qed

lemma services_known_run: "rsf_run ser de addr n f s \<Longrightarrow> de_shape de \<Longrightarrow> services_known (rsf_conns f) (rsf_router f)"
proof (induction rule: rsf_run.induct)
  case (run_new services)
  show ?case by (simp add: services_known_def rsf_new_def router_new_def registry_new_def rdest_default_def)
next
  case (run_shared f s input f')
  then show ?case using shared_services(1) rsf_invD(1) [OF rsf_run_inv] by blast
next
  case (run_input f s input f')
  then show ?case using input_services(1) rsf_run_inv by blast
next
  case (run_deliver f s b delta f' s')
  then show ?case using pop_services(1) rsf_invD(1) [OF rsf_run_inv] by blast
next
  case (run_pop f s out f')
  then show ?case using pop_services(1) rsf_invD(1) [OF rsf_run_inv] by blast
qed

text \<open>Every continuation of a run in which connection \<open>k\<close> is not opened again.\<close>

inductive rsf_after :: "(router_sync \<Rightarrow> bytes) \<Rightarrow> (bytes \<Rightarrow> router_sync option) \<Rightarrow> (conn_key \<Rightarrow> net_pair) \<Rightarrow> conn_key \<Rightarrow>
    'u rsf \<Rightarrow> net_pair shadow_router \<Rightarrow> 'u rsf \<Rightarrow> net_pair shadow_router \<Rightarrow> bool" for ser de addr k f0 s0 where
  after_start: "rsf_after ser de addr k f0 s0 f0 s0"
| after_shared: "rsf_after ser de addr k f0 s0 f s \<Longrightarrow> event_addr addr input \<Longrightarrow> event_opens input \<noteq> Some k \<Longrightarrow>
    rsf_on_shared_input ser f input = Some f' \<Longrightarrow> rsf_after ser de addr k f0 s0 f' s"
| after_input: "rsf_after ser de addr k f0 s0 f s \<Longrightarrow> rsf_on_input de f input = Some f' \<Longrightarrow> rsf_after ser de addr k f0 s0 f' s"
| after_deliver: "rsf_after ser de addr k f0 s0 f s \<Longrightarrow> rsf_pop_output f = (Some (OutToWorker b delta), f') \<Longrightarrow>
    sr_apply_delta s delta = Some s' \<Longrightarrow> rsf_after ser de addr k f0 s0 f' s'"
| after_pop: "rsf_after ser de addr k f0 s0 f s \<Longrightarrow> rsf_pop_output f = (out, f') \<Longrightarrow>
    (\<forall>b delta. out \<noteq> Some (OutToWorker b delta)) \<Longrightarrow> rsf_after ser de addr k f0 s0 f' s"

text \<open>What a worker holds of a service over an address pair.\<close>

definition service_entries :: "'r \<Rightarrow> 'r shadow_router \<Rightarrow> u8 \<Rightarrow> 'r service_conn set" where
  "service_entries p s i = {x \<in> set (sv_dests (sr_remote s i)). sc_conn x = p}"

lemma position_at: "position P xs = Some i \<Longrightarrow> i < length xs \<and> P (xs ! i)"
  by (induction xs arbitrary: i) (auto split: if_splits)

lemma set_list_update_other:
  assumes "i < length xs" "\<not> P (xs ! i)" "\<not> P x"
  shows "{y \<in> set (xs[i := x]). P y} = {y \<in> set xs. P y}"
proof -
  have "(\<exists>j<length xs. xs[i := x] ! j = y) \<longleftrightarrow> (\<exists>j<length xs. xs ! j = y)" if "P y" for y
    using assms that by (metis nth_list_update)
  then show ?thesis by (auto simp: in_set_conv_nth)
qed

lemma set_conn_entries:
  assumes "q \<noteq> p"
  shows "{x \<in> set (sv_dests (sv_set_conn v q nxt dst sc)). sc_conn x = p} = {x \<in> set (sv_dests v). sc_conn x = p}"
proof (cases "position (\<lambda>x. sc_conn x = q) (sv_dests v)")
  case None
  then show ?thesis using assms by (auto simp: sv_set_conn_def Let_def)
next
  case (Some i)
  then show ?thesis
    using position_at [OF Some] assms set_list_update_other [of i "sv_dests v" "\<lambda>x. sc_conn x = p"]
    by (simp add: sv_set_conn_def Let_def)
qed

text \<open>A translated delta names the pair of a connection that the feature knows, so it leaves the entries over
  any other pair alone.\<close>

lemma rule_entries:
  assumes "conns_ok addr conns" "shadow_rule conns d = Some delta" "sr_apply_delta s delta = Some s'" "p \<notin> addr ` conn_keys conns"
  shows "service_entries p s' i = service_entries p s i"
proof -
  have other: "pair \<noteq> p" if "conn_get conns c = Some (n, pair, m)" for c n pair m
    using conns_ok_get [OF assms(1) that] that assms(4) conn_get_None [of conns c] by auto
  show ?thesis
  proof (cases delta)
    case (SetServiceRemote j q nxt dst sc)
    then have "q \<noteq> p"
      using assms(2) other by (auto simp: shadow_rule_def split: router_delta.splits table_delta.splits dest_delta.splits
          registry_delta.splits registry_dest_delta.splits)
    moreover have "s' = s\<lparr>sr_remote := (sr_remote s)(j := sv_set_conn (sr_remote s j) q nxt dst sc)\<rparr>"
      using assms(3) SetServiceRemote by (simp add: sr_apply_delta_def)
    ultimately show ?thesis by (simp add: service_entries_def set_conn_entries)
  next
    case (DelServiceRemote j q)
    then have "q \<noteq> p"
      using assms(2) other by (auto simp: shadow_rule_def split: router_delta.splits table_delta.splits dest_delta.splits
          registry_delta.splits registry_dest_delta.splits)
    then show ?thesis
      using assms(3) DelServiceRemote by (auto simp: sr_apply_delta_def service_entries_def sv_del_conn_def split: if_splits)
  qed (use assms(3) in \<open>auto simp: sr_apply_delta_def service_entries_def bind_eq_Some_conv\<close>)
qed

lemma deliver_entries:
  assumes "rsf_inv addr f s" "rsf_pop_output f = (Some (OutToWorker b delta), f')" "sr_apply_delta s delta = Some s'"
    and "p \<notin> addr ` conn_keys (rsf_conns f)"
  shows "service_entries p s' i = service_entries p s i"
  using assms(1,2)
proof (cases rule: rsf_pop_cases)
  case (registry d r)
  then show ?thesis using rule_entries [OF rsf_invD(2) [OF assms(1)] _ assms(3,4)] by (auto simp: map_option_case split: option.splits)
next
  case (table l i e r)
  then show ?thesis using rule_entries [OF rsf_invD(2) [OF assms(1)] _ assms(3,4)] by (auto simp: map_option_case split: option.splits)
qed blast

lemma rsf_after_run:
  assumes "rsf_after ser de addr k f0 s0 f s" "de_shape de" "rsf_run ser de addr n f0 s0" "k \<notin> conn_keys (rsf_conns f0)"
    and "\<And>k'. addr k' = addr k \<Longrightarrow> k' = k"
  shows "rsf_run ser de addr n f s \<and> k \<notin> conn_keys (rsf_conns f) \<and> service_entries (addr k) s = service_entries (addr k) s0"
  using assms(1)
proof (induction rule: rsf_after.induct)
  case after_start
  then show ?case using assms(3,4) by simp
next
  case (after_shared f s input f')
  then have "wf_router (rsf_router f)" using rsf_invD(1) [OF rsf_run_inv] assms(2) by blast
  from shared_services(2) [OF this after_shared.hyps(4)] after_shared
  show ?case by (auto intro: run_shared)
next
  case (after_input f s input f')
  then show ?case using input_services(2) [OF rsf_run_inv] assms(2) by (metis run_input)
next
  case (after_deliver f s b delta f' s')
  then have inv: "rsf_inv addr f s" using rsf_run_inv assms(2) by blast
  have "addr k \<notin> addr ` conn_keys (rsf_conns f)" using after_deliver.IH assms(5) by (metis imageE)
  from deliver_entries [OF inv after_deliver.hyps(2,3) this] after_deliver pop_services(2) [OF rsf_invD(1) [OF inv] after_deliver.hyps(2)]
  show ?case by (auto intro: run_deliver)
next
  case (after_pop f s out f')
  then have "wf_router (rsf_router f)" using rsf_invD(1) [OF rsf_run_inv] assms(2) by blast
  from pop_services(2) [OF this after_pop.hyps(2)] after_pop show ?case by (auto intro: run_pop)
qed

text \<open>
  C16. The removal of a closed connection's service paths never reaches the workers. In every run, from the
  moment the controller handles \<^verbatim>\<open>Disconnected\<close> for a connection and as long as the connection is not opened
  again, whatever connection events, messages and deliveries follow, the core router offers no service over the
  connection, but each worker keeps exactly the service destinations over the connection's address pair that it
  held at that moment (no other connection using the pair).
\<close>

theorem disconnect_keeps_stale_services:
  assumes "de_shape de" "rsf_run ser de addr n f s" "rsf_on_shared_input ser f (Connection (Disconnected ctx)) = Some f1"
    and "\<And>k'. addr k' = addr (conn_key (cx_conn ctx)) \<Longrightarrow> k' = conn_key (cx_conn ctx)"
    and "rsf_after ser de addr (conn_key (cx_conn ctx)) f1 s f2 s2"
  shows "service_entries (addr (conn_key (cx_conn ctx))) s2 i = service_entries (addr (conn_key (cx_conn ctx))) s i \<and>
    conn_key (cx_conn ctx) \<notin> path_key ` set (service_paths (rsf_router f2) i)"
proof -
  have run: "rsf_run ser de addr n f1 s" using run_shared [OF assms(2) _ assms(3)] by simp
  have "conn_key (cx_conn ctx) \<notin> conn_keys (rsf_conns f1)"
    using assms(3) by (auto simp: rsf_on_shared_input_def conn_keys_remove)
  from rsf_after_run [OF assms(5,1) run this] assms(4)
  have run2: "rsf_run ser de addr n f2 s2" "conn_key (cx_conn ctx) \<notin> conn_keys (rsf_conns f2)"
    "service_entries (addr (conn_key (cx_conn ctx))) s2 = service_entries (addr (conn_key (cx_conn ctx))) s" by blast+
  show ?thesis using services_known_run [OF run2(1) assms(1)] run2 by (auto simp: services_known_def)
qed

text \<open>A neighbour announces a service, the worker learns it, and the connection closes.\<close>

lemma registry_map_deltas:
  "rg_deltas (registry_cells.map_cells h g) =
     rg_deltas g @ concat (map (\<lambda>i. map (ServiceRemote i) (rd_deltas (h i (rg_remote g i)))) all_u8)"
proof -
  have "rg_deltas (fold (\<lambda>i s. put_rdest i (h i (rg_remote s i)) s) xs g) =
      rg_deltas g @ concat (map (\<lambda>i. map (ServiceRemote i) (rd_deltas (h i (rg_remote g i)))) xs)" if "distinct xs" for xs
    using that
  proof (induction xs arbitrary: g)
    case (Cons x xs)
    let ?g = "put_rdest x (h x (rg_remote g x)) g"
    have "map (\<lambda>i. map (ServiceRemote i) (rd_deltas (h i (rg_remote ?g i)))) xs =
        map (\<lambda>i. map (ServiceRemote i) (rd_deltas (h i (rg_remote g i)))) xs"
      using Cons.prems by (auto simp: put_rdest_at)
    moreover have "rg_deltas ?g = rg_deltas g @ map (ServiceRemote x) (rd_deltas (h x (rg_remote g x)))"
      by (simp add: put_rdest_def)
    ultimately show ?case using Cons.IH [of ?g] Cons.prems by (simp del: map_eq_conv)
  qed simp
  then show ?thesis by (simp add: registry_cells.map_cells_def)
qed

lemma concat_map_single: "distinct xs \<Longrightarrow> a \<in> set xs \<Longrightarrow> (\<And>i. i \<noteq> a \<Longrightarrow> g i = []) \<Longrightarrow> concat (map g xs) = g a"
proof (induction xs)
  case (Cons x xs)
  show ?case
  proof (cases "x = a")
    case True
    then have "\<forall>i\<in>set xs. g i = []" using Cons.prems by (metis distinct.simps(2))
    then show ?thesis using True by simp
  next
    case False
    then show ?thesis using Cons by simp
  qed
qed simp

lemma registry_map_single:
  assumes "rg_deltas g = []" "\<And>i. i \<noteq> a \<Longrightarrow> rd_deltas (h i (rg_remote g i)) = []"
  shows "rg_deltas (registry_cells.map_cells h g) = map (ServiceRemote a) (rd_deltas (h a (rg_remote g a)))"
  using assms concat_map_single [OF distinct_all_u8, of a "\<lambda>i. map (ServiceRemote i) (rd_deltas (h i (rg_remote g i)))"]
  by (simp add: registry_map_deltas)

definition demo_ctx :: connection_ctx where
  "demo_ctx = \<lparr>cx_conn = from_out 0 1, cx_node = 2, cx_pair = demo_pair\<rparr>"

definition demo_other :: net_pair where
  "demo_other = \<lparr>np_local = SocketV4 1 80, np_remote = SocketV4 3 80\<rparr>"

definition demo_addrs :: "conn_key \<Rightarrow> net_pair" where
  "demo_addrs k = (if k = conn_key (cx_conn demo_ctx) then demo_pair else demo_other)"

definition demo_sync :: "bytes \<Rightarrow> router_sync option" where
  "demo_sync b = Some (RouterSync (RegistrySync [(7, metric_new 0 [] 1000000)]) [None, None, None, None])"

lemma demo_services_run:
  "\<exists>f :: unit rsf. \<exists>s m. rsf_run (\<lambda>_. []) demo_sync demo_addrs 1 f s \<and> service_entries demo_pair s 7 \<noteq> {} \<and>
     rg_deltas (r_registry (rsf_router f)) = [] \<and>
     rg_remote (r_registry (rsf_router f)) = (\<lambda>_. rdest_default)(7 := \<lparr>rd_paths = [Path (from_out 0 1) m], rd_deltas = []\<rparr>)"
proof -
  let ?run = "rsf_run (\<lambda>_. []) demo_sync demo_addrs 1" and ?c = "from_out 0 1" and ?f0 = "rsf_new 1 [] :: unit rsf"
  let ?m = "metric_new INIT_RTT_MS [2] INIT_BW" and ?es = "[(7, metric_new 0 [] 1000000)]"
  have ne: "hops ?m \<noteq> []" by (simp add: metric_new_def)
  obtain r where r: "router_set_direct (router_new 1) ?c ?m = Some r" and reg: "r_registry r = registry_new 1"
    using router_set_direct_run [OF router_new_wf ne, of 1 ?c]
    by (cases "unat (eq_util_layer (r_node (router_new 1)) (last (hops ?m)))") (auto simp: Let_def router_new_def)
  note wf = router_update_wf [OF router_update_set_direct [OF router_new_wf ne r]]
  obtain rs where rs: "router_create_sync r 2 = Some rs" using router_create_sync_run [OF wf] by blast
  define f1 where "f1 = ?f0\<lparr>rsf_conns := [(?c, 2, demo_pair, ?m)], rsf_router := r, rsf_queue := [OutSendDirect ?c sync_meta []]\<rparr>"
  have "rsf_on_shared_input (\<lambda>_. []) ?f0 (Connection (Connected demo_ctx)) = Some f1"
    using r rs by (simp add: rsf_on_shared_input_def set_conn_def send_sync_to_def demo_ctx_def rsf_new_def f1_def)
  then have run1: "?run f1 (sr_new 1)"
    by (rule run_shared [OF run_new, rotated]) (simp add: demo_addrs_def demo_ctx_def)
  define g where "g = registry_cells.map_cells (synced_rdest ?c (sync_cache ?m ?es)) (registry_new 1)"
  obtain ts where sync: "router_apply_sync r ?c ?m (RouterSync (RegistrySync ?es) [None, None, None, None]) = Some (r\<lparr>r_tables := ts, r_registry := g\<rparr>)"
    using router_apply_sync_run [OF wf ne, of "[None, None, None, None]" ?c ?es] by (simp add: g_def reg del: router_apply_sync.simps)
  define f2 where "f2 = f1\<lparr>rsf_router := r\<lparr>r_tables := ts, r_registry := g\<rparr>\<rparr>"
  have "rsf_on_input demo_sync f1 (NetMsg demo_ctx \<lparr>im_source = None, im_ttl = 1, im_meta = 0, im_secure = True\<rparr> []) = Some f2"
    using sync by (simp add: rsf_on_input_def f1_def f2_def demo_ctx_def demo_sync_def del: router_apply_sync.simps)
  from run_input [OF run1 this] have run2: "?run f2 (sr_new 1)" .
  let ?m7 = "metric_add (metric_new 0 [] 1000000) ?m" and ?g0 = "registry_new 1"
  have hops7: "hops ?m7 = [2]" by (simp add: metric_add_def metric_new_def concat_hops_def)
  have other: "synced_rdest ?c (sync_cache ?m ?es) i rdest_default = rdest_default" if "i \<noteq> 7" for i
    using that by (simp add: synced_rdest_def sync_cache_def rdest_del_path_def rdest_default_def)
  have at7: "synced_rdest ?c (sync_cache ?m ?es) 7 rdest_default =
      \<lparr>rd_paths = [Path ?c ?m7], rd_deltas = [SetServicePath ?c 2 (score ?m7)]\<rparr>"
    using hops7 by (simp add: synced_rdest_def sync_cache_def set_rdest_def rdest_set_path_def rdest_default_def dest_node_def sort_paths_def)
  have remote0: "rg_remote ?g0 i = rdest_default" and deltas0: "rg_deltas ?g0 = []" for i by (simp_all add: registry_new_def)
  have remote: "rg_remote g = (\<lambda>_. rdest_default)(7 := \<lparr>rd_paths = [Path ?c ?m7], rd_deltas = []\<rparr>)"
    by (rule ext) (auto simp: g_def registry_cells.get_map_cells remote0 other at7, simp add: rdest_default_def)
  have "rg_deltas g = [ServiceRemote 7 (SetServicePath ?c 2 (score ?m7))]"
    unfolding g_def by (subst registry_map_single [where a = 7]) (simp_all add: remote0 deltas0 other at7, simp add: rdest_default_def)
  then have pop: "rsf_pop_output f2 = (Some (OutToWorker True (SetServiceRemote 7 demo_pair 2 2 (score ?m7))),
      f2\<lparr>rsf_router := rsf_router f2\<lparr>r_registry := g\<lparr>rg_deltas := []\<rparr>\<rparr>\<rparr>)"
    by (simp add: rsf_pop_output_def router_pop_delta_def registry_pop_delta_def f2_def f1_def shadow_rule_def)
  obtain s where s: "sr_apply_delta (sr_new 1) (SetServiceRemote 7 demo_pair 2 2 (score ?m7)) = Some s" "service_entries demo_pair s 7 \<noteq> {}"
    by (simp add: sr_apply_delta_def service_entries_def sv_set_conn_def sr_new_def sv_new_def Let_def)
  from run_deliver [OF run2 pop s(1)] s(2) remote show ?thesis by fastforce
qed

lemma disconnect_keeps_stale_services_witness:
  "\<exists>f f1 f2 :: unit rsf. \<exists>s. rsf_run (\<lambda>_. []) demo_sync demo_addrs 1 f s \<and>
     rsf_on_shared_input (\<lambda>_. []) f (Connection (Disconnected demo_ctx)) = Some f1 \<and>
     router_pop_delta (rsf_router f1) = (Some (DeltaRegistry (ServiceRemote 7 (DelServicePath (from_out 0 1)))), rsf_router f2) \<and>
     rsf_pop_output f1 = (None, f2) \<and> service_entries demo_pair s 7 \<noteq> {} \<and>
     conn_key (from_out 0 1) \<notin> path_key ` set (service_paths (rsf_router f2) 7)"
proof -
  obtain f :: "unit rsf" and s m where run: "rsf_run (\<lambda>_. []) demo_sync demo_addrs 1 f s" and entries: "service_entries demo_pair s 7 \<noteq> {}"
    and deltas: "rg_deltas (r_registry (rsf_router f)) = []"
    and remote: "rg_remote (r_registry (rsf_router f)) = (\<lambda>_. rdest_default)(7 := \<lparr>rd_paths = [Path (from_out 0 1) m], rd_deltas = []\<rparr>)"
    using demo_services_run by blast
  define f1 where "f1 = f\<lparr>rsf_conns := conn_remove (rsf_conns f) (from_out 0 1), rsf_router := router_del_direct (rsf_router f) (from_out 0 1)\<rparr>"
  have disc: "rsf_on_shared_input (\<lambda>_. []) f (Connection (Disconnected demo_ctx)) = Some f1"
    by (simp add: rsf_on_shared_input_def f1_def demo_ctx_def)
  have "rg_deltas (r_registry (rsf_router f1)) = [ServiceRemote 7 (DelServicePath (from_out 0 1))]"
    using registry_map_single [of "r_registry (rsf_router f)" 7, OF deltas]
    by (simp add: f1_def router_del_direct_def registry_del_direct_map remote rdest_del_path_def rdest_default_def)
  then obtain r where pop: "router_pop_delta (rsf_router f1) = (Some (DeltaRegistry (ServiceRemote 7 (DelServicePath (from_out 0 1)))), r)"
    by (simp add: router_pop_delta_def registry_pop_delta_def)
  have "conn_get (rsf_conns f1) (from_out 0 1) = None" by (simp add: f1_def conn_get_remove)
  then have out: "rsf_pop_output f1 = (None, f1\<lparr>rsf_router := r\<rparr>)" using pop by (simp add: rsf_pop_output_def shadow_rule_def)
  have after: "rsf_after (\<lambda>_. []) demo_sync demo_addrs (conn_key (cx_conn demo_ctx)) f1 s (f1\<lparr>rsf_router := r\<rparr>) s"
    by (rule after_pop [OF after_start out]) simp
  have shape: "de_shape demo_sync" by (simp add: de_shape_def demo_sync_def)
  have "demo_pair \<noteq> demo_other" by (simp add: demo_pair_def demo_other_def)
  then have addrs: "k = conn_key (cx_conn demo_ctx)" if "demo_addrs k = demo_addrs (conn_key (cx_conn demo_ctx))" for k
    using that by (auto simp: demo_addrs_def split: if_splits)
  have "conn_key (from_out 0 1) \<notin> path_key ` set (service_paths (rsf_router (f1\<lparr>rsf_router := r\<rparr>)) 7)"
    using disconnect_keeps_stale_services [OF shape run disc addrs after, of 7] by (simp add: demo_ctx_def)
  then show ?thesis
    using run disc pop out entries by (intro exI [of _ f] exI [of _ f1] exI [of _ "f1\<lparr>rsf_router := r\<rparr>"] exI [of _ s]) simp
qed

end
