(* ===== verification/Dht_Msg.thy ===== *)
theory Dht_Msg
  imports Feature_Base
begin

text \<open>
  Vocabulary of the distributed key-value store (\<^verbatim>\<open>packages/network/src/features/dht_kv/msg.rs\<close> and the public types
  of \<^verbatim>\<open>dht_kv/mod.rs\<close>), and the facts on hash maps (association lists with distinct keys) that its client and
  server share.

  A map and a sub-key are 64-bit words. Versions, subscription identifiers and request identifiers are
  \<open>nat\<close>: the code takes them from the clock or a counter and only compares them.
\<close>

type_synonym map_id = u64
type_synonym key = u64
type_synonym version = nat

type_synonym node_session = "node_id \<times> u64"

datatype client_map_command =
    CSet key version bytes
  | CDel key version
  | CSub nat "node_session option"
  | CUnsub nat
  | COnSetAck key node_session version
  | COnDelAck key node_session version

fun cmd_is_creator :: "client_map_command \<Rightarrow> bool" where
  "cmd_is_creator (CSet _ _ _) = True"
| "cmd_is_creator (CSub _ _) = True"
| "cmd_is_creator _ = False"

datatype client_command = CMapCmd map_id client_map_command | CMapGet map_id nat

datatype server_map_event =
    SetOk key version
  | DelOk key version
  | SubOk nat
  | UnsubOk nat
  | OnSet key node_session version bytes
  | OnDel key node_session version

type_synonym dump_row = "key \<times> node_session \<times> version \<times> bytes"

datatype server_event = SMapEvent map_id server_map_event | SMapGetRes map_id nat "dump_row list"

datatype remote_command = RClient node_session client_command | RServer node_session server_event

text \<open>The interface of the feature towards the applications of the node.\<close>

datatype map_control = MSet key bytes | MDel key | MSub | MUnsub

fun control_is_creator :: "map_control \<Rightarrow> bool" where
  "control_is_creator (MSet _ _) = True"
| "control_is_creator MSub = True"
| "control_is_creator _ = False"

datatype kv_control = KMapCmd map_id map_control | KMapGet map_id

datatype get_error = GetTimeout | GetNotFound

datatype map_event = EvSet key node_id bytes | EvDel key node_id | EvRelaySelected node_id

type_synonym map_get_rs = "get_error + dump_row list"

datatype kv_event = KMapEvent map_id map_event | KMapGetRes map_id map_get_rs

subsection \<open>Hash maps\<close>

abbreviation wf_map :: "('k \<times> 'v) list \<Rightarrow> bool" where
  "wf_map m \<equiv> distinct (map fst m)"

abbreviation hm_insert :: "'k \<Rightarrow> 'v \<Rightarrow> ('k \<times> 'v) list \<Rightarrow> ('k \<times> 'v) list" where
  "hm_insert \<equiv> AList.update"

abbreviation hm_remove :: "'k \<Rightarrow> ('k \<times> 'v) list \<Rightarrow> ('k \<times> 'v) list" where
  "hm_remove \<equiv> AList.delete"

text \<open>\<^verbatim>\<open>if !contains_key(k) && auto_create { insert(k, v) }\<close>.\<close>

definition hm_ensure :: "bool \<Rightarrow> 'k \<Rightarrow> 'v \<Rightarrow> ('k \<times> 'v) list \<Rightarrow> ('k \<times> 'v) list" where
  "hm_ensure auto_create k v m = (if map_of m k = None \<and> auto_create then hm_insert k v m else m)"

lemma hm_get_insert [simp]: "map_of (hm_insert k v m) = (map_of m)(k \<mapsto> v)"
  by (rule update_conv')

lemma hm_get_remove [simp]: "map_of (hm_remove k m) = (map_of m)(k := None)"
  by (rule delete_conv')

lemma wf_hm_insert [wf_intros]: "wf_map m \<Longrightarrow> wf_map (hm_insert k v m)"
  by (rule distinct_update)

lemma wf_hm_remove [wf_intros]: "wf_map m \<Longrightarrow> wf_map (hm_remove k m)"
  by (rule distinct_delete)

lemma wf_hm_ensure [wf_intros]: "wf_map m \<Longrightarrow> wf_map (hm_ensure b k v m)"
  by (simp add: hm_ensure_def wf_hm_insert)

lemma hm_get_ensure: "map_of (hm_ensure b k v m) =
    (if map_of m k = None \<and> b then (map_of m)(k \<mapsto> v) else map_of m)"
  by (simp add: hm_ensure_def)

lemma wf_hm_filter [wf_intros]: "wf_map m \<Longrightarrow> wf_map (filter P m)"
  by (rule distinct_map_filter)

lemma hm_get_filter:
  "wf_map m \<Longrightarrow> map_of (filter P m) k = (case map_of m k of Some v \<Rightarrow> if P (k, v) then Some v else None | None \<Rightarrow> None)"
proof (induction m)
  case (Cons x m)
  obtain k' v where x: "x = (k', v)" by (cases x)
  have "map_of m k' = None" using Cons.prems by (simp add: x map_of_eq_None_iff)
  moreover have "map_of (filter P m) k' = None" using Cons.prems by (auto simp: x map_of_eq_None_iff)
  ultimately show ?case using Cons by (auto simp: x)
qed simp

lemma hm_remove_empty: "map_of m k = None \<Longrightarrow> hm_remove k m = m"
  by (simp add: map_of_eq_None_iff)

lemma hm_in_set: "wf_map m \<Longrightarrow> (k, v) \<in> set m \<longleftrightarrow> map_of m k = Some v"
  by (auto dest: map_of_SomeD)

lemma hm_get_map_values: "map_of (map (\<lambda>(k, v). (k, f k v)) m) k = map_option (f k) (map_of m k)"
  by (induction m) auto

lemma hm_keys_insert: "fst ` set (hm_insert k v m) = insert k (fst ` set m)"
  by (induction m) auto

lemma hm_get_cong: "map_of m = map_of m' \<Longrightarrow> fst ` set m = fst ` set m'"
  by (metis dom_map_of_conv_image_fst)

end
