(* ===== verification/Dht_Client.thy ===== *)
theory Dht_Client
  imports Dht_Msg
begin

text \<open>
  The client side of the key-value store (\<^verbatim>\<open>dht_kv/client.rs\<close> and \<^verbatim>\<open>dht_kv/client/map.rs\<close>): the copy of a map
  that a node keeps for its own writes and for its subscribers, and the commands it sends to the relay that owns
  the map.
\<close>

definition CLI_RESEND_MS :: time where "CLI_RESEND_MS = 200"
definition CLI_SYNC_MS :: time where "CLI_SYNC_MS = 1500"
definition UNSUB_TIMEOUT_MS :: time where "UNSUB_TIMEOUT_MS = 10000"
definition MAP_GET_TIMEOUT_MS :: time where "MAP_GET_TIMEOUT_MS = 5000"

subsection \<open>Slots\<close>

datatype cli_slot =
    SlotUnspecific key
  | SlotRemote key version "bytes option"
  | SlotLocal key "bytes option" version bool time

text \<open>The fields of \<open>SlotLocal\<close> are key, value, version, \<^verbatim>\<open>syncing\<close> and \<^verbatim>\<open>last_sync\<close>.\<close>

fun slot_data :: "cli_slot \<Rightarrow> bytes option" where
  "slot_data (SlotUnspecific _) = None"
| "slot_data (SlotRemote _ _ value) = value"
| "slot_data (SlotLocal _ value _ _ _) = value"

fun slot_set :: "cli_slot \<Rightarrow> time \<Rightarrow> bytes \<Rightarrow> cli_slot \<times> client_map_command option" where
  "slot_set (SlotUnspecific key) now d = (SlotLocal key (Some d) now True now, Some (CSet key now d))"
| "slot_set (SlotRemote key _ _) now d = (SlotLocal key (Some d) now True now, Some (CSet key now d))"
| "slot_set (SlotLocal key _ _ _ _) now d = (SlotLocal key (Some d) now True now, Some (CSet key now d))"

fun slot_del :: "cli_slot \<Rightarrow> time \<Rightarrow> cli_slot \<times> client_map_command option" where
  "slot_del (SlotUnspecific key) now = (SlotUnspecific key, None)"
| "slot_del (SlotRemote key v x) now = (SlotRemote key v x, None)"
| "slot_del (SlotLocal key _ version _ _) now = (SlotLocal key None version True now, Some (CDel key version))"

fun slot_sync :: "cli_slot \<Rightarrow> time \<Rightarrow> bool \<Rightarrow> cli_slot \<times> client_map_command option" where
  "slot_sync (SlotUnspecific key) now force = (SlotUnspecific key, None)"
| "slot_sync (SlotRemote key v x) now force = (SlotRemote key v x, None)"
| "slot_sync (SlotLocal key value version syncing last_sync) now force =
     (if (syncing \<and> last_sync + CLI_RESEND_MS \<le> now) \<or> last_sync + CLI_SYNC_MS \<le> now \<or> force then
        (SlotLocal key value version syncing now,
         Some (case value of Some d \<Rightarrow> CSet key version d | None \<Rightarrow> CDel key version))
      else (SlotLocal key value version syncing last_sync, None))"

fun slot_set_ok :: "cli_slot \<Rightarrow> version \<Rightarrow> cli_slot" where
  "slot_set_ok (SlotLocal key value version syncing last_sync) v =
     (if version = v \<and> value \<noteq> None then SlotLocal key value version False last_sync
      else SlotLocal key value version syncing last_sync)"
| "slot_set_ok slot v = slot"

fun slot_del_ok :: "cli_slot \<Rightarrow> version \<Rightarrow> cli_slot" where
  "slot_del_ok (SlotLocal key value version syncing last_sync) v =
     (if version = v \<and> value = None then SlotLocal key value version False last_sync
      else SlotLocal key value version syncing last_sync)"
| "slot_del_ok slot v = slot"

fun slot_on_set :: "cli_slot \<Rightarrow> key \<Rightarrow> node_session \<Rightarrow> version \<Rightarrow> bytes \<Rightarrow> cli_slot \<times> (client_map_command \<times> bool) option" where
  "slot_on_set (SlotUnspecific _) key source version d = (SlotRemote key version (Some d), Some (COnSetAck key source version, True))"
| "slot_on_set (SlotRemote k0 v0 x0) key source version d =
     (if v0 < version then (SlotRemote key version (Some d), Some (COnSetAck key source version, True))
      else if v0 = version then (SlotRemote k0 v0 x0, Some (COnSetAck key source version, False))
      else (SlotRemote k0 v0 x0, None))"
| "slot_on_set (SlotLocal k0 x0 v0 s0 l0) key source version d = (SlotLocal k0 x0 v0 s0 l0, None)"

fun slot_on_del :: "cli_slot \<Rightarrow> key \<Rightarrow> node_session \<Rightarrow> version \<Rightarrow> cli_slot \<times> client_map_command option" where
  "slot_on_del (SlotRemote k0 v0 x0) key source version =
     (if v0 \<le> version then (SlotUnspecific key, Some (COnDelAck key source version)) else (SlotRemote k0 v0 x0, None))"
| "slot_on_del slot key source version = (slot, None)"

fun slot_should_cleanup :: "cli_slot \<Rightarrow> bool" where
  "slot_should_cleanup (SlotUnspecific _) = True"
| "slot_should_cleanup (SlotRemote _ _ value) = (value = None)"
| "slot_should_cleanup (SlotLocal _ value _ syncing _) = (value = None \<and> \<not> syncing)"

subsection \<open>One map\<close>

datatype 'u local_map_output = LmRemote client_map_command | LmLocal "'u feature_actor" map_event

datatype sub_state =
    NotSub
  | Subscribing nat time
  | Subscribed nat node_session time
  | Unsubscribing nat time "node_session option" time

text \<open>
  The fields are \<^verbatim>\<open>id, sent_ts\<close>, then \<^verbatim>\<open>id, remote, sync_ts\<close>, then \<^verbatim>\<open>id, started_at, remote, sent_ts\<close>.
\<close>

record 'u local_map =
  lm_session :: node_session
  lm_slots :: "((key \<times> node_session) \<times> cli_slot) list"
  lm_subscribers :: "'u feature_actor list"
  lm_sub_state :: sub_state
  lm_queue :: "'u local_map_output list"

definition lm_new :: "node_session \<Rightarrow> 'u local_map" where
  "lm_new sess = \<lparr>lm_session = sess, lm_slots = [], lm_subscribers = [], lm_sub_state = NotSub, lm_queue = []\<rparr>"

definition lm_push :: "'u local_map_output list \<Rightarrow> 'u local_map \<Rightarrow> 'u local_map" where
  "lm_push out m = m\<lparr>lm_queue := lm_queue m @ out\<rparr>"

definition lm_fire_event :: "map_event \<Rightarrow> 'u local_map \<Rightarrow> 'u local_map" where
  "lm_fire_event event m = lm_push (map (\<lambda>a. LmLocal a event) (lm_subscribers m)) m"

definition lm_restore_events :: "'u feature_actor \<Rightarrow> bool \<Rightarrow> 'u local_map \<Rightarrow> 'u local_map" where
  "lm_restore_events actor only_local m =
     lm_push (List.map_filter (\<lambda>((key, source), slot).
        if only_local \<and> lm_session m \<noteq> source then None
        else map_option (\<lambda>d. LmLocal actor (EvSet key (fst source) d)) (slot_data slot)) (lm_slots m)) m"

fun sync_all :: "time \<Rightarrow> bool \<Rightarrow> ((key \<times> node_session) \<times> cli_slot) list \<Rightarrow>
    ((key \<times> node_session) \<times> cli_slot) list \<times> client_map_command list" where
  "sync_all now force [] = ([], [])"
| "sync_all now force ((k, slot) # sls) =
     (let (slot', cmd) = slot_sync slot now force; (sls', cmds) = sync_all now force sls
      in ((k, slot') # sls', (case cmd of Some c \<Rightarrow> c # cmds | None \<Rightarrow> cmds)))"

definition lm_sync_slots :: "time \<Rightarrow> bool \<Rightarrow> 'u local_map \<Rightarrow> 'u local_map" where
  "lm_sync_slots now force m =
     (let (sls, cmds) = sync_all now force (lm_slots m) in lm_push (map LmRemote cmds) (m\<lparr>lm_slots := sls\<rparr>))"

definition lm_accept_event :: "node_session \<Rightarrow> 'u local_map \<Rightarrow> bool" where
  "lm_accept_event remote m = (case lm_sub_state m of Subscribed _ locked _ \<Rightarrow> locked = remote | _ \<Rightarrow> False)"

definition lm_tick_sub :: "time \<Rightarrow> 'u local_map \<Rightarrow> 'u local_map" where
  "lm_tick_sub now m =
     (case lm_sub_state m of
        NotSub \<Rightarrow> m
      | Subscribing sub_id sent_ts \<Rightarrow>
          if sent_ts + CLI_RESEND_MS \<le> now
          then lm_push [LmRemote (CSub sub_id None)] (m\<lparr>lm_sub_state := Subscribing sub_id now\<rparr>) else m
      | Subscribed sub_id remote sync_ts \<Rightarrow>
          if sync_ts + CLI_SYNC_MS \<le> now
          then lm_push [LmRemote (CSub sub_id (Some remote))] (m\<lparr>lm_sub_state := Subscribed sub_id remote now\<rparr>) else m
      | Unsubscribing sub_id started_at remote sent_ts \<Rightarrow>
          if started_at + UNSUB_TIMEOUT_MS \<le> now then m\<lparr>lm_sub_state := NotSub\<rparr>
          else if sent_ts + CLI_RESEND_MS \<le> now
          then lm_push [LmRemote (CUnsub sub_id)] (m\<lparr>lm_sub_state := Unsubscribing sub_id started_at remote now\<rparr>) else m)"

definition lm_on_tick :: "time \<Rightarrow> 'u local_map \<Rightarrow> 'u local_map" where
  "lm_on_tick now m =
     (let m1 = lm_sync_slots now False (lm_tick_sub now m)
      in m1\<lparr>lm_slots := filter (\<lambda>(_, slot). \<not> slot_should_cleanup slot) (lm_slots m1)\<rparr>)"

fun lm_on_control :: "time \<Rightarrow> 'u feature_actor \<Rightarrow> map_control \<Rightarrow> 'u local_map \<Rightarrow> ('u local_map \<times> client_map_command option) run" where
  "lm_on_control now actor (MSet key data) m =
     (let k = (key, lm_session m); slots = hm_ensure True k (SlotUnspecific key) (lm_slots m)
      in do {
        slot \<leftarrow> map_of slots k;
        let (slot', out) = slot_set slot now data;
        let m1 = m\<lparr>lm_slots := hm_insert k slot' slots\<rparr>;
        Some (case out of
            Some cmd \<Rightarrow> (lm_fire_event (EvSet key (fst (lm_session m)) data) m1, Some cmd)
          | None \<Rightarrow> (m1, None))
      })"
| "lm_on_control now actor (MDel key) m =
     (let k = (key, lm_session m)
      in case map_of (lm_slots m) k of
           None \<Rightarrow> Some (m, None)
         | Some slot \<Rightarrow>
             (let (slot', out) = slot_del slot now; m1 = m\<lparr>lm_slots := hm_insert k slot' (lm_slots m)\<rparr>
              in Some (case out of
                  Some cmd \<Rightarrow> (lm_fire_event (EvDel key (fst (lm_session m))) m1, Some cmd)
                | None \<Rightarrow> (m1, None))))"
| "lm_on_control now actor MSub m =
     (let send_sub = (lm_subscribers m = [])
      in if actor \<in> set (lm_subscribers m) then Some (m, None)
         else
           (let m1 = m\<lparr>lm_subscribers := lm_subscribers m @ [actor]\<rparr>
            in Some (if send_sub
                then (lm_restore_events actor True (m1\<lparr>lm_sub_state := Subscribing now now\<rparr>), Some (CSub now None))
                else (lm_restore_events actor False m1, None))))"
| "lm_on_control now actor MUnsub m =
     (if actor \<notin> set (lm_subscribers m) \<or> lm_subscribers m = [] then Some (m, None)
      else
        (let m1 = m\<lparr>lm_subscribers := filter (\<lambda>x. x \<noteq> actor) (lm_subscribers m)\<rparr>
         in if lm_subscribers m1 = []
            then (case lm_sub_state m1 of
                Subscribed sub_id remote _ \<Rightarrow>
                  Some (m1\<lparr>lm_sub_state := Unsubscribing sub_id now (Some remote) now\<rparr>, Some (CUnsub sub_id))
              | Subscribing sub_id _ \<Rightarrow>
                  Some (m1\<lparr>lm_sub_state := Unsubscribing sub_id now None now\<rparr>, Some (CUnsub sub_id))
              | _ \<Rightarrow> None)
            else Some (m1, None)))"

fun lm_on_server :: "time \<Rightarrow> node_session \<Rightarrow> server_map_event \<Rightarrow> 'u local_map \<Rightarrow> ('u local_map \<times> client_map_command option) run" where
  "lm_on_server now remote (SetOk key version) m =
     (let k = (key, lm_session m)
      in case map_of (lm_slots m) k of
           None \<Rightarrow> Some (m, None)
         | Some slot \<Rightarrow> Some (m\<lparr>lm_slots := hm_insert k (slot_set_ok slot version) (lm_slots m)\<rparr>, None))"
| "lm_on_server now remote (DelOk key version) m =
     (let k = (key, lm_session m)
      in case map_of (lm_slots m) k of
           None \<Rightarrow> Some (m, None)
         | Some slot \<Rightarrow> Some (m\<lparr>lm_slots := hm_insert k (slot_del_ok slot version) (lm_slots m)\<rparr>, None))"
| "lm_on_server now remote (SubOk sub_id) m =
     (case lm_sub_state m of
        Subscribing my_id _ \<Rightarrow>
          if my_id = sub_id
          then Some (lm_fire_event (EvRelaySelected (fst remote)) (m\<lparr>lm_sub_state := Subscribed sub_id remote now\<rparr>), None)
          else Some (m, None)
      | Subscribed my_id locked sync_ts \<Rightarrow>
          if my_id = sub_id
          then
            (let m1 = m\<lparr>lm_sub_state := Subscribed my_id remote now\<rparr>
             in if fst locked \<noteq> fst remote
                then Some (lm_fire_event (EvRelaySelected (fst remote)) (lm_sync_slots now True m1), None)
                else Some (m1, None))
          else Some (m, None)
      | _ \<Rightarrow> Some (m, None))"
| "lm_on_server now remote (UnsubOk sub_id) m =
     (case lm_sub_state m of
        Unsubscribing my_id _ locked _ \<Rightarrow>
          if my_id = sub_id \<and> (case locked of Some l \<Rightarrow> l | None \<Rightarrow> remote) = remote
          then Some (m\<lparr>lm_sub_state := NotSub\<rparr>, None) else Some (m, None)
      | _ \<Rightarrow> Some (m, None))"
| "lm_on_server now remote (OnSet key source version data) m =
     (if \<not> lm_accept_event remote m then Some (m, None)
      else
        (let k = (key, source); slots = hm_ensure True k (SlotUnspecific key) (lm_slots m)
         in do {
           slot \<leftarrow> map_of slots k;
           let (slot', res) = slot_on_set slot key source version data;
           let m1 = m\<lparr>lm_slots := hm_insert k slot' slots\<rparr>;
           Some (case res of
               None \<Rightarrow> (m1, None)
             | Some (event, updated) \<Rightarrow>
                 (if updated then lm_fire_event (EvSet key (fst source) data) m1 else m1, Some event))
         }))"
| "lm_on_server now remote (OnDel key source version) m =
     (if \<not> lm_accept_event remote m then Some (m, None)
      else
        (let k = (key, source); slots = hm_ensure True k (SlotUnspecific key) (lm_slots m)
         in do {
           slot \<leftarrow> map_of slots k;
           let (slot', res) = slot_on_del slot key source version;
           let m1 = m\<lparr>lm_slots := hm_insert k slot' slots\<rparr>;
           Some (case res of
               None \<Rightarrow> (m1, None)
             | Some event \<Rightarrow> (lm_fire_event (EvDel key (fst source)) m1, Some event))
         }))"

definition lm_pop_action :: "'u local_map \<Rightarrow> 'u local_map_output option \<times> 'u local_map" where
  "lm_pop_action m = (case lm_queue m of [] \<Rightarrow> (None, m) | x # q \<Rightarrow> (Some x, m\<lparr>lm_queue := q\<rparr>))"

definition lm_should_cleanup :: "'u local_map \<Rightarrow> bool" where
  "lm_should_cleanup m \<longleftrightarrow> lm_slots m = [] \<and> lm_subscribers m = [] \<and> lm_sub_state m = NotSub"

subsection \<open>The storage of all maps\<close>

definition kv_route :: "map_id \<Rightarrow> route_rule" where
  "kv_route key = ToKey (ucast key)"

datatype 'u local_storage_output = LsLocal "'u feature_actor" kv_event | LsRemote route_rule client_command

record 'u local_storage =
  ls_session :: node_session
  ls_maps :: "(map_id \<times> 'u local_map) list"
  ls_map_get_waits :: "((map_id \<times> nat) \<times> ('u feature_actor \<times> time)) list"
  ls_queue :: "'u local_storage_output list"
  ls_req_id_seed :: nat

definition ls_new :: "node_session \<Rightarrow> 'u local_storage" where
  "ls_new sess = \<lparr>ls_session = sess, ls_maps = [], ls_map_get_waits = [], ls_queue = [], ls_req_id_seed = 0\<rparr>"

fun map_output :: "map_id \<Rightarrow> 'u local_map_output \<Rightarrow> 'u local_storage_output" where
  "map_output key (LmLocal actor event) = LsLocal actor (KMapEvent key event)"
| "map_output key (LmRemote cmd) = LsRemote (kv_route key) (CMapCmd key cmd)"

function pop_map_actions :: "map_id \<Rightarrow> 'u local_map \<Rightarrow> 'u local_map \<times> 'u local_storage_output list" where
  "pop_map_actions key m =
     (case lm_pop_action m of
        (None, m') \<Rightarrow> (m', [])
      | (Some out, m') \<Rightarrow> (let (m2, outs) = pop_map_actions key m' in (m2, map_output key out # outs)))"
  by pat_completeness auto

termination
  by (relation "measure (\<lambda>(_, m). length (lm_queue m))") (auto simp: lm_pop_action_def split: list.splits)

declare pop_map_actions.simps [simp del]

fun ls_tick_maps :: "time \<Rightarrow> (map_id \<times> 'u local_map) list \<Rightarrow> (map_id \<times> 'u local_map) list \<times> 'u local_storage_output list" where
  "ls_tick_maps now [] = ([], [])"
| "ls_tick_maps now ((key, m) # ms) =
     (let (m', out) = pop_map_actions key (lm_on_tick now m); (ms', outs) = ls_tick_maps now ms
      in (if lm_should_cleanup m' then ms' else (key, m') # ms', out @ outs))"

definition ls_on_tick :: "time \<Rightarrow> 'u local_storage \<Rightarrow> 'u local_storage" where
  "ls_on_tick now s =
     (let (ms, out) = ls_tick_maps now (ls_maps s)
      in s\<lparr>ls_maps := ms, ls_queue := ls_queue s @ out,
           ls_map_get_waits := filter (\<lambda>(_, _, at). \<not> at + MAP_GET_TIMEOUT_MS \<le> now) (ls_map_get_waits s)\<rparr>)"

text \<open>The tail shared by \<^verbatim>\<open>on_local\<close> and \<^verbatim>\<open>on_server\<close>: send the map's answer, then what it queued.\<close>

definition ls_finish :: "map_id \<Rightarrow> (map_id \<times> 'u local_map) list \<Rightarrow> 'u local_map \<times> client_map_command option \<Rightarrow>
    'u local_storage \<Rightarrow> 'u local_storage" where
  "ls_finish key maps = (\<lambda>(m1, cmd) s.
     (let (m2, out) = pop_map_actions key m1
      in s\<lparr>ls_maps := hm_insert key m2 maps,
           ls_queue := ls_queue s @ (case cmd of Some c \<Rightarrow> [LsRemote (kv_route key) (CMapCmd key c)] | None \<Rightarrow> []) @ out\<rparr>))"

fun ls_on_local :: "time \<Rightarrow> 'u feature_actor \<Rightarrow> kv_control \<Rightarrow> 'u local_storage \<Rightarrow> 'u local_storage run" where
  "ls_on_local now actor (KMapCmd key control) s =
     (let maps = hm_ensure (control_is_creator control) key (lm_new (ls_session s)) (ls_maps s)
      in case map_of maps key of
           None \<Rightarrow> Some s
         | Some m \<Rightarrow> do { res \<leftarrow> lm_on_control now actor control m; Some (ls_finish key maps res s) })"
| "ls_on_local now actor (KMapGet key) s =
     (let req_id = ls_req_id_seed s
      in Some (s\<lparr>ls_req_id_seed := req_id + 1,
                 ls_map_get_waits := hm_insert (key, req_id) (actor, req_id) (ls_map_get_waits s),
                 ls_queue := ls_queue s @ [LsRemote (kv_route key) (CMapGet key req_id)]\<rparr>))"

fun ls_on_server :: "time \<Rightarrow> node_session \<Rightarrow> server_event \<Rightarrow> 'u local_storage \<Rightarrow> 'u local_storage run" where
  "ls_on_server now remote (SMapEvent key cmd) s =
     (case map_of (ls_maps s) key of
        None \<Rightarrow> Some s
      | Some m \<Rightarrow> do { res \<leftarrow> lm_on_server now remote cmd m; Some (ls_finish key (ls_maps s) res s) })"
| "ls_on_server now remote (SMapGetRes key req_id res) s =
     (case map_of (ls_map_get_waits s) (key, req_id) of
        None \<Rightarrow> Some s
      | Some (actor, _) \<Rightarrow>
          Some (s\<lparr>ls_map_get_waits := hm_remove (key, req_id) (ls_map_get_waits s),
                  ls_queue := ls_queue s @ [LsLocal actor (KMapGetRes key (Inr res))]\<rparr>))"

definition ls_pop_action :: "'u local_storage \<Rightarrow> 'u local_storage_output option \<times> 'u local_storage" where
  "ls_pop_action s = (case ls_queue s of [] \<Rightarrow> (None, s) | x # q \<Rightarrow> (Some x, s\<lparr>ls_queue := q\<rparr>))"

subsection \<open>The invariant of a map\<close>

text \<open>
  A map is subscribed at the relay, or on its way to be, exactly while it has subscribers; only the node's own
  session owns local slots.
\<close>

fun slot_is_local :: "cli_slot \<Rightarrow> bool" where
  "slot_is_local (SlotLocal _ _ _ _ _) = True"
| "slot_is_local _ = False"

fun slot_key :: "cli_slot \<Rightarrow> key" where
  "slot_key (SlotUnspecific k) = k"
| "slot_key (SlotRemote k _ _) = k"
| "slot_key (SlotLocal k _ _ _ _) = k"

fun sub_active :: "sub_state \<Rightarrow> bool" where
  "sub_active (Subscribing _ _) = True"
| "sub_active (Subscribed _ _ _) = True"
| "sub_active _ = False"

definition slot_ok :: "node_session \<Rightarrow> key \<times> node_session \<Rightarrow> cli_slot \<Rightarrow> bool" where
  "slot_ok own k sl \<longleftrightarrow> slot_key sl = fst k \<and> (slot_is_local sl \<longrightarrow> snd k = own)"

definition slots_ok :: "node_session \<Rightarrow> ((key \<times> node_session) \<times> cli_slot) list \<Rightarrow> bool" where
  "slots_ok own sls \<longleftrightarrow> wf_map sls \<and> (\<forall>k sl. map_of sls k = Some sl \<longrightarrow> slot_ok own k sl)"

definition lm_wf :: "'u local_map \<Rightarrow> bool" where
  "lm_wf m \<longleftrightarrow> slots_ok (lm_session m) (lm_slots m) \<and> distinct (lm_subscribers m) \<and>
     (lm_subscribers m \<noteq> [] \<longleftrightarrow> sub_active (lm_sub_state m))"

lemma lm_wfD:
  assumes "lm_wf m"
  shows "slots_ok (lm_session m) (lm_slots m)" "distinct (lm_subscribers m)"
    "lm_subscribers m \<noteq> [] \<longleftrightarrow> sub_active (lm_sub_state m)"
  using assms unfolding lm_wf_def by blast+

lemma slots_okD: "slots_ok own sls \<Longrightarrow> wf_map sls" "slots_ok own sls \<Longrightarrow> map_of sls k = Some sl \<Longrightarrow> slot_ok own k sl"
  unfolding slots_ok_def by blast+

lemma slots_ok_insert [wf_intros]: "slots_ok own sls \<Longrightarrow> slot_ok own k sl \<Longrightarrow> slots_ok own (hm_insert k sl sls)"
  by (simp add: slots_ok_def wf_hm_insert)

lemma slots_ok_ensure [wf_intros]: "slots_ok own sls \<Longrightarrow> slots_ok own (hm_ensure b (key, s) (SlotUnspecific key) sls)"
  by (simp add: hm_ensure_def slots_ok_insert slot_ok_def)

lemma slots_ok_filter [wf_intros]: "slots_ok own sls \<Longrightarrow> slots_ok own (filter P sls)"
  by (auto simp: slots_ok_def wf_hm_filter hm_get_filter split: option.splits if_splits)

lemma sync_all_map: "fst (sync_all now force sls) = map (\<lambda>(k, sl). (k, fst (slot_sync sl now force))) sls"
proof (induction sls)
  case (Cons x sls)
  then show ?case by (cases x) (auto split: prod.splits)
qed simp

lemma sync_all_cmds: "snd (sync_all now force sls) = List.map_filter (\<lambda>(k, sl). snd (slot_sync sl now force)) sls"
proof (induction sls)
  case (Cons x sls)
  then show ?case by (cases x) (auto simp: List.map_filter_def split: prod.splits option.splits)
qed (simp add: List.map_filter_def)

lemma slot_sync_simps [simp]:
  "slot_key (fst (slot_sync sl now force)) = slot_key sl"
  "slot_is_local (fst (slot_sync sl now force)) = slot_is_local sl"
  "slot_data (fst (slot_sync sl now force)) = slot_data sl"
  by (cases sl; simp)+

lemma map_fst_values: "map fst (map (\<lambda>(k, v). (k, f k v)) m) = map fst m"
  by (induction m) auto

lemma sync_all_ok [wf_intros]: "slots_ok own sls \<Longrightarrow> slots_ok own (fst (sync_all now force sls))"
  unfolding slots_ok_def sync_all_map map_fst_values hm_get_map_values by (auto simp: slot_ok_def)

lemma lm_push_simps [simp]:
  "lm_session (lm_push out m) = lm_session m" "lm_slots (lm_push out m) = lm_slots m"
  "lm_subscribers (lm_push out m) = lm_subscribers m" "lm_sub_state (lm_push out m) = lm_sub_state m"
  "lm_queue (lm_push out m) = lm_queue m @ out"
  by (simp_all add: lm_push_def)

lemma lm_fire_simps [simp]:
  "lm_session (lm_fire_event e m) = lm_session m" "lm_slots (lm_fire_event e m) = lm_slots m"
  "lm_subscribers (lm_fire_event e m) = lm_subscribers m" "lm_sub_state (lm_fire_event e m) = lm_sub_state m"
  "lm_queue (lm_fire_event e m) = lm_queue m @ map (\<lambda>a. LmLocal a e) (lm_subscribers m)"
  by (simp_all add: lm_fire_event_def)

lemma lm_restore_simps [simp]:
  "lm_session (lm_restore_events a b m) = lm_session m" "lm_slots (lm_restore_events a b m) = lm_slots m"
  "lm_subscribers (lm_restore_events a b m) = lm_subscribers m" "lm_sub_state (lm_restore_events a b m) = lm_sub_state m"
  by (simp_all add: lm_restore_events_def)

lemma lm_sync_simps [simp]:
  "lm_session (lm_sync_slots now f m) = lm_session m"
  "lm_slots (lm_sync_slots now f m) = fst (sync_all now f (lm_slots m))"
  "lm_subscribers (lm_sync_slots now f m) = lm_subscribers m" "lm_sub_state (lm_sync_slots now f m) = lm_sub_state m"
  "lm_queue (lm_sync_slots now f m) = lm_queue m @ map LmRemote (snd (sync_all now f (lm_slots m)))"
  by (simp_all add: lm_sync_slots_def split_beta)

lemma lm_tick_sub_simps [simp]:
  "lm_session (lm_tick_sub now m) = lm_session m" "lm_slots (lm_tick_sub now m) = lm_slots m"
  "lm_subscribers (lm_tick_sub now m) = lm_subscribers m"
  "sub_active (lm_sub_state (lm_tick_sub now m)) = sub_active (lm_sub_state m)"
  by (auto simp: lm_tick_sub_def split: sub_state.split)

lemma lm_wf_new [wf_intros]: "lm_wf (lm_new sess)"
  by (simp add: lm_wf_def lm_new_def slots_ok_def)

lemma lm_wf_tick [wf_intros]: "lm_wf m \<Longrightarrow> lm_wf (lm_on_tick now m)"
  by (simp add: lm_wf_def lm_on_tick_def Let_def slots_ok_filter sync_all_ok)

lemma lm_on_tick_simps [simp]: "lm_session (lm_on_tick now m) = lm_session m" "lm_subscribers (lm_on_tick now m) = lm_subscribers m"
  by (simp_all add: lm_on_tick_def Let_def)

lemma hm_ensure_get: "\<exists>v'. map_of (hm_ensure True k v m) k = Some v'"
  by (auto simp: hm_get_ensure)

lemma slot_set_ok_simps [simp]:
  "slot_key (slot_set_ok sl v) = slot_key sl" "slot_is_local (slot_set_ok sl v) = slot_is_local sl" "slot_data (slot_set_ok sl v) = slot_data sl"
  "slot_key (slot_del_ok sl v) = slot_key sl" "slot_is_local (slot_del_ok sl v) = slot_is_local sl" "slot_data (slot_del_ok sl v) = slot_data sl"
  by (cases sl; simp)+

lemma slot_ops_ok:
  "slot_ok own (key, own) sl \<Longrightarrow> slot_ok own (key, own) (fst (slot_set sl now d))"
  "slot_ok own k sl \<Longrightarrow> slot_ok own k (fst (slot_del sl now))"
  "slot_ok own (key, s) sl \<Longrightarrow> slot_ok own (key, s) (fst (slot_on_set sl key s v d))"
  "slot_ok own (key, s) sl \<Longrightarrow> slot_ok own (key, s) (fst (slot_on_del sl key s v))"
  "slot_ok own k sl \<Longrightarrow> slot_ok own k (slot_set_ok sl v)"
  "slot_ok own k sl \<Longrightarrow> slot_ok own k (slot_del_ok sl v)"
  by (cases sl; auto simp: slot_ok_def)+

text \<open>A write to one slot, followed by an optional event to the subscribers, is all that most handlers do.\<close>

definition slot_update :: "key \<times> node_session \<Rightarrow> cli_slot \<Rightarrow> ((key \<times> node_session) \<times> cli_slot) list \<Rightarrow> map_event option \<Rightarrow> 'u local_map \<Rightarrow> 'u local_map" where
  "slot_update k sl slots ev m =
     (case ev of Some e \<Rightarrow> lm_fire_event e (m\<lparr>lm_slots := hm_insert k sl slots\<rparr>) | None \<Rightarrow> m\<lparr>lm_slots := hm_insert k sl slots\<rparr>)"

lemma slot_update_simps [simp]:
  "lm_session (slot_update k sl slots ev m) = lm_session m" "lm_slots (slot_update k sl slots ev m) = hm_insert k sl slots"
  "lm_subscribers (slot_update k sl slots ev m) = lm_subscribers m" "lm_sub_state (slot_update k sl slots ev m) = lm_sub_state m"
  by (simp_all add: slot_update_def split: option.split)

lemma slot_update_wf:
  "lm_wf m \<Longrightarrow> slots_ok (lm_session m) slots \<Longrightarrow> slot_ok (lm_session m) k sl \<Longrightarrow> lm_wf (slot_update k sl slots ev m)"
  by (simp add: lm_wf_def slots_ok_insert)

fun event_matches :: "key \<times> node_session \<Rightarrow> cli_slot \<Rightarrow> cli_slot \<Rightarrow> map_event option \<Rightarrow> bool" where
  "event_matches k sl sl' None \<longleftrightarrow> slot_data sl' = slot_data sl"
| "event_matches k sl sl' (Some (EvSet key n d)) \<longleftrightarrow> key = fst k \<and> n = fst (snd k) \<and> slot_data sl' = Some d"
| "event_matches k sl sl' (Some (EvDel key n)) \<longleftrightarrow> key = fst k \<and> n = fst (snd k) \<and> slot_data sl' = None"
| "event_matches k sl sl' (Some (EvRelaySelected n)) \<longleftrightarrow> False"

definition slot_change :: "key \<times> node_session \<Rightarrow> 'u local_map \<Rightarrow> 'u local_map \<Rightarrow> bool" where
  "slot_change k m m' \<longleftrightarrow>
     (\<exists>b sl sl' ev. map_of (hm_ensure b k (SlotUnspecific (fst k)) (lm_slots m)) k = Some sl \<and>
        m' = slot_update k sl' (hm_ensure b k (SlotUnspecific (fst k)) (lm_slots m)) ev m \<and>
        (slot_ok (lm_session m) k sl \<longrightarrow> slot_ok (lm_session m) k sl') \<and> event_matches k sl sl' ev)"

lemma slot_change_ensured:
  assumes "map_of (hm_ensure b (key, s) (SlotUnspecific key) (lm_slots m)) (key, s) = Some sl"
    and "slot_ok (lm_session m) (key, s) sl \<Longrightarrow> slot_ok (lm_session m) (key, s) sl'" "event_matches (key, s) sl sl' ev"
  shows "slot_change (key, s) m (slot_update (key, s) sl' (hm_ensure b (key, s) (SlotUnspecific key) (lm_slots m)) ev m)"
  unfolding slot_change_def using assms
  by (intro exI [of _ b] exI [of _ sl] exI [of _ sl'] exI [of _ ev]) simp

lemma hm_ensure_False [simp]: "hm_ensure False k v m = m"
  by (simp add: hm_ensure_def)

lemma slot_change_wf:
  assumes "slot_change k m m'" "lm_wf m"
  shows "lm_wf m'"
proof -
  obtain b sl sl' ev where c: "map_of (hm_ensure b k (SlotUnspecific (fst k)) (lm_slots m)) k = Some sl"
    "m' = slot_update k sl' (hm_ensure b k (SlotUnspecific (fst k)) (lm_slots m)) ev m"
    "slot_ok (lm_session m) k sl \<longrightarrow> slot_ok (lm_session m) k sl'"
    using assms(1) unfolding slot_change_def by blast
  have "slots_ok (lm_session m) (hm_ensure b k (SlotUnspecific (fst k)) (lm_slots m))"
    using slots_ok_ensure [of "lm_session m" "lm_slots m" b "fst k" "snd k"] lm_wfD(1) [OF assms(2)] by simp
  with c slots_okD(2) show ?thesis using slot_update_wf [OF assms(2)] by blast
qed

text \<open>What a data event of the relay, an own write and an acknowledgement do.\<close>

lemma on_set_change:
  assumes "lm_accept_event r m"
  shows "\<exists>m' e. lm_on_server now r (OnSet key s v d) m = Some (m', e) \<and> slot_change (key, s) m m'"
proof -
  obtain sl where sl: "map_of (hm_ensure True (key, s) (SlotUnspecific key) (lm_slots m)) (key, s) = Some sl"
    by (rule exE [OF hm_ensure_get])
  show ?thesis
  proof (cases "slot_on_set sl key s v d")
    case (Pair sl' res)
    have ok: "slot_ok (lm_session m) (key, s) sl \<Longrightarrow> slot_ok (lm_session m) (key, s) sl'"
      using slot_ops_ok(3) [of "lm_session m" key s sl v d] Pair by simp
    show ?thesis
    proof (cases "\<exists>c. res = Some (c, True)")
      case True
      then have "slot_data sl' = Some d" using Pair by (cases sl) (auto split: if_splits)
      then have "slot_change (key, s) m (slot_update (key, s) sl' (hm_ensure True (key, s) (SlotUnspecific key) (lm_slots m)) (Some (EvSet key (fst s) d)) m)"
        using sl ok by (intro slot_change_ensured [of _ _ _ _ sl]) simp_all
      then show ?thesis using assms sl Pair True by (auto simp: slot_update_def Let_def)
    next
      case False
      then have "slot_data sl' = slot_data sl" using Pair by (cases sl) (auto split: if_splits)
      then have "slot_change (key, s) m (slot_update (key, s) sl' (hm_ensure True (key, s) (SlotUnspecific key) (lm_slots m)) None m)"
        using sl ok by (intro slot_change_ensured [of _ _ _ _ sl]) simp_all
      then show ?thesis using assms sl Pair False by (cases res) (auto simp: slot_update_def Let_def)
    qed
  qed
qed

lemma on_del_change:
  assumes "lm_accept_event r m"
  shows "\<exists>m' e. lm_on_server now r (OnDel key s v) m = Some (m', e) \<and> slot_change (key, s) m m'"
proof -
  obtain sl where sl: "map_of (hm_ensure True (key, s) (SlotUnspecific key) (lm_slots m)) (key, s) = Some sl"
    by (rule exE [OF hm_ensure_get])
  show ?thesis
  proof (cases "slot_on_del sl key s v")
    case (Pair sl' res)
    have ok: "slot_ok (lm_session m) (key, s) sl \<Longrightarrow> slot_ok (lm_session m) (key, s) sl'"
      using slot_ops_ok(4) [of "lm_session m" key s sl v] Pair by simp
    let ?ev = "map_option (\<lambda>_. EvDel key (fst s)) res"
    have "event_matches (key, s) sl sl' ?ev" using Pair by (cases sl) (auto split: if_splits)
    then have "slot_change (key, s) m (slot_update (key, s) sl' (hm_ensure True (key, s) (SlotUnspecific key) (lm_slots m)) ?ev m)"
      using sl ok by (intro slot_change_ensured [of _ _ _ _ sl]) simp_all
    then show ?thesis using assms sl Pair by (cases res) (auto simp: slot_update_def Let_def)
  qed
qed

lemma set_change: "\<exists>m' e. lm_on_control now a (MSet key d) m = Some (m', e) \<and> slot_change (key, lm_session m) m m'"
proof -
  let ?k = "(key, lm_session m)"
  obtain sl where sl: "map_of (hm_ensure True ?k (SlotUnspecific key) (lm_slots m)) ?k = Some sl"
    by (rule exE [OF hm_ensure_get])
  show ?thesis
  proof (cases "slot_set sl now d")
    case (Pair sl' res)
    have ok: "slot_ok (lm_session m) ?k sl \<Longrightarrow> slot_ok (lm_session m) ?k sl'"
      using slot_ops_ok(1) [of "lm_session m" key sl now d] Pair by simp
    obtain c where "slot_data sl' = Some d" "res = Some c" using Pair by (cases sl) auto
    then have "slot_change ?k m (slot_update ?k sl' (hm_ensure True ?k (SlotUnspecific key) (lm_slots m)) (Some (EvSet key (fst (lm_session m)) d)) m)"
      using sl ok by (intro slot_change_ensured [of _ _ _ _ sl]) simp_all
    then show ?thesis using sl Pair \<open>res = Some c\<close> by (auto simp: slot_update_def Let_def)
  qed
qed

lemma slot_change_existing:
  assumes "map_of (lm_slots m) k = Some sl" "slot_ok (lm_session m) k sl \<Longrightarrow> slot_ok (lm_session m) k sl'" "event_matches k sl sl' ev"
  shows "slot_change k m (slot_update k sl' (lm_slots m) ev m)"
  unfolding slot_change_def using assms
  by (intro exI [of _ False] exI [of _ sl] exI [of _ sl'] exI [of _ ev]) simp

lemma del_change:
  "\<exists>m' e. lm_on_control now a (MDel key) m = Some (m', e) \<and> (m' = m \<or> slot_change (key, lm_session m) m m')"
proof (cases "map_of (lm_slots m) (key, lm_session m)")
  case (Some sl)
  show ?thesis
  proof (cases "slot_del sl now")
    case (Pair sl' res)
    let ?ev = "map_option (\<lambda>_. EvDel key (fst (lm_session m))) res"
    have "event_matches (key, lm_session m) sl sl' ?ev" using Pair by (cases sl) auto
    moreover have "slot_ok (lm_session m) (key, lm_session m) sl \<Longrightarrow> slot_ok (lm_session m) (key, lm_session m) sl'"
      using slot_ops_ok(2) [of "lm_session m" "(key, lm_session m)" sl now] Pair by simp
    ultimately have "slot_change (key, lm_session m) m (slot_update (key, lm_session m) sl' (lm_slots m) ?ev m)"
      using Some by (intro slot_change_existing)
    then show ?thesis using Some Pair by (cases res) (auto simp: slot_update_def Let_def)
  qed
qed simp

lemma ok_change:
  assumes "cmd = SetOk key v \<or> cmd = DelOk key v"
  shows "\<exists>m'. lm_on_server now r cmd m = Some (m', None) \<and> (m' = m \<or> slot_change (key, lm_session m) m m')"
proof (cases "map_of (lm_slots m) (key, lm_session m)")
  case (Some sl)
  have "slot_change (key, lm_session m) m (slot_update (key, lm_session m) (slot_set_ok sl v) (lm_slots m) None m)"
    "slot_change (key, lm_session m) m (slot_update (key, lm_session m) (slot_del_ok sl v) (lm_slots m) None m)"
    using Some by (simp_all add: slot_change_existing slot_ops_ok(5,6))
  then show ?thesis using Some assms by (auto simp: slot_update_def Let_def)
qed (use assms in auto)

subsection \<open>Inputs of a map\<close>

datatype 'u lm_input =
    LmTick time
  | LmControl time "'u feature_actor" map_control
  | LmServer time node_session server_map_event

fun lm_step :: "'u lm_input \<Rightarrow> 'u local_map \<Rightarrow> 'u local_map run" where
  "lm_step (LmTick now) m = Some (lm_on_tick now m)"
| "lm_step (LmControl now actor control) m = map_option fst (lm_on_control now actor control m)"
| "lm_step (LmServer now remote event) m = map_option fst (lm_on_server now remote event m)"

lemma on_control_wf:
  assumes "lm_wf m"
  shows "\<exists>m' e. lm_on_control now a c m = Some (m', e) \<and> lm_wf m' \<and> lm_session m' = lm_session m"
proof (cases c)
  case (MSet key d)
  then show ?thesis using set_change [of now a key d m] slot_change_wf [OF _ assms] by (fastforce simp: slot_change_def simp del: lm_on_control.simps)
next
  case (MDel key)
  then show ?thesis using del_change [of now a key m] slot_change_wf [OF _ assms] assms by (fastforce simp: slot_change_def simp del: lm_on_control.simps)
next
  case MSub
  then show ?thesis using assms by (auto simp: lm_wf_def Let_def)
next
  case MUnsub
  then show ?thesis using assms by (cases "lm_sub_state m") (auto simp: lm_wf_def Let_def)
qed

lemma on_server_wf:
  assumes "lm_wf m"
  shows "\<exists>m' e. lm_on_server now r c m = Some (m', e) \<and> lm_wf m' \<and> lm_session m' = lm_session m"
proof (cases c)
  case (SetOk key v)
  then show ?thesis using ok_change [of c key v now r m] slot_change_wf [OF _ assms] assms by (fastforce simp: slot_change_def simp del: lm_on_server.simps)
next
  case (DelOk key v)
  then show ?thesis using ok_change [of c key v now r m] slot_change_wf [OF _ assms] assms by (fastforce simp: slot_change_def simp del: lm_on_server.simps)
next
  case (SubOk i)
  then show ?thesis using assms by (cases "lm_sub_state m") (auto simp: lm_wf_def Let_def sync_all_ok)
next
  case (UnsubOk i)
  then show ?thesis using assms by (cases "lm_sub_state m") (auto simp: lm_wf_def)
next
  case (OnSet key s v d)
  then show ?thesis
    using on_set_change [of r m now key s v d] slot_change_wf [OF _ assms] assms
    by (cases "lm_accept_event r m") (fastforce simp: slot_change_def simp del: lm_on_server.simps, simp)
next
  case (OnDel key s v)
  then show ?thesis
    using on_del_change [of r m now key s v] slot_change_wf [OF _ assms] assms
    by (cases "lm_accept_event r m") (fastforce simp: slot_change_def simp del: lm_on_server.simps, simp)
qed

lemma lm_step_wf: "lm_wf m \<Longrightarrow> \<exists>m'. lm_step i m = Some m' \<and> lm_wf m' \<and> lm_session m' = lm_session m"
proof (cases i)
  case (LmTick now)
  moreover assume "lm_wf m"
  ultimately show ?thesis by (simp add: lm_wf_tick)
next
  case (LmControl now a c)
  moreover assume "lm_wf m"
  ultimately show ?thesis using on_control_wf [of m now a c] by (auto simp del: lm_on_control.simps)
next
  case (LmServer now r c)
  moreover assume "lm_wf m"
  ultimately show ?thesis using on_server_wf [of m now r c] by (auto simp del: lm_on_server.simps)
qed

interpretation client_map: run_invariant lm_step lm_wf
  using lm_step_wf by unfold_locales blast

subsection \<open>What a subscriber is told\<close>

text \<open>
  A node keeps one session while it runs (\<open>ses\<close>), so a slot is named by sub-key and node, as the events of the
  subscribers are.
\<close>

definition lm_view :: "(node_id \<Rightarrow> u64) \<Rightarrow> 'u local_map \<Rightarrow> key \<times> node_id \<Rightarrow> bytes option" where
  "lm_view ses m = (\<lambda>(key, n). Option.bind (map_of (lm_slots m) (key, (n, ses n))) slot_data)"

fun replay_event :: "(key \<times> node_id \<Rightarrow> bytes option) \<Rightarrow> map_event \<Rightarrow> key \<times> node_id \<Rightarrow> bytes option" where
  "replay_event f (EvSet key n d) = f((key, n) \<mapsto> d)"
| "replay_event f (EvDel key n) = f((key, n) := None)"
| "replay_event f (EvRelaySelected n) = f"

definition told :: "'u feature_actor \<Rightarrow> 'u local_map \<Rightarrow> map_event list" where
  "told a m = List.map_filter (\<lambda>out. case out of LmLocal b e \<Rightarrow> if b = a then Some e else None | LmRemote _ \<Rightarrow> None) (lm_queue m)"

abbreviation lm_tracks :: "(node_id \<Rightarrow> u64) \<Rightarrow> 'u feature_actor \<Rightarrow> 'u local_map \<Rightarrow> 'u local_map \<Rightarrow> bool" where
  "lm_tracks ses a \<equiv> tracks (lm_view ses) (told a) replay_event"

lemma map_filter_append: "List.map_filter f (xs @ ys) = List.map_filter f xs @ List.map_filter f ys"
  by (simp add: List.map_filter_def)

lemma told_fire:
  assumes "distinct (lm_subscribers m)" "a \<in> set (lm_subscribers m)"
  shows "told a (lm_fire_event e m) = told a m @ [e]"
proof -
  have "List.map_filter (\<lambda>out. case out of LmLocal b e \<Rightarrow> if b = a then Some e else None | LmRemote _ \<Rightarrow> None) (map (\<lambda>b. LmLocal b e) subs)
      = (if a \<in> set subs then [e] else [])" if "distinct subs" for subs :: "'a feature_actor list"
    using that by (induction subs) (auto simp: List.map_filter_def)
  then show ?thesis using assms by (simp add: told_def map_filter_append)
qed

lemma told_cong: "lm_queue m' = lm_queue m @ map LmRemote cs \<Longrightarrow> told a m' = told a m"
  by (simp add: told_def map_filter_append) (simp add: List.map_filter_def)

lemma tracks_silent: "lm_view ses m' = lm_view ses m \<Longrightarrow> told a m' = told a m \<Longrightarrow> lm_tracks ses a m m'"
  by (simp add: tracks_def)

lemma slot_change_tracks:
  assumes "slot_change k m m'" "lm_wf m" "a \<in> set (lm_subscribers m)" "snd (snd k) = ses (fst (snd k))"
  shows "lm_tracks ses a m m'"
proof -
  obtain b sl sl' ev where c: "map_of (hm_ensure b k (SlotUnspecific (fst k)) (lm_slots m)) k = Some sl"
    "m' = slot_update k sl' (hm_ensure b k (SlotUnspecific (fst k)) (lm_slots m)) ev m" "event_matches k sl sl' ev"
    using assms(1) unfolding slot_change_def by blast
  obtain key n where k: "k = (key, (n, ses n))" using assms(4) by (metis prod.collapse)
  have before: "lm_view ses m = (lm_view ses m)((key, n) := slot_data sl)"
    using c(1) by (auto simp: fun_eq_iff lm_view_def k hm_get_ensure split: if_splits)
  have after: "lm_view ses m' = (lm_view ses m)((key, n) := slot_data sl')"
    by (auto simp: fun_eq_iff c(2) lm_view_def k hm_get_ensure)
  show ?thesis
  proof (cases ev)
    case None
    then have "lm_view ses m' = lm_view ses m" using c(3) before after by simp
    then show ?thesis using None c(2) by (intro tracks_silent) (simp_all add: told_def slot_update_def)
  next
    case (Some e)
    let ?m0 = "m\<lparr>lm_slots := hm_insert k sl' (hm_ensure b k (SlotUnspecific (fst k)) (lm_slots m))\<rparr>"
    have "told a ?m0 = told a m" by (simp add: told_def)
    moreover have "told a (lm_fire_event e ?m0) = told a ?m0 @ [e]"
      using lm_wfD(2) [OF assms(2)] assms(3) by (intro told_fire) simp_all
    ultimately have "told a m' = told a m @ [e]" using c(2) Some by (simp add: slot_update_def)
    moreover have "replay_event (lm_view ses m) e = lm_view ses m'"
      using c(3) Some after k by (cases e) (auto simp: fun_eq_iff)
    ultimately show ?thesis by (auto simp: tracks_def)
  qed
qed

lemma cleanup_data: "slot_should_cleanup sl \<Longrightarrow> slot_data sl = None"
  by (cases sl) auto

lemma sync_all_get: "map_of (fst (sync_all now f sls)) k = map_option (\<lambda>sl. fst (slot_sync sl now f)) (map_of sls k)"
  unfolding sync_all_map by (rule hm_get_map_values)

lemma lm_view_eqI:
  assumes "\<And>k. Option.bind (map_of (lm_slots m') k) slot_data = Option.bind (map_of (lm_slots m) k) slot_data"
  shows "lm_view ses m' = lm_view ses m"
  using assms by (auto simp: lm_view_def fun_eq_iff)

lemma view_sync:
  assumes "lm_slots m' = fst (sync_all now f (lm_slots m))"
  shows "lm_view ses m' = lm_view ses m"
proof (rule lm_view_eqI)
  fix k show "Option.bind (map_of (lm_slots m') k) slot_data = Option.bind (map_of (lm_slots m) k) slot_data"
    by (cases "map_of (lm_slots m) k") (simp_all add: assms sync_all_get)
qed

lemma tick_tracks:
  assumes "lm_wf m"
  shows "lm_tracks ses a m (lm_on_tick now m)"
proof (rule tracks_silent)
  let ?m1 = "lm_sync_slots now False (lm_tick_sub now m)"
  have wf: "wf_map (lm_slots ?m1)" using lm_wfD(1) [OF assms] by (simp add: slots_okD(1) [OF sync_all_ok])
  have "lm_view ses (lm_on_tick now m) = lm_view ses ?m1"
  proof (rule lm_view_eqI)
    fix k show "Option.bind (map_of (lm_slots (lm_on_tick now m)) k) slot_data = Option.bind (map_of (lm_slots ?m1) k) slot_data"
      by (cases "map_of (lm_slots ?m1) k") (simp_all add: lm_on_tick_def Let_def hm_get_filter [OF wf, simplified] cleanup_data)
  qed
  also have "\<dots> = lm_view ses m" by (rule view_sync) simp
  finally show "lm_view ses (lm_on_tick now m) = lm_view ses m" .
  have "\<exists>cs. lm_queue (lm_tick_sub now m) = lm_queue m @ map LmRemote cs"
    by (cases "lm_sub_state m") (auto simp: lm_tick_sub_def intro: exI [of _ "[]"] exI [of _ "[c]" for c])
  then show "told a (lm_on_tick now m) = told a m"
    using told_cong [of ?m1 "lm_tick_sub now m"] told_cong [of "lm_tick_sub now m" m]
    by (auto simp: lm_on_tick_def Let_def told_def)
qed

lemma told_restore_other: "a \<noteq> b \<Longrightarrow> told a (lm_restore_events b l m) = told a m"
proof -
  assume "a \<noteq> b"
  then have "List.map_filter (\<lambda>out. case out of LmLocal c e \<Rightarrow> if c = a then Some e else None | LmRemote _ \<Rightarrow> None)
      (List.map_filter (\<lambda>((key, source), slot). if l \<and> s \<noteq> source then None
        else map_option (\<lambda>d. LmLocal b (EvSet key (fst source) d)) (slot_data slot)) sls) = []" for s sls
    by (induction sls) (auto split: option.split if_splits)
  then show ?thesis by (simp add: told_def lm_restore_events_def map_filter_append)
qed

lemma view_cong: "lm_slots m' = lm_slots m \<Longrightarrow> lm_view ses m' = lm_view ses m"
  by (simp add: lm_view_def)

lemma told_queue: "lm_queue m' = lm_queue m \<Longrightarrow> told a m' = told a m"
  by (simp add: told_def)

lemma relay_selected_tracks:
  assumes "distinct (lm_subscribers m)" "a \<in> set (lm_subscribers m)"
  shows "lm_tracks ses a m (lm_fire_event (EvRelaySelected n) m)"
  using told_fire [OF assms] view_cong [of "lm_fire_event (EvRelaySelected n) m" m ses] by (auto simp: tracks_def)

lemma silent_tracks: "lm_slots m' = lm_slots m \<Longrightarrow> lm_queue m' = lm_queue m \<Longrightarrow> lm_tracks ses a m m'"
  by (rule tracks_silent [OF view_cong told_queue])

lemma sync_tracks: "lm_tracks ses a m (lm_sync_slots now f m)"
  by (rule tracks_silent [OF view_sync told_cong]) simp_all

text \<open>Inputs under which the actor stays subscribed, and under which every data event names a current session.\<close>

fun keeps_sub :: "(node_id \<Rightarrow> u64) \<Rightarrow> 'u feature_actor \<Rightarrow> 'u lm_input \<Rightarrow> bool" where
  "keeps_sub ses a (LmControl now b MUnsub) \<longleftrightarrow> b \<noteq> a"
| "keeps_sub ses a (LmServer now r (OnSet key s v d)) \<longleftrightarrow> snd s = ses (fst s)"
| "keeps_sub ses a (LmServer now r (OnDel key s v)) \<longleftrightarrow> snd s = ses (fst s)"
| "keeps_sub ses a _ \<longleftrightarrow> True"

lemma slot_change_subs: "slot_change k m m' \<Longrightarrow> lm_subscribers m' = lm_subscribers m"
  by (auto simp: slot_change_def)

lemma slot_change_keeps:
  assumes "lm_wf m" "a \<in> set (lm_subscribers m)" "m' = m \<or> slot_change k m m'" "snd (snd k) = ses (fst (snd k))"
  shows "a \<in> set (lm_subscribers m') \<and> lm_tracks ses a m m'"
  using assms(3)
proof
  assume c: "slot_change k m m'"
  show ?thesis using slot_change_tracks [of k m m' a ses, OF c assms(1,2,4)] slot_change_subs [OF c] assms(2) by simp
qed (use assms(2) in \<open>simp add: tracks_refl\<close>)

lemma control_tracks:
  assumes "lm_wf m" "a \<in> set (lm_subscribers m)" "snd (lm_session m) = ses (fst (lm_session m))"
    and "keeps_sub ses a (LmControl now b c)" "lm_on_control now b c m = Some (m', e)"
  shows "a \<in> set (lm_subscribers m') \<and> lm_tracks ses a m m'"
proof (cases c)
  case (MSet key d)
  then have "m' = m \<or> slot_change (key, lm_session m) m m'" using set_change [of now b key d m] assms(5) by auto
  from slot_change_keeps [OF assms(1,2) this] show ?thesis using assms(3) by simp
next
  case (MDel key)
  then have "m' = m \<or> slot_change (key, lm_session m) m m'" using del_change [of now b key m] assms(5) by auto
  from slot_change_keeps [OF assms(1,2) this] show ?thesis using assms(3) by simp
next
  case MSub
  show ?thesis
  proof (cases "b \<in> set (lm_subscribers m)")
    case True
    then show ?thesis using MSub assms(2,5) by (auto simp: tracks_refl)
  next
    case False
    then have "m' = lm_restore_events b False (m\<lparr>lm_subscribers := lm_subscribers m @ [b]\<rparr>)"
      using MSub assms(2,5) by (auto simp: Let_def split: if_splits)
    moreover have "b \<noteq> a" using False assms(2) by auto
    ultimately show ?thesis using assms(2) told_restore_other [of a b False "m\<lparr>lm_subscribers := lm_subscribers m @ [b]\<rparr>"]
      by (auto simp: told_def lm_view_def intro!: tracks_silent)
  qed
next
  case MUnsub
  then have "a \<in> set (filter (\<lambda>x. x \<noteq> b) (lm_subscribers m))" using assms(2,4) by auto
  then have "filter (\<lambda>x. x \<noteq> b) (lm_subscribers m) \<noteq> []" by force
  then show ?thesis using MUnsub assms(2,4,5) by (auto simp: Let_def intro!: silent_tracks split: if_splits)
qed

lemma server_tracks:
  assumes "lm_wf m" "a \<in> set (lm_subscribers m)" "snd (lm_session m) = ses (fst (lm_session m))"
    and "keeps_sub ses a (LmServer now r c)" "lm_on_server now r c m = Some (m', e)"
  shows "a \<in> set (lm_subscribers m') \<and> lm_tracks ses a m m'"
proof -
  note change = slot_change_keeps [OF assms(1,2)]
  note sub = assms(2) lm_wfD(2) [OF assms(1)]
  show ?thesis
  proof (cases c)
    case (SetOk key v)
    then have "m' = m \<or> slot_change (key, lm_session m) m m'" using ok_change [of c key v now r m] assms(5) by auto
    from change [OF this] show ?thesis using assms(3) by simp
  next
    case (DelOk key v)
    then have "m' = m \<or> slot_change (key, lm_session m) m m'" using ok_change [of c key v now r m] assms(5) by auto
    from change [OF this] show ?thesis using assms(3) by simp
  next
    case (OnSet key s v d)
    then have "m' = m \<or> slot_change (key, s) m m'"
      using on_set_change [of r m now key s v d] assms(5) by (cases "lm_accept_event r m") auto
    from change [OF this] show ?thesis using assms(4) OnSet by simp
  next
    case (OnDel key s v)
    then have "m' = m \<or> slot_change (key, s) m m'"
      using on_del_change [of r m now key s v] assms(5) by (cases "lm_accept_event r m") auto
    from change [OF this] show ?thesis using assms(4) OnDel by simp
  next
    case (UnsubOk i)
    then show ?thesis using assms(2,5) by (auto simp: tracks_refl intro!: silent_tracks split: sub_state.splits if_splits)
  next
    case (SubOk i)
    have st: "lm_tracks ses a m (m\<lparr>lm_sub_state := x\<rparr>)" for x by (rule silent_tracks) simp_all
    have fire: "lm_tracks ses a m (lm_fire_event (EvRelaySelected n) m1)" if "lm_tracks ses a m m1" "lm_subscribers m1 = lm_subscribers m" for m1 n
      using that sub relay_selected_tracks [of m1 a ses n] by (auto intro: tracks_trans)
    show ?thesis
    proof (cases "lm_sub_state m")
      case (Subscribed my locked ts)
      have "lm_tracks ses a m (lm_sync_slots now True (m\<lparr>lm_sub_state := x\<rparr>))" for x
        by (rule tracks_trans [OF st sync_tracks])
      then show ?thesis using SubOk Subscribed assms(2,5) st fire by (auto simp: Let_def tracks_refl split: if_splits)
    next
      case (Subscribing my ts)
      then show ?thesis using SubOk assms(2,5) st fire by (auto simp: tracks_refl split: if_splits)
    qed (use SubOk assms(2,5) in \<open>simp_all add: tracks_refl\<close>)
  qed
qed

lemma subscriber_run:
  assumes "lm_wf m" "a \<in> set (lm_subscribers m)" "snd (lm_session m) = ses (fst (lm_session m))"
    and "\<forall>i\<in>set ins. keeps_sub ses a i"
  shows "\<exists>m'. for_run lm_step ins m = Some m' \<and> lm_tracks ses a m m'"
  using assms
proof (induction ins arbitrary: m)
  case Nil
  then show ?case by (simp add: tracks_refl)
next
  case (Cons i ins)
  obtain m1 where m1: "lm_step i m = Some m1" "lm_wf m1" "lm_session m1 = lm_session m"
    using lm_step_wf [OF Cons.prems(1)] by blast
  have "a \<in> set (lm_subscribers m1) \<and> lm_tracks ses a m m1"
  proof (cases i)
    case (LmTick now)
    then have "m1 = lm_on_tick now m" using m1(1) by simp
    then show ?thesis using tick_tracks [OF Cons.prems(1)] Cons.prems(2) by simp
  next
    case (LmControl now b c)
    with m1(1) obtain e where "lm_on_control now b c m = Some (m1, e)" by auto
    then show ?thesis using Cons.prems(4) LmControl by (intro control_tracks [of m a ses, OF Cons.prems(1-3)]) simp_all
  next
    case (LmServer now r c)
    with m1(1) obtain e where "lm_on_server now r c m = Some (m1, e)" by auto
    then show ?thesis using Cons.prems(4) LmServer by (intro server_tracks [of m a ses, OF Cons.prems(1-3)]) simp_all
  qed
  then obtain m2 where "for_run lm_step ins m1 = Some m2" "lm_tracks ses a m1 m2" "lm_tracks ses a m m1"
    using Cons.IH [OF m1(2)] m1(3) Cons.prems(3,4) by auto
  then show ?case using m1(1) tracks_trans by fastforce
qed

definition slots_current :: "(node_id \<Rightarrow> u64) \<Rightarrow> ((key \<times> node_session) \<times> cli_slot) list \<Rightarrow> bool" where
  "slots_current ses sls \<longleftrightarrow> (\<forall>k\<in>set (map fst sls). snd (snd k) = ses (fst (snd k)))"

text \<open>The events with which a new subscriber is brought up to date.\<close>

definition restore_list :: "node_session \<Rightarrow> bool \<Rightarrow> ((key \<times> node_session) \<times> cli_slot) list \<Rightarrow> map_event list" where
  "restore_list own l = List.map_filter (\<lambda>((key, source), slot). if l \<and> own \<noteq> source then None
     else map_option (\<lambda>d. EvSet key (fst source) d) (slot_data slot))"

lemma told_restore: "told a (lm_restore_events a l m) = told a m @ restore_list (lm_session m) l (lm_slots m)"
proof -
  have "List.map_filter (\<lambda>out. case out of LmLocal c e \<Rightarrow> if c = a then Some e else None | LmRemote _ \<Rightarrow> None)
      (List.map_filter (\<lambda>((key, source), slot). if l \<and> own \<noteq> source then None
        else map_option (\<lambda>d. LmLocal a (EvSet key (fst source) d)) (slot_data slot)) sls) = restore_list own l sls" for own sls
    unfolding restore_list_def by (induction sls) (auto split: option.split if_splits)
  then show ?thesis by (simp add: told_def lm_restore_events_def map_filter_append)
qed

lemma replay_restore:
  assumes "wf_map sls" "slots_current ses sls"
    and "l \<longrightarrow> (\<forall>k sl. (k, sl) \<in> set sls \<and> slot_data sl \<noteq> None \<longrightarrow> snd k = own)"
  shows "foldl replay_event f (restore_list own l sls) (key, n) =
    (case Option.bind (map_of sls (key, (n, ses n))) slot_data of Some d \<Rightarrow> Some d | None \<Rightarrow> f (key, n))"
  using assms
proof (induction sls arbitrary: f)
  case (Cons x sls)
  obtain k1 n1 sl where x: "x = ((k1, (n1, ses n1)), sl)" using Cons.prems(2) by (cases x) (auto simp: slots_current_def)
  have new: "map_of sls (k1, (n1, ses n1)) = None" using Cons.prems(1) by (simp add: x map_of_eq_None_iff)
  have IH: "foldl replay_event g (restore_list own l sls) (key, n) =
      (case Option.bind (map_of sls (key, (n, ses n))) slot_data of Some d \<Rightarrow> Some d | None \<Rightarrow> g (key, n))" for g
  proof (rule Cons.IH)
    show "l \<longrightarrow> (\<forall>k sl. (k, sl) \<in> set sls \<and> slot_data sl \<noteq> None \<longrightarrow> snd k = own)"
      using Cons.prems(3) by (meson list.set_intros(2))
  qed (use Cons.prems(1,2) in \<open>simp_all add: slots_current_def\<close>)
  have restore: "restore_list own l (x # sls) = (case slot_data sl of None \<Rightarrow> [] | Some d \<Rightarrow> [EvSet k1 n1 d]) @ restore_list own l sls"
  proof (cases "slot_data sl")
    case (Some d)
    then have "l \<longrightarrow> snd (k1, (n1, ses n1)) = own" using Cons.prems(3) unfolding x by (metis list.set_intros(1) option.distinct(1))
    then show ?thesis using Some by (auto simp: x restore_list_def)
  qed (simp add: x restore_list_def)
  show ?case
  proof (cases "slot_data sl")
    case None
    then show ?thesis unfolding restore using new by (cases "(k1, n1) = (key, n)") (auto simp: IH x)
  next
    case (Some d)
    then show ?thesis unfolding restore using new by (cases "(k1, n1) = (key, n)") (auto simp: IH x split: option.split)
  qed
qed (simp add: restore_list_def)

lemma MSub_joins:
  assumes "lm_wf m" "a \<notin> set (lm_subscribers m)" "slots_current ses (lm_slots m)"
    and "lm_subscribers m = [] \<longrightarrow> (\<forall>k sl. (k, sl) \<in> set (lm_slots m) \<and> slot_data sl \<noteq> None \<longrightarrow> snd k = lm_session m)"
  shows "\<exists>m' es. lm_step (LmControl now a MSub) m = Some m' \<and> lm_wf m' \<and> a \<in> set (lm_subscribers m') \<and> lm_session m' = lm_session m \<and>
    told a m' = told a m @ es \<and> foldl replay_event (\<lambda>_. None) es = lm_view ses m'"
proof -
  obtain m' where m': "lm_step (LmControl now a MSub) m = Some m'" "lm_wf m'" "lm_session m' = lm_session m"
    using lm_step_wf [OF assms(1)] by blast
  let ?l = "lm_subscribers m = []"
  have "\<exists>m0. m' = lm_restore_events a ?l m0 \<and> lm_slots m0 = lm_slots m \<and> lm_queue m0 = lm_queue m \<and> lm_session m0 = lm_session m \<and>
      a \<in> set (lm_subscribers m0)"
    using m'(1) assms(2) by (auto simp: Let_def split: if_splits)
  then obtain m0 where m0: "m' = lm_restore_events a ?l m0" "lm_slots m0 = lm_slots m" "told a m0 = told a m" "lm_session m0 = lm_session m"
      "a \<in> set (lm_subscribers m0)"
    by (auto simp: told_def)
  have "foldl replay_event (\<lambda>_. None) (restore_list (lm_session m) ?l (lm_slots m)) (key, n) = lm_view ses m' (key, n)" for key n
    using replay_restore [OF _ assms(3,4)] lm_wfD(1) [OF assms(1)] m0
    by (auto simp: slots_ok_def lm_view_def split: option.split)
  then show ?thesis using m' m0 told_restore [of a ?l m0] by (auto simp: fun_eq_iff)
qed

text \<open>
  C19. A subscriber can rebuild the map from what it is told. From the moment an actor subscribes, the events queued
  for it, replayed from nothing, give exactly the data of every slot, whatever the node, the other actors and the
  relay do, until the actor unsubscribes. The first subscriber of a map needs that no remote data is left from an
  earlier subscription. Every data event names the current session of its source.
\<close>

theorem dht_subscriber_view:
  assumes "lm_wf m" "a \<notin> set (lm_subscribers m)" "snd (lm_session m) = ses (fst (lm_session m))"
    and "slots_current ses (lm_slots m)"
    and "lm_subscribers m = [] \<longrightarrow> (\<forall>k sl. (k, sl) \<in> set (lm_slots m) \<and> slot_data sl \<noteq> None \<longrightarrow> snd k = lm_session m)"
    and "\<forall>i\<in>set ins. keeps_sub ses a i"
  shows "\<exists>m' es. for_run lm_step (LmControl now a MSub # ins) m = Some m' \<and>
    told a m' = told a m @ es \<and> foldl replay_event (\<lambda>_. None) es = lm_view ses m'"
proof -
  obtain m1 es where m1: "lm_step (LmControl now a MSub) m = Some m1" "lm_wf m1" "a \<in> set (lm_subscribers m1)"
    "lm_session m1 = lm_session m" "told a m1 = told a m @ es" "foldl replay_event (\<lambda>_. None) es = lm_view ses m1"
    using MSub_joins [of m a ses now, OF assms(1,2,4,5)] by blast
  obtain m2 es2 where "for_run lm_step ins m1 = Some m2" "told a m2 = told a m1 @ es2" "foldl replay_event (lm_view ses m1) es2 = lm_view ses m2"
    using subscriber_run [of m1 a ses, OF m1(2,3) _ assms(6)] m1(4) assms(3) by (auto simp: tracks_def)
  then show ?thesis using m1(1,5,6) by (intro exI [of _ m2] exI [of _ "es @ es2"]) (simp del: lm_step.simps)
qed

theorem dht_subscriber_view_witness:
  "\<exists>m' es. for_run lm_step
      [LmControl 10 (ActorService 1 :: unit feature_actor) MSub, LmServer 20 (9, 0) (SubOk 10),
       LmServer 30 (9, 0) (OnSet 5 (2, 0) 7 [1]), LmServer 40 (9, 0) (OnSet 6 (3, 0) 8 [2]), LmServer 50 (9, 0) (OnDel 5 (2, 0) 7)]
      (lm_new (1, 0)) = Some m' \<and>
    told (ActorService 1) m' = es \<and> foldl replay_event (\<lambda>_. None) es = lm_view (\<lambda>_. 0) m' \<and> lm_view (\<lambda>_. 0) m' (6, 3) = Some [2]"
proof -
  let ?ins = "[LmServer 20 (9, 0) (SubOk 10), LmServer 30 (9, 0) (OnSet 5 (2, 0) 7 [1]),
       LmServer 40 (9, 0) (OnSet 6 (3, 0) 8 [2]), LmServer 50 (9, 0) (OnDel 5 (2, 0) 7)] :: unit lm_input list"
  let ?a = "ActorService 1 :: unit feature_actor"
  have "\<exists>m' es. for_run lm_step (LmControl 10 ?a MSub # ?ins) (lm_new (1, 0)) = Some m' \<and>
    told ?a m' = told ?a (lm_new (1, 0)) @ es \<and> foldl replay_event (\<lambda>_. None) es = lm_view (\<lambda>_. 0) m'"
    by (rule dht_subscriber_view [OF lm_wf_new]) (simp_all add: lm_new_def slots_current_def)
  then obtain m' es where m': "for_run lm_step (LmControl 10 ?a MSub # ?ins) (lm_new (1, 0)) = Some m'"
    "told ?a m' = es" "foldl replay_event (\<lambda>_. None) es = lm_view (\<lambda>_. 0) m'"
    by (auto simp: told_def lm_new_def simp del: for_run.simps)
  moreover from m'(1) have "lm_view (\<lambda>_. 0) m' (6, 3) = Some [2]"
    by (auto simp: lm_new_def lm_accept_event_def hm_ensure_def lm_view_def Let_def)
  ultimately show ?thesis by blast
qed

text \<open>
  Subscribing again to a map can miss its data. The slot of a remote value outlives the last subscriber; when
  the actor subscribes again, the relay sends the value with the version the slot already has, so the client
  acknowledges it and tells the actor nothing. The actor of this run is never told the value of sub-key 5
  after its second subscription, although the map holds it.
\<close>

theorem dht_resubscribe_misses_value:
  "\<exists>m1 m2. for_run lm_step
      [LmControl 10 (ActorService 1 :: unit feature_actor) MSub, LmServer 20 (9, 0) (SubOk 10), LmServer 30 (9, 0) (OnSet 5 (2, 0) 7 [1]),
       LmControl 40 (ActorService 1) MUnsub, LmServer 50 (9, 0) (UnsubOk 10), LmTick 60] (lm_new (1, 0)) = Some m1 \<and>
    for_run lm_step
      [LmControl 70 (ActorService 1) MSub, LmServer 80 (9, 0) (SubOk 70), LmServer 90 (9, 0) (OnSet 5 (2, 0) 7 [1])] m1 = Some m2 \<and>
    lm_view (\<lambda>_. 0) m2 (5, 2) = Some [1] \<and> told (ActorService 1) m2 = told (ActorService 1) m1 @ [EvRelaySelected 9]"
  by (simp add: lm_new_def lm_accept_event_def hm_ensure_def lm_view_def Let_def lm_on_tick_def lm_tick_sub_def
      lm_sync_slots_def lm_push_def lm_fire_event_def lm_restore_events_def told_def)

end
