(* ===== verification/Dht_Server.thy ===== *)
theory Dht_Server
  imports Dht_Msg
begin

text \<open>
  The relay side of the key-value store (\<^verbatim>\<open>dht_kv/server.rs\<close> and \<^verbatim>\<open>dht_kv/server/map.rs\<close>): the node that owns a
  map keeps one slot per sub-key and source, a list of subscribers, and the events that wait for acknowledgements.
\<close>

definition SRV_RESEND_MS :: time where "SRV_RESEND_MS = 200"
definition SRV_TIMEOUT_MS :: time where "SRV_TIMEOUT_MS = 10000"

subsection \<open>Slots\<close>

datatype srv_slot = SrvUnspecific | SrvSet bytes version time

fun srv_slot_set :: "srv_slot \<Rightarrow> time \<Rightarrow> version \<Rightarrow> bytes \<Rightarrow> srv_slot \<times> bool" where
  "srv_slot_set SrvUnspecific now v d = (SrvSet d v now, True)"
| "srv_slot_set (SrvSet d0 v0 t0) now v d = (if v0 \<le> v then (SrvSet d v now, True) else (SrvSet d0 v0 t0, False))"

fun srv_slot_del :: "srv_slot \<Rightarrow> time \<Rightarrow> version \<Rightarrow> srv_slot \<times> version option" where
  "srv_slot_del SrvUnspecific now v = (SrvUnspecific, None)"
| "srv_slot_del (SrvSet d0 v0 t0) now v = (if v0 \<le> v then (SrvUnspecific, Some v0) else (SrvSet d0 v0 t0, None))"

fun srv_slot_dump :: "srv_slot \<Rightarrow> (version \<times> bytes) option" where
  "srv_slot_dump SrvUnspecific = None"
| "srv_slot_dump (SrvSet d v _) = Some (v, d)"

subsection \<open>One map\<close>

record wait_acks_event =
  wa_event :: server_map_event
  wa_remotes :: "node_session list"
  wa_created_at :: time
  wa_last_send_ms :: time

record sub_slot =
  ss_id :: nat
  ss_last_ts :: time

type_synonym srv_out = "(node_session \<times> server_map_event) list"

record remote_map =
  rm_session :: node_session
  rm_slots :: "((key \<times> node_session) \<times> srv_slot) list"
  rm_slots_event :: "((key \<times> node_session) \<times> wait_acks_event) list"
  rm_subs :: "(node_session \<times> sub_slot) list"
  rm_queue :: srv_out

definition rm_new :: "node_session \<Rightarrow> remote_map" where
  "rm_new sess = \<lparr>rm_session = sess, rm_slots = [], rm_slots_event = [], rm_subs = [], rm_queue = []\<rparr>"

text \<open>The body of the resend loop for one waiting event: \<open>None\<close> when it timed out.\<close>

definition tick_event :: "time \<Rightarrow> wait_acks_event \<Rightarrow> wait_acks_event option \<times> srv_out" where
  "tick_event now w =
     (if SRV_TIMEOUT_MS + wa_created_at w \<le> now then (None, [])
      else if SRV_RESEND_MS + wa_last_send_ms w \<le> now then
        (Some (if wa_remotes w = [] then w else w\<lparr>wa_last_send_ms := now\<rparr>),
         map (\<lambda>r. (r, wa_event w)) (wa_remotes w))
      else (Some w, []))"

fun tick_events :: "time \<Rightarrow> ((key \<times> node_session) \<times> wait_acks_event) list \<Rightarrow>
    ((key \<times> node_session) \<times> wait_acks_event) list \<times> srv_out" where
  "tick_events now [] = ([], [])"
| "tick_events now ((k, w) # ws) =
     (let (w', out) = tick_event now w; (ws', outs) = tick_events now ws
      in ((case w' of Some w2 \<Rightarrow> (k, w2) # ws' | None \<Rightarrow> ws'), out @ outs))"

definition rm_on_tick :: "time \<Rightarrow> remote_map \<Rightarrow> remote_map" where
  "rm_on_tick now m =
     (let subs = filter (\<lambda>(_, s). \<not> ss_last_ts s + SRV_TIMEOUT_MS \<le> now) (rm_subs m);
          (evs, out) = tick_events now (rm_slots_event m)
      in m\<lparr>rm_subs := subs, rm_slots_event := evs, rm_queue := rm_queue m @ out\<rparr>)"

definition rm_dump :: "remote_map \<Rightarrow> dump_row list" where
  "rm_dump m = List.map_filter (\<lambda>((key, sess), slot). map_option (\<lambda>(v, d). (key, sess, v, d)) (srv_slot_dump slot)) (rm_slots m)"

text \<open>The source already has the data, so an event goes to the other subscribers only.\<close>

definition rm_fire_event :: "time \<Rightarrow> key \<Rightarrow> node_session \<Rightarrow> server_map_event \<Rightarrow> remote_map \<Rightarrow> remote_map" where
  "rm_fire_event now key source event m =
     (if rm_subs m = [] then m
      else
        (let remotes = filter (\<lambda>r. r \<noteq> source) (map fst (rm_subs m))
         in m\<lparr>rm_slots_event := hm_insert (key, source)
                \<lparr>wa_event = event, wa_remotes = remotes, wa_created_at = now, wa_last_send_ms = now\<rparr> (rm_slots_event m),
              rm_queue := rm_queue m @ map (\<lambda>r. (r, event)) remotes\<rparr>))"

definition sub_event_step :: "time \<Rightarrow> node_session \<Rightarrow> (key \<times> node_session) \<times> srv_slot \<Rightarrow> remote_map \<Rightarrow> remote_map" where
  "sub_event_step now remote = (\<lambda>((key, source), slot) m.
     if source = remote then m
     else (case srv_slot_dump slot of
         None \<Rightarrow> m
       | Some (version, data) \<Rightarrow>
           (let event = OnSet key source version data;
                entry = (case map_of (rm_slots_event m) (key, source) of
                    Some w \<Rightarrow> w
                  | None \<Rightarrow> \<lparr>wa_event = event, wa_remotes = [], wa_created_at = now, wa_last_send_ms = now\<rparr>);
                entry' = (if remote \<in> set (wa_remotes entry) then entry
                          else entry\<lparr>wa_remotes := wa_remotes entry @ [remote]\<rparr>)
            in m\<lparr>rm_slots_event := hm_insert (key, source) entry' (rm_slots_event m),
                 rm_queue := rm_queue m @ [(remote, event)]\<rparr>)))"

definition rm_fire_sub_events :: "time \<Rightarrow> node_session \<Rightarrow> remote_map \<Rightarrow> remote_map" where
  "rm_fire_sub_events now remote m = fold (sub_event_step now remote) (rm_slots m) m"

text \<open>Acknowledgement of a waiting event whose version matches: the remote leaves the list, an empty list ends it.\<close>

definition ack_event :: "(key \<times> node_session) \<Rightarrow> node_session \<Rightarrow> wait_acks_event \<Rightarrow> remote_map \<Rightarrow> remote_map" where
  "ack_event k remote w m =
     (let rest = filter (\<lambda>r. r \<noteq> remote) (wa_remotes w)
      in m\<lparr>rm_slots_event :=
             (if rest = [] then hm_remove k (rm_slots_event m) else hm_insert k (w\<lparr>wa_remotes := rest\<rparr>) (rm_slots_event m))\<rparr>)"

fun rm_on_client :: "time \<Rightarrow> node_session \<Rightarrow> client_map_command \<Rightarrow> remote_map \<Rightarrow> (remote_map \<times> server_map_event option) run" where
  "rm_on_client now remote (CSet key version data) m =
     (let slots = hm_ensure True (key, remote) SrvUnspecific (rm_slots m)
      in do {
        slot \<leftarrow> map_of slots (key, remote);
        let (slot', accepted) = srv_slot_set slot now version data;
        let m1 = m\<lparr>rm_slots := hm_insert (key, remote) slot' slots\<rparr>;
        Some (if accepted then (rm_fire_event now key remote (OnSet key remote version data) m1, Some (SetOk key version))
              else (m1, None))
      })"
| "rm_on_client now remote (CDel key req_version) m =
     (case map_of (rm_slots m) (key, remote) of
        None \<Rightarrow> Some (m, None)
      | Some slot \<Rightarrow>
          (case srv_slot_del slot now req_version of
             (_, Some version) \<Rightarrow>
               Some (rm_fire_event now key remote (OnDel key remote version) (m\<lparr>rm_slots := hm_remove (key, remote) (rm_slots m)\<rparr>),
                     Some (DelOk key version))
           | (slot', None) \<Rightarrow> Some (m\<lparr>rm_slots := hm_insert (key, remote) slot' (rm_slots m)\<rparr>, None)))"
| "rm_on_client now remote (CSub sub_id locked_session) m =
     (let old = map_of (rm_subs m) remote;
          m1 = m\<lparr>rm_subs := hm_insert remote \<lparr>ss_id = sub_id, ss_last_ts = now\<rparr> (rm_subs m)\<rparr>
      in Some (if old = None \<or> locked_session \<noteq> Some (rm_session m) then rm_fire_sub_events now remote m1 else m1, Some (SubOk sub_id)))"
| "rm_on_client now remote (CUnsub sub_id) m =
     (case map_of (rm_subs m) remote of
        None \<Rightarrow> Some (m, None)
      | Some sub \<Rightarrow>
          if ss_id sub = sub_id then Some (m\<lparr>rm_subs := hm_remove remote (rm_subs m)\<rparr>, Some (UnsubOk sub_id)) else Some (m, None))"
| "rm_on_client now remote (COnSetAck key sess acked) m =
     (case map_of (rm_slots_event m) (key, sess) of
        None \<Rightarrow> Some (m, None)
      | Some w \<Rightarrow>
          (case wa_event w of
             OnSet _ _ version _ \<Rightarrow> if acked = version then Some (ack_event (key, sess) remote w m, None) else Some (m, None)
           | _ \<Rightarrow> Some (m, None)))"
| "rm_on_client now remote (COnDelAck key sess acked) m =
     (case map_of (rm_slots_event m) (key, sess) of
        None \<Rightarrow> Some (m, None)
      | Some w \<Rightarrow>
          (case wa_event w of
             OnDel _ _ version \<Rightarrow> if acked = version then Some (ack_event (key, sess) remote w m, None) else Some (m, None)
           | _ \<Rightarrow> Some (m, None)))"

definition rm_pop_action :: "remote_map \<Rightarrow> (node_session \<times> server_map_event) option \<times> remote_map" where
  "rm_pop_action m = (case rm_queue m of [] \<Rightarrow> (None, m) | x # q \<Rightarrow> (Some x, m\<lparr>rm_queue := q\<rparr>))"

definition rm_should_clean :: "remote_map \<Rightarrow> bool" where
  "rm_should_clean m \<longleftrightarrow> rm_slots m = [] \<and> rm_subs m = [] \<and> rm_slots_event m = []"

subsection \<open>The storage of all maps\<close>

record remote_storage =
  rs_session :: node_session
  rs_maps :: "(map_id \<times> remote_map) list"
  rs_queue :: "(node_session \<times> server_event) list"

definition rs_new :: "node_session \<Rightarrow> remote_storage" where
  "rs_new sess = \<lparr>rs_session = sess, rs_maps = [], rs_queue = []\<rparr>"

text \<open>\<^verbatim>\<open>while let Some(..) = map.pop_action()\<close>: every pop shortens the queue.\<close>

function rm_drain :: "map_id \<Rightarrow> remote_map \<Rightarrow> remote_map \<times> (node_session \<times> server_event) list" where
  "rm_drain key m =
     (case rm_pop_action m of
        (None, m') \<Rightarrow> (m', [])
      | (Some (sess, event), m') \<Rightarrow>
          (let (m2, out) = rm_drain key m' in (m2, (sess, SMapEvent key event) # out)))"
  by pat_completeness auto

termination
  by (relation "measure (\<lambda>(_, m). length (rm_queue m))") (auto simp: rm_pop_action_def split: list.splits)

fun rs_tick_maps :: "time \<Rightarrow> (map_id \<times> remote_map) list \<Rightarrow> (map_id \<times> remote_map) list \<times> (node_session \<times> server_event) list" where
  "rs_tick_maps now [] = ([], [])"
| "rs_tick_maps now ((key, m) # ms) =
     (let (m', out) = rm_drain key (rm_on_tick now m); (ms', outs) = rs_tick_maps now ms
      in (if rm_should_clean m' then ms' else (key, m') # ms', out @ outs))"

definition rs_on_tick :: "time \<Rightarrow> remote_storage \<Rightarrow> remote_storage" where
  "rs_on_tick now s =
     (let (ms, out) = rs_tick_maps now (rs_maps s) in s\<lparr>rs_maps := ms, rs_queue := rs_queue s @ out\<rparr>)"

fun rs_on_remote :: "time \<Rightarrow> node_session \<Rightarrow> client_command \<Rightarrow> remote_storage \<Rightarrow> remote_storage run" where
  "rs_on_remote now remote (CMapCmd key cmd) s =
     (let maps = hm_ensure (cmd_is_creator cmd) key (rm_new (rs_session s)) (rs_maps s)
      in case map_of maps key of
           None \<Rightarrow> Some s
         | Some m \<Rightarrow>
             (case rm_on_client now remote cmd m of
                None \<Rightarrow> None
              | Some (m1, None) \<Rightarrow> Some (s\<lparr>rs_maps := hm_insert key m1 maps\<rparr>)
              | Some (m1, Some event) \<Rightarrow>
                  (let (m2, out) = rm_drain key m1
                   in Some (s\<lparr>rs_maps := hm_insert key m2 maps,
                              rs_queue := rs_queue s @ (remote, SMapEvent key event) # out\<rparr>))))"
| "rs_on_remote now remote (CMapGet key req_id) s =
     (let values = (case map_of (rs_maps s) key of Some m \<Rightarrow> rm_dump m | None \<Rightarrow> [])
      in Some (s\<lparr>rs_queue := rs_queue s @ [(remote, SMapGetRes key req_id values)]\<rparr>))"

definition rs_pop_action :: "remote_storage \<Rightarrow> (node_session \<times> server_event) option \<times> remote_storage" where
  "rs_pop_action s = (case rs_queue s of [] \<Rightarrow> (None, s) | x # q \<Rightarrow> (Some x, s\<lparr>rs_queue := q\<rparr>))"

declare rm_drain.simps [simp del]

subsection \<open>Well-formed maps\<close>

text \<open>
  A stored slot holds data, a waiting event is about the slot it is filed under and never waits for the source of
  the data.
\<close>

fun event_about :: "key \<times> node_session \<Rightarrow> server_map_event \<Rightarrow> bool" where
  "event_about (key, source) (OnSet k s _ _) \<longleftrightarrow> k = key \<and> s = source"
| "event_about (key, source) (OnDel k s _) \<longleftrightarrow> k = key \<and> s = source"
| "event_about _ _ \<longleftrightarrow> False"

definition wait_ok :: "key \<times> node_session \<Rightarrow> wait_acks_event \<Rightarrow> bool" where
  "wait_ok k w \<longleftrightarrow> event_about k (wa_event w) \<and> distinct (wa_remotes w) \<and> snd k \<notin> set (wa_remotes w)"

definition rm_wf :: "remote_map \<Rightarrow> bool" where
  "rm_wf m \<longleftrightarrow>
     wf_map (rm_slots m) \<and> wf_map (rm_slots_event m) \<and> wf_map (rm_subs m) \<and>
     (\<forall>k s. map_of (rm_slots m) k = Some s \<longrightarrow> srv_slot_dump s \<noteq> None) \<and>
     (\<forall>k w. map_of (rm_slots_event m) k = Some w \<longrightarrow> wait_ok k w)"

lemma rm_wfD:
  assumes "rm_wf m"
  shows "wf_map (rm_slots m)" "wf_map (rm_slots_event m)" "wf_map (rm_subs m)"
    "map_of (rm_slots m) k = Some s \<Longrightarrow> srv_slot_dump s \<noteq> None"
    "map_of (rm_slots_event m) k = Some w \<Longrightarrow> wait_ok k w"
  using assms unfolding rm_wf_def by blast+

lemma rm_wf_new [wf_intros]: "rm_wf (rm_new sess)"
  by (simp add: rm_wf_def rm_new_def)

lemma rm_wf_queue [simp]: "rm_wf (m\<lparr>rm_queue := q\<rparr>) \<longleftrightarrow> rm_wf m"
  by (simp add: rm_wf_def)

lemma rm_wf_subs: "rm_wf m \<Longrightarrow> wf_map subs \<Longrightarrow> rm_wf (m\<lparr>rm_subs := subs\<rparr>)"
  by (simp add: rm_wf_def)

lemma rm_wf_slot: "rm_wf m \<Longrightarrow> srv_slot_dump s \<noteq> None \<Longrightarrow> rm_wf (m\<lparr>rm_slots := hm_insert k s (rm_slots m)\<rparr>)"
  by (simp add: rm_wf_def wf_hm_insert)

lemma rm_wf_slot_remove: "rm_wf m \<Longrightarrow> rm_wf (m\<lparr>rm_slots := hm_remove k (rm_slots m)\<rparr>)"
  by (simp add: rm_wf_def wf_hm_remove)

lemma rm_wf_event: "rm_wf m \<Longrightarrow> wait_ok k w \<Longrightarrow> rm_wf (m\<lparr>rm_slots_event := hm_insert k w (rm_slots_event m)\<rparr>)"
  by (simp add: rm_wf_def wf_hm_insert)

lemma rm_wf_event_remove: "rm_wf m \<Longrightarrow> rm_wf (m\<lparr>rm_slots_event := hm_remove k (rm_slots_event m)\<rparr>)"
  by (simp add: rm_wf_def wf_hm_remove)

lemmas rm_wf_updates = rm_wf_subs rm_wf_slot rm_wf_slot_remove rm_wf_event rm_wf_event_remove wf_hm_insert wf_hm_remove wf_hm_filter

lemma fire_event_slots [simp]: "rm_slots (rm_fire_event now k s e m) = rm_slots m"
  by (simp add: rm_fire_event_def Let_def)

lemma fire_event_wf [wf_intros]:
  assumes "rm_wf m" "event_about (k, s) e"
  shows "rm_wf (rm_fire_event now k s e m)"
proof -
  have "wait_ok (k, s) \<lparr>wa_event = e, wa_remotes = filter (\<lambda>r. r \<noteq> s) (map fst (rm_subs m)), wa_created_at = now, wa_last_send_ms = now\<rparr>"
    using assms rm_wfD(3) [OF assms(1)] by (simp add: wait_ok_def)
  from rm_wf_event [OF assms(1) this] show ?thesis
    by (simp add: rm_fire_event_def Let_def assms(1))
qed

lemma sub_event_step_slots [simp]: "rm_slots (sub_event_step now r x m) = rm_slots m"
  by (auto simp: sub_event_step_def Let_def split: prod.splits option.splits)

lemma sub_event_step_wf:
  assumes "rm_wf m"
  shows "rm_wf (sub_event_step now r x m)"
proof -
  obtain k s sl where x: "x = ((k, s), sl)" by (cases x) auto
  show ?thesis
  proof (cases "s = r \<or> srv_slot_dump sl = None")
    case True
    then show ?thesis by (auto simp: sub_event_step_def x assms split: option.splits)
  next
    case False
    then obtain v d where vd: "s \<noteq> r" "srv_slot_dump sl = Some (v, d)" by auto
    define entry where "entry = (case map_of (rm_slots_event m) (k, s) of Some w \<Rightarrow> w
      | None \<Rightarrow> \<lparr>wa_event = OnSet k s v d, wa_remotes = [], wa_created_at = now, wa_last_send_ms = now\<rparr>)"
    have "wait_ok (k, s) entry"
      using rm_wfD(5) [OF assms, of "(k, s)"] by (auto simp: entry_def wait_ok_def split: option.splits)
    with vd(1) have "wait_ok (k, s) (if r \<in> set (wa_remotes entry) then entry else entry\<lparr>wa_remotes := wa_remotes entry @ [r]\<rparr>)"
      by (simp add: wait_ok_def)
    from rm_wf_event [OF assms this] vd show ?thesis
      by (cases "r \<in> set (wa_remotes entry)") (simp_all add: sub_event_step_def x Let_def entry_def [symmetric])
  qed
qed

lemma fire_sub_events_wf [wf_intros]: "rm_wf m \<Longrightarrow> rm_wf (rm_fire_sub_events now r m)"
  unfolding rm_fire_sub_events_def by (rule fold_invariant_set) (auto intro: sub_event_step_wf)

lemma fire_sub_events_slots [simp]: "rm_slots (rm_fire_sub_events now r m) = rm_slots m"
  unfolding rm_fire_sub_events_def
  by (rule fold_invariant_set [where P = "\<lambda>m'. rm_slots m' = rm_slots m"]) auto

lemma ack_event_wf [wf_intros]:
  assumes "rm_wf m" "map_of (rm_slots_event m) k = Some w"
  shows "rm_wf (ack_event k r w m)"
  using rm_wfD(5) [OF assms] rm_wf_event_remove [OF assms(1), of k]
    rm_wf_event [OF assms(1), of k "w\<lparr>wa_remotes := filter (\<lambda>r'. r' \<noteq> r) (wa_remotes w)\<rparr>"]
  by (simp add: ack_event_def wait_ok_def Let_def)

lemma ack_event_slots [simp]: "rm_slots (ack_event k r w m) = rm_slots m"
  by (simp add: ack_event_def Let_def)

lemma tick_events_get:
  assumes "wf_map ws"
  shows "wf_map (fst (tick_events now ws)) \<and> fst ` set (fst (tick_events now ws)) \<subseteq> fst ` set ws \<and>
    map_of (fst (tick_events now ws)) k = Option.bind (map_of ws k) (\<lambda>w. fst (tick_event now w))"
  using assms
proof (induction ws)
  case (Cons x ws)
  obtain k' w where x: "x = (k', w)" by (cases x)
  obtain w' out where w': "tick_event now w = (w', out)" by (cases "tick_event now w")
  obtain ws' outs where ws': "tick_events now ws = (ws', outs)" by (cases "tick_events now ws")
  have IH: "wf_map ws'" "fst ` set ws' \<subseteq> fst ` set ws" "map_of ws' k = Option.bind (map_of ws k) (\<lambda>w. fst (tick_event now w))"
    using Cons ws' by (simp_all add: x)
  have new: "k' \<notin> fst ` set ws" using Cons.prems by (simp add: x)
  then have "map_of ws k' = None" by (simp add: map_of_eq_None_iff)
  then show ?case using IH new by (cases w') (auto simp: x w' ws')
qed simp

lemma tick_events_out: "(r, e) \<in> set (snd (tick_events now ws)) \<longleftrightarrow> (\<exists>(k, w)\<in>set ws. (r, e) \<in> set (snd (tick_event now w)))"
proof (induction ws)
  case (Cons x ws)
  then show ?case by (cases x) (auto split: prod.splits)
qed simp

lemma rm_on_tick_slots [simp]: "rm_slots (rm_on_tick now m) = rm_slots m"
  by (simp add: rm_on_tick_def Let_def split: prod.splits)

lemma rm_on_tick_event:
  assumes "rm_wf m"
  shows "map_of (rm_slots_event (rm_on_tick now m)) k = Option.bind (map_of (rm_slots_event m) k) (\<lambda>w. fst (tick_event now w))"
  using tick_events_get [OF rm_wfD(2) [OF assms], of now k] by (simp add: rm_on_tick_def Let_def split_beta)

lemma tick_event_ok: "wait_ok k w \<Longrightarrow> fst (tick_event now w) = Some w' \<Longrightarrow> wait_ok k w'"
  by (auto simp: tick_event_def wait_ok_def split: if_splits)

lemma rm_on_tick_wf [wf_intros]:
  assumes "rm_wf m"
  shows "rm_wf (rm_on_tick now m)"
proof -
  have "wait_ok k w" if "map_of (rm_slots_event (rm_on_tick now m)) k = Some w" for k w
    using that rm_wfD(5) [OF assms] tick_event_ok unfolding rm_on_tick_event [OF assms] by (fastforce simp: bind_eq_Some_conv)
  moreover have "wf_map (rm_slots_event (rm_on_tick now m))"
    using tick_events_get [OF rm_wfD(2) [OF assms], of now] by (simp add: rm_on_tick_def Let_def split_beta)
  moreover have "wf_map (rm_subs (rm_on_tick now m))"
    using rm_wfD(3) [OF assms] by (simp add: rm_on_tick_def Let_def split_beta wf_hm_filter)
  ultimately show ?thesis using rm_wfD(1,4) [OF assms] by (simp add: rm_wf_def)
qed

subsection \<open>A map is a family of versioned registers\<close>

text \<open>
  The abstract contents of a map: the version and data under a sub-key and a source. The reference definition
  \<open>reg_step\<close> is a register that its own source alone writes and that refuses older versions.
\<close>

definition rm_view :: "remote_map \<Rightarrow> key \<times> node_session \<Rightarrow> (version \<times> bytes) option" where
  "rm_view m k = Option.bind (map_of (rm_slots m) k) srv_slot_dump"

fun reg_step :: "client_map_command \<Rightarrow> (version \<times> bytes) option \<Rightarrow> (version \<times> bytes) option" where
  "reg_step (CSet _ v d) r = (case r of Some (v0, d0) \<Rightarrow> if v0 \<le> v then Some (v, d) else r | None \<Rightarrow> Some (v, d))"
| "reg_step (CDel _ v) r = (case r of Some (v0, d0) \<Rightarrow> if v0 \<le> v then None else r | None \<Rightarrow> None)"
| "reg_step _ r = r"

fun cmd_key :: "client_map_command \<Rightarrow> key option" where
  "cmd_key (CSet k _ _) = Some k"
| "cmd_key (CDel k _) = Some k"
| "cmd_key _ = None"

lemma rm_view_cong: "rm_slots m' = rm_slots m \<Longrightarrow> rm_view m' = rm_view m"
  by (rule ext) (simp add: rm_view_def)

lemma rm_view_simps [simp]:
  "rm_view (rm_new sess) = (\<lambda>_. None)"
  "rm_view (m\<lparr>rm_queue := q\<rparr>) = rm_view m"
  "rm_view (m\<lparr>rm_subs := subs\<rparr>) = rm_view m"
  "rm_view (m\<lparr>rm_slots := hm_insert k s slots\<rparr>) = (rm_view (m\<lparr>rm_slots := slots\<rparr>))(k := srv_slot_dump s)"
  "rm_view (m\<lparr>rm_slots := hm_remove k slots\<rparr>) = (rm_view (m\<lparr>rm_slots := slots\<rparr>))(k := None)"
  "rm_view (m\<lparr>rm_slots := rm_slots m\<rparr>) = rm_view m"
  by (rule ext, simp add: rm_view_def rm_new_def)+

lemma rm_on_client_spec:
  assumes "rm_wf m"
  shows "\<exists>m' e. rm_on_client now r cmd m = Some (m', e) \<and> rm_wf m' \<and>
    rm_view m' = (\<lambda>(k, s). if s = r \<and> cmd_key cmd = Some k then reg_step cmd (rm_view m (k, s)) else rm_view m (k, s))"
proof (cases cmd)
  case (CSet k v d)
  show ?thesis
  proof (cases "map_of (rm_slots m) (k, r)")
    case None
    then show ?thesis using None assms
      by (auto simp: CSet hm_ensure_def fun_eq_iff rm_view_def intro!: fire_event_wf rm_wf_slot)
  next
    case (Some s0)
    then obtain d0 v0 t0 where "s0 = SrvSet d0 v0 t0" using rm_wfD(4) [OF assms Some] by (cases s0) auto
    then show ?thesis using Some assms
      by (auto simp: CSet hm_ensure_def fun_eq_iff rm_view_def intro!: fire_event_wf rm_wf_slot)
  qed
next
  case (CDel k v)
  show ?thesis
  proof (cases "map_of (rm_slots m) (k, r)")
    case None
    then show ?thesis using assms by (auto simp: CDel fun_eq_iff rm_view_def)
  next
    case (Some s0)
    then obtain d0 v0 t0 where "s0 = SrvSet d0 v0 t0" using rm_wfD(4) [OF assms Some] by (cases s0) auto
    then show ?thesis using Some assms
      by (auto simp: CDel fun_eq_iff rm_view_def intro!: fire_event_wf rm_wf_slot rm_wf_slot_remove)
  qed
next
  case (CSub i l)
  then show ?thesis using assms rm_wfD(3) [OF assms]
    by (auto simp: Let_def fun_eq_iff rm_view_def intro!: fire_sub_events_wf rm_wf_subs wf_hm_insert)
next
  case (CUnsub i)
  then show ?thesis using assms rm_wfD(3) [OF assms]
    by (auto simp: fun_eq_iff rm_view_def intro!: rm_wf_subs wf_hm_remove split: option.split)
next
  case (COnSetAck k s v)
  then show ?thesis using assms
    by (auto simp: fun_eq_iff rm_view_def intro!: ack_event_wf split: option.split server_map_event.split)
next
  case (COnDelAck k s v)
  then show ?thesis using assms
    by (auto simp: fun_eq_iff rm_view_def intro!: ack_event_wf split: option.split server_map_event.split)
qed

lemma rm_dump_view: "rm_wf m \<Longrightarrow> (k, s, v, d) \<in> set (rm_dump m) \<longleftrightarrow> rm_view m (k, s) = Some (v, d)"
  unfolding rm_dump_def in_set_map_filter rm_view_def bind_eq_Some_conv using hm_in_set [OF rm_wfD(1)]
  by (fastforce split: prod.splits)

lemma dump_rows:
  "map (\<lambda>(k, s, _). (k, s)) (List.map_filter (\<lambda>((key, sess), slot). map_option (\<lambda>(v, d). (key, sess, v, d)) (srv_slot_dump slot)) sls)
   = map fst (filter (\<lambda>(_, sl). srv_slot_dump sl \<noteq> None) sls)"
  by (induction sls) (auto simp: List.map_filter_def)

lemma rm_dump_distinct:
  assumes "rm_wf m"
  shows "distinct (map (\<lambda>(k, s, _). (k, s)) (rm_dump m))"
proof -
  have "map (\<lambda>(k, s, _). (k, s)) (rm_dump m) = map fst (filter (\<lambda>(_, sl). srv_slot_dump sl \<noteq> None) (rm_slots m))"
    unfolding rm_dump_def by (rule dump_rows)
  then show ?thesis using rm_wfD(1) [OF assms] by (simp add: distinct_map_filter)
qed

text \<open>The two outcomes of a \<^verbatim>\<open>Set\<close>.\<close>

lemma rm_on_client_CSet:
  assumes "rm_on_client now r (CSet k v d) m = Some (m', e)"
  obtains slots where "e = None" "m' = m\<lparr>rm_slots := slots\<rparr>"
  | slots where "e = Some (SetOk k v)" "m' = rm_fire_event now k r (OnSet k r v d) (m\<lparr>rm_slots := slots\<rparr>)"
proof -
  obtain sl where "map_of (hm_ensure True (k, r) SrvUnspecific (rm_slots m)) (k, r) = Some sl"
    using assms by (auto simp: bind_eq_Some_conv Let_def)
  then show ?thesis using assms that by (cases "srv_slot_set sl now v d") (auto simp: Let_def split: if_splits)
qed

lemma rm_on_client_silent:
  assumes "rm_on_client now r cmd m = Some (m', None)"
  shows "rm_queue m' = rm_queue m"
proof (cases cmd)
  case (CSet k v d)
  show ?thesis by (rule rm_on_client_CSet [OF assms [unfolded CSet]]) simp_all
qed (use assms in \<open>auto simp: Let_def ack_event_def split: prod.splits option.splits if_splits server_map_event.splits\<close>)

subsection \<open>The storage\<close>

lemma rm_drain_eq: "rm_drain key m = (m\<lparr>rm_queue := []\<rparr>, map (\<lambda>(s, e). (s, SMapEvent key e)) (rm_queue m))"
proof (induction "rm_queue m" arbitrary: m)
  case Nil
  then show ?case by (subst rm_drain.simps) (simp add: rm_pop_action_def)
next
  case (Cons x q)
  have "rm_drain key (m\<lparr>rm_queue := q\<rparr>) = (m\<lparr>rm_queue := []\<rparr>, map (\<lambda>(s, e). (s, SMapEvent key e)) q)"
    using Cons(1) [of "m\<lparr>rm_queue := q\<rparr>"] by simp
  with Cons(2) [symmetric] show ?case by (subst rm_drain.simps) (simp add: rm_pop_action_def split: prod.split)
qed

definition rs_wf :: "remote_storage \<Rightarrow> bool" where
  "rs_wf s \<longleftrightarrow> wf_map (rs_maps s) \<and> (\<forall>mp m. map_of (rs_maps s) mp = Some m \<longrightarrow> rm_wf m \<and> rm_queue m = [])"

definition rs_view :: "remote_storage \<Rightarrow> map_id \<Rightarrow> key \<times> node_session \<Rightarrow> (version \<times> bytes) option" where
  "rs_view s mp k = (case map_of (rs_maps s) mp of Some m \<Rightarrow> rm_view m k | None \<Rightarrow> None)"

datatype srv_input = SrvTick time | SrvCmd time node_session client_command

fun rs_step :: "srv_input \<Rightarrow> remote_storage \<Rightarrow> remote_storage run" where
  "rs_step (SrvTick now) s = Some (rs_on_tick now s)"
| "rs_step (SrvCmd now remote cmd) s = rs_on_remote now remote cmd s"

text \<open>What one input does to one register.\<close>

fun input_write :: "map_id \<Rightarrow> key \<times> node_session \<Rightarrow> srv_input \<Rightarrow> client_map_command option" where
  "input_write mp (k, src) (SrvCmd now remote (CMapCmd mp' cmd)) =
     (if mp' = mp \<and> remote = src \<and> cmd_key cmd = Some k then Some cmd else None)"
| "input_write _ _ _ = None"

definition writes_of :: "map_id \<Rightarrow> key \<times> node_session \<Rightarrow> srv_input list \<Rightarrow> client_map_command list" where
  "writes_of mp k = List.map_filter (input_write mp k)"

lemma rs_tick_maps_get:
  assumes "wf_map ms"
  shows "wf_map (fst (rs_tick_maps now ms)) \<and> fst ` set (fst (rs_tick_maps now ms)) \<subseteq> fst ` set ms \<and>
    map_of (fst (rs_tick_maps now ms)) k =
      Option.bind (map_of ms k) (\<lambda>m. let m' = (rm_on_tick now m)\<lparr>rm_queue := []\<rparr> in if rm_should_clean m' then None else Some m')"
  using assms
proof (induction ms)
  case (Cons x ms)
  obtain k' m where x: "x = (k', m)" by (cases x)
  obtain ms' outs where ms': "rs_tick_maps now ms = (ms', outs)" by (cases "rs_tick_maps now ms")
  have IH: "wf_map ms'" "fst ` set ms' \<subseteq> fst ` set ms"
    "map_of ms' k = Option.bind (map_of ms k) (\<lambda>m. let m' = (rm_on_tick now m)\<lparr>rm_queue := []\<rparr> in if rm_should_clean m' then None else Some m')"
    using Cons ms' by (simp_all add: x)
  have new: "k' \<notin> fst ` set ms" using Cons.prems by (simp add: x)
  then have "map_of ms k' = None" by (simp add: map_of_eq_None_iff)
  then show ?case using IH new by (auto simp: x ms' rm_drain_eq Let_def)
qed simp

lemma rs_on_tick_get:
  assumes "rs_wf s"
  shows "map_of (rs_maps (rs_on_tick now s)) k =
    Option.bind (map_of (rs_maps s) k) (\<lambda>m. let m' = (rm_on_tick now m)\<lparr>rm_queue := []\<rparr> in if rm_should_clean m' then None else Some m')"
  using rs_tick_maps_get [of "rs_maps s" now k] assms by (simp add: rs_wf_def rs_on_tick_def split_beta Let_def)

lemma clean_view: "rm_should_clean m \<Longrightarrow> rm_view m k = None"
  by (simp add: rm_should_clean_def rm_view_def)

lemma rs_on_tick_spec:
  assumes "rs_wf s"
  shows "rs_wf (rs_on_tick now s) \<and> rs_view (rs_on_tick now s) = rs_view s"
proof
  have "wf_map (rs_maps (rs_on_tick now s))"
    using rs_tick_maps_get [of "rs_maps s" now] assms by (simp add: rs_wf_def rs_on_tick_def split_beta Let_def)
  then show "rs_wf (rs_on_tick now s)"
    using assms rs_on_tick_get [OF assms]
    by (auto simp: rs_wf_def bind_eq_Some_conv Let_def rm_on_tick_wf split: if_splits)
  have "rs_view (rs_on_tick now s) mp k = rs_view s mp k" for mp k
  proof (cases "map_of (rs_maps s) mp")
    case (Some m)
    have "rm_view ((rm_on_tick now m)\<lparr>rm_queue := []\<rparr>) = rm_view m" by (rule rm_view_cong) simp
    then show ?thesis
      using Some clean_view [of "(rm_on_tick now m)\<lparr>rm_queue := []\<rparr>" k] by (auto simp: rs_view_def rs_on_tick_get [OF assms] Let_def)
  qed (simp add: rs_view_def rs_on_tick_get [OF assms])
  then show "rs_view (rs_on_tick now s) = rs_view s" by (intro ext)
qed

lemma rs_map_cmd_spec:
  assumes "rs_wf s"
  shows "\<exists>s'. rs_on_remote now r (CMapCmd mp cmd) s = Some s' \<and> rs_wf s' \<and>
    rs_view s' = (\<lambda>mp' (k, src). if mp' = mp \<and> src = r \<and> cmd_key cmd = Some k then reg_step cmd (rs_view s mp' (k, src))
                                else rs_view s mp' (k, src))"
proof -
  let ?maps = "hm_ensure (cmd_is_creator cmd) mp (rm_new (rs_session s)) (rs_maps s)"
  have wf: "wf_map ?maps" using assms by (simp add: rs_wf_def wf_hm_ensure)
  have get: "map_of ?maps k = Some m \<Longrightarrow> rm_wf m \<and> rm_queue m = []" for k m
    using assms rm_wf_new [of "rs_session s"] by (auto simp: rs_wf_def hm_get_ensure rm_new_def split: if_splits)
  have view: "rs_view (s\<lparr>rs_maps := ?maps\<rparr>) = rs_view s"
    by (intro ext) (auto simp: rs_view_def hm_get_ensure split: option.splits)
  show ?thesis
  proof (cases "map_of ?maps mp")
    case None
    then have "\<not> cmd_is_creator cmd" "map_of (rs_maps s) mp = None" by (auto simp: hm_get_ensure split: if_splits)
    then show ?thesis using None assms by (cases cmd) (auto simp: fun_eq_iff rs_view_def hm_get_ensure)
  next
    case (Some m)
    obtain m1 e where m1: "rm_on_client now r cmd m = Some (m1, e)" "rm_wf m1"
      "rm_view m1 = (\<lambda>(k, src). if src = r \<and> cmd_key cmd = Some k then reg_step cmd (rm_view m (k, src)) else rm_view m (k, src))"
      using rm_on_client_spec get [OF Some] by blast
    have upd: "rs_wf (s\<lparr>rs_maps := hm_insert mp m2 ?maps, rs_queue := q\<rparr>) \<and> rs_view (s\<lparr>rs_maps := hm_insert mp m2 ?maps, rs_queue := q\<rparr>) =
        (\<lambda>mp' (k, src). if mp' = mp \<and> src = r \<and> cmd_key cmd = Some k then reg_step cmd (rs_view s mp' (k, src)) else rs_view s mp' (k, src))"
      if "rm_wf m2" "rm_queue m2 = []" "rm_view m2 = rm_view m1" for m2 q
      using that wf get Some m1(3) unfolding view [symmetric]
      by (auto simp: rs_wf_def wf_hm_insert rs_view_def fun_eq_iff)
    show ?thesis
    proof (cases e)
      case None
      with m1(1) have "rm_queue m1 = []" using rm_on_client_silent get [OF Some] by simp
      from upd [OF m1(2) this refl, of "rs_queue s"] show ?thesis using Some m1(1) None by simp
    next
      case (Some ev)
      have "rm_wf (m1\<lparr>rm_queue := []\<rparr>)" "rm_queue (m1\<lparr>rm_queue := []\<rparr>) = []" "rm_view (m1\<lparr>rm_queue := []\<rparr>) = rm_view m1"
        using m1(2) by simp_all
      from upd [OF this] show ?thesis using \<open>map_of ?maps mp = Some m\<close> m1(1) Some by (simp add: rm_drain_eq)
    qed
  qed
qed

lemma rs_step_spec:
  assumes "rs_wf s"
  shows "\<exists>s'. rs_step i s = Some s' \<and> rs_wf s' \<and>
    (\<forall>mp k. rs_view s' mp k = (case input_write mp k i of Some cmd \<Rightarrow> reg_step cmd (rs_view s mp k) | None \<Rightarrow> rs_view s mp k))"
proof (cases i)
  case (SrvTick now)
  then show ?thesis using rs_on_tick_spec [OF assms] by simp
next
  case (SrvCmd now r cmd)
  show ?thesis
  proof (cases cmd)
    case (CMapCmd mp c)
    show ?thesis using rs_map_cmd_spec [OF assms, of now r mp c] by (auto simp: SrvCmd CMapCmd simp del: rs_on_remote.simps)
  next
    case (CMapGet mp q)
    then show ?thesis using assms by (auto simp: SrvCmd rs_wf_def rs_view_def)
  qed
qed

lemma rs_wf_new [wf_intros]: "rs_wf (rs_new sess)"
  by (simp add: rs_wf_def rs_new_def)

lemma rs_run_spec:
  assumes "rs_wf s"
  shows "\<exists>s'. for_run rs_step ins s = Some s' \<and> rs_wf s' \<and>
    (\<forall>mp k. rs_view s' mp k = fold reg_step (writes_of mp k ins) (rs_view s mp k))"
  using assms
proof (induction ins arbitrary: s)
  case Nil
  then show ?case by (simp add: writes_of_def List.map_filter_def)
next
  case (Cons i ins)
  obtain s1 where s1: "rs_step i s = Some s1" "rs_wf s1"
    "\<forall>mp k. rs_view s1 mp k = (case input_write mp k i of Some cmd \<Rightarrow> reg_step cmd (rs_view s mp k) | None \<Rightarrow> rs_view s mp k)"
    using rs_step_spec [OF Cons.prems] by blast
  obtain s2 where "for_run rs_step ins s1 = Some s2" "rs_wf s2" "\<forall>mp k. rs_view s2 mp k = fold reg_step (writes_of mp k ins) (rs_view s1 mp k)"
    using Cons.IH [OF s1(2)] by blast
  with s1 show ?case by (auto simp: writes_of_def List.map_filter_def split: option.split)
qed

text \<open>
  C17. The relay is a family of versioned registers. Whatever ticks and commands of whatever clients it processed,
  it never panics, the value of a sub-key under a source is what the source's own \<^verbatim>\<open>Set\<close> and \<^verbatim>\<open>Del\<close> commands
  for it leave in a register that refuses older versions, and a \<^verbatim>\<open>MapGet\<close> is answered with exactly these values, one
  row per register.
\<close>

theorem dht_server_registers:
  "\<exists>s. for_run rs_step ins (rs_new sess) = Some s \<and>
     (\<forall>mp k. rs_view s mp k = fold reg_step (writes_of mp k ins) None) \<and>
     (\<forall>now r mp req. \<exists>rows. rs_on_remote now r (CMapGet mp req) s = Some (s\<lparr>rs_queue := rs_queue s @ [(r, SMapGetRes mp req rows)]\<rparr>) \<and>
        distinct (map (\<lambda>(k, src, _). (k, src)) rows) \<and>
        set rows = {(k, src, v, d) | k src v d. fold reg_step (writes_of mp (k, src) ins) None = Some (v, d)})"
proof -
  obtain s where s: "for_run rs_step ins (rs_new sess) = Some s" "rs_wf s"
    "\<forall>mp k. rs_view s mp k = fold reg_step (writes_of mp k ins) None"
    using rs_run_spec [OF rs_wf_new, of ins sess] by (auto simp: rs_view_def rs_new_def)
  have "\<exists>rows. rs_on_remote now r (CMapGet mp req) s = Some (s\<lparr>rs_queue := rs_queue s @ [(r, SMapGetRes mp req rows)]\<rparr>) \<and>
      distinct (map (\<lambda>(k, src, _). (k, src)) rows) \<and> set rows = {(k, src, v, d) | k src v d. rs_view s mp (k, src) = Some (v, d)}"
    for now r mp req
  proof (cases "map_of (rs_maps s) mp")
    case (Some m)
    then have "rm_wf m" using s(2) by (simp add: rs_wf_def)
    then show ?thesis using Some rm_dump_view rm_dump_distinct by (auto simp: rs_view_def)
  qed (simp add: rs_view_def)
  with s(1,3) show ?thesis by auto
qed

subsection \<open>Events are resent until acknowledged\<close>

datatype map_input = MapTick time | MapCmd time node_session client_map_command

fun rm_step :: "map_input \<Rightarrow> remote_map \<Rightarrow> remote_map run" where
  "rm_step (MapTick now) m = Some (rm_on_tick now m)"
| "rm_step (MapCmd now remote cmd) m = map_option fst (rm_on_client now remote cmd m)"

text \<open>
  The event filed under \<open>k\<close> still waits for \<open>r\<close>, and was last sent no later than \<open>T\<close>. An input lets go of it when it
  is a newer write of the source, an acknowledgement of \<open>r\<close>, or a tick after the timeout.
\<close>

definition awaits :: "time \<Rightarrow> time \<Rightarrow> key \<times> node_session \<Rightarrow> node_session \<Rightarrow> server_map_event \<Rightarrow> remote_map \<Rightarrow> bool" where
  "awaits T created k r ev m \<longleftrightarrow>
     (\<exists>w. map_of (rm_slots_event m) k = Some w \<and> wa_event w = ev \<and> r \<in> set (wa_remotes w) \<and>
          wa_created_at w = created \<and> wa_last_send_ms w \<le> T)"

fun lets_go :: "time \<Rightarrow> time \<Rightarrow> key \<times> node_session \<Rightarrow> node_session \<Rightarrow> map_input \<Rightarrow> bool" where
  "lets_go T created k r (MapTick now) \<longleftrightarrow> created + SRV_TIMEOUT_MS \<le> now \<or> T < now"
| "lets_go T created k r (MapCmd now remote (CSet key _ _)) \<longleftrightarrow> (key, remote) = k"
| "lets_go T created k r (MapCmd now remote (CDel key _)) \<longleftrightarrow> (key, remote) = k"
| "lets_go T created k r (MapCmd now remote (COnSetAck key s _)) \<longleftrightarrow> (key, s) = k \<and> remote = r"
| "lets_go T created k r (MapCmd now remote (COnDelAck key s _)) \<longleftrightarrow> (key, s) = k \<and> remote = r"
| "lets_go T created k r _ \<longleftrightarrow> False"

lemma awaits_other: "map_of (rm_slots_event m') k = map_of (rm_slots_event m) k \<Longrightarrow> awaits T c k r ev m' = awaits T c k r ev m"
  by (simp add: awaits_def)

lemma fire_event_other: "(key, s) \<noteq> k \<Longrightarrow> map_of (rm_slots_event (rm_fire_event now key s e m)) k = map_of (rm_slots_event m) k"
  by (auto simp: rm_fire_event_def Let_def)

lemma sub_event_step_awaits:
  assumes "awaits T c k r ev m"
  shows "awaits T c k r ev (sub_event_step now r' x m)"
proof -
  obtain k1 s1 sl where x: "x = ((k1, s1), sl)" by (cases x) auto
  obtain w where w: "map_of (rm_slots_event m) k = Some w" "wa_event w = ev" "r \<in> set (wa_remotes w)"
    "wa_created_at w = c" "wa_last_send_ms w \<le> T"
    using assms by (auto simp: awaits_def)
  show ?thesis
  proof (cases "s1 = r' \<or> srv_slot_dump sl = None")
    case True
    then show ?thesis using assms by (auto simp: sub_event_step_def x split: option.splits)
  next
    case False
    then obtain v d where "s1 \<noteq> r'" "srv_slot_dump sl = Some (v, d)" by auto
    then show ?thesis using w by (cases "(k1, s1) = k") (auto simp: sub_event_step_def x awaits_def Let_def)
  qed
qed

lemma fire_sub_events_awaits: "awaits T c k r ev m \<Longrightarrow> awaits T c k r ev (rm_fire_sub_events now r' m)"
  unfolding rm_fire_sub_events_def by (rule fold_invariant_set) (auto intro: sub_event_step_awaits)

lemma ack_event_awaits:
  assumes "awaits T c k r ev m" "map_of (rm_slots_event m) k' = Some w" "k' = k \<Longrightarrow> r' \<noteq> r"
  shows "awaits T c k r ev (ack_event k' r' w m)"
proof (cases "k' = k")
  case True
  then have "r \<in> set (filter (\<lambda>x. x \<noteq> r') (wa_remotes w))" using assms by (auto simp: awaits_def)
  then have "filter (\<lambda>x. x \<noteq> r') (wa_remotes w) \<noteq> []" by force
  then show ?thesis using assms True by (auto simp: awaits_def ack_event_def Let_def)
qed (use assms in \<open>simp add: awaits_def ack_event_def Let_def\<close>)

lemma awaits_tick:
  assumes "rm_wf m" "awaits T c k r ev m" "now < c + SRV_TIMEOUT_MS"
  shows "awaits (max T now) c k r ev (rm_on_tick now m)"
  using assms(2,3) by (auto simp: awaits_def rm_on_tick_event [OF assms(1)] tick_event_def)

lemma awaits_client:
  assumes "awaits T c k r ev m" "rm_on_client now r' cmd m = Some (m', e)" "\<not> lets_go T c k r (MapCmd now r' cmd)"
  shows "awaits T c k r ev m'"
proof (cases cmd)
  case (CSet key v d)
  then have other: "(key, r') \<noteq> k" using assms(3) by simp
  have "map_of (rm_slots_event m') k = map_of (rm_slots_event m) k"
    by (rule rm_on_client_CSet [OF assms(2) [unfolded CSet]]) (simp_all add: fire_event_other [OF other])
  then show ?thesis using assms(1) awaits_other [of m' k m] by blast
next
  case (CDel key v)
  have "map_of (rm_slots_event m') k = map_of (rm_slots_event m) k"
    using assms(2,3) CDel by (auto simp: fire_event_other split: option.splits prod.splits)
  then show ?thesis using assms(1) awaits_other [of m' k m] by blast
next
  case (CSub i l)
  have "awaits T c k r ev (m\<lparr>rm_subs := q\<rparr>)" for q using assms(1) by (simp add: awaits_def)
  then show ?thesis using assms(2) CSub by (auto simp: Let_def intro!: fire_sub_events_awaits)
next
  case (CUnsub i)
  have "awaits T c k r ev (m\<lparr>rm_subs := q\<rparr>)" for q using assms(1) by (simp add: awaits_def)
  then show ?thesis using assms(1,2) CUnsub by (auto split: option.splits if_splits)
next
  case (COnSetAck key s v)
  then show ?thesis using assms by (auto intro!: ack_event_awaits split: option.splits if_splits server_map_event.splits)
next
  case (COnDelAck key s v)
  then show ?thesis using assms by (auto intro!: ack_event_awaits split: option.splits if_splits server_map_event.splits)
qed

lemma rm_step_total: "rm_wf m \<Longrightarrow> \<exists>m'. rm_step i m = Some m' \<and> rm_wf m'"
  using rm_on_client_spec by (cases i) (fastforce intro: rm_on_tick_wf)+

lemma awaits_run:
  assumes "rm_wf m" "awaits T c k r ev m" "\<forall>i\<in>set ins. \<not> lets_go T c k r i"
  shows "\<exists>m'. for_run rm_step ins m = Some m' \<and> rm_wf m' \<and> awaits T c k r ev m'"
  using assms
proof (induction ins arbitrary: m)
  case (Cons i ins)
  obtain m1 where m1: "rm_step i m = Some m1" "rm_wf m1" using rm_step_total [OF Cons.prems(1)] by blast
  have "awaits T c k r ev m1"
  proof (cases i)
    case (MapTick now)
    then have "max T now = T" "now < c + SRV_TIMEOUT_MS" using Cons.prems(3) by auto
    with awaits_tick [OF Cons.prems(1,2), of now] show ?thesis using m1(1) MapTick by simp
  next
    case (MapCmd now r' cmd)
    with m1(1) obtain e where "rm_on_client now r' cmd m = Some (m1, e)" by auto
    from awaits_client [OF Cons.prems(2) this] show ?thesis using MapCmd Cons.prems(3) by simp
  qed
  with Cons.IH [OF m1(2)] Cons.prems(3) m1(1) show ?case by simp
qed simp

lemma awaits_resent:
  assumes "rm_wf m" "awaits T c k r ev m" "T + SRV_RESEND_MS \<le> now" "now < c + SRV_TIMEOUT_MS"
  shows "\<exists>out. rm_queue (rm_on_tick now m) = rm_queue m @ out \<and> (r, ev) \<in> set out"
proof -
  obtain w where w: "map_of (rm_slots_event m) k = Some w" "wa_event w = ev" "r \<in> set (wa_remotes w)"
    "wa_created_at w = c" "wa_last_send_ms w \<le> T"
    using assms(2) by (auto simp: awaits_def)
  have "(r, ev) \<in> set (snd (tick_event now w))" using w(2-) assms(3,4) by (auto simp: tick_event_def)
  then have "(r, ev) \<in> set (snd (tick_events now (rm_slots_event m)))"
    unfolding tick_events_out using map_of_SomeD [OF w(1)] by auto
  then show ?thesis by (simp add: rm_on_tick_def Let_def split_beta)
qed

lemma fire_event_awaits:
  assumes "map_of (rm_subs m) r = Some sub" "r \<noteq> src"
  shows "awaits now now (k, src) r ev (rm_fire_event now k src ev m) \<and> (r, ev) \<in> set (rm_queue (rm_fire_event now k src ev m))"
proof -
  have "r \<in> set (filter (\<lambda>x. x \<noteq> src) (map fst (rm_subs m)))" "rm_subs m \<noteq> []"
    using assms map_of_SomeD by force+
  then show ?thesis by (auto simp: rm_fire_event_def awaits_def Let_def)
qed

text \<open>
  C18. A subscriber keeps being told. When the relay accepts a \<^verbatim>\<open>Set\<close>, the event goes out at once to every
  other subscriber \<open>r\<close>; and after any further inputs among which there is no newer write of the source, no
  acknowledgement of \<open>r\<close> and no tick past the time \<open>T\<close>, a tick at least 200 ms after \<open>T\<close> sends it
  to \<open>r\<close> again, as long as the event is younger than ten seconds.
\<close>

theorem dht_event_resent_until_acked:
  assumes "rm_wf m" "map_of (rm_subs m) r = Some sub" "r \<noteq> src"
    and "rm_on_client t src (CSet k v d) m = Some (m1, Some (SetOk k v))"
    and "t \<le> T" "\<forall>i\<in>set ins. \<not> lets_go T t (k, src) r i"
    and "T + SRV_RESEND_MS \<le> now" "now < t + SRV_TIMEOUT_MS"
  shows "(r, OnSet k src v d) \<in> set (rm_queue m1) \<and>
    (\<exists>m2 out. for_run rm_step ins m1 = Some m2 \<and>
       rm_queue (rm_on_tick now m2) = rm_queue m2 @ out \<and> (r, OnSet k src v d) \<in> set out)"
proof -
  obtain m0 where m0: "m1 = rm_fire_event t k src (OnSet k src v d) m0" "rm_subs m0 = rm_subs m"
    by (rule rm_on_client_CSet [OF assms(4)]) auto
  have "awaits t t (k, src) r (OnSet k src v d) m1" and queued: "(r, OnSet k src v d) \<in> set (rm_queue m1)"
    using fire_event_awaits [of m0 r sub src] m0 assms(2,3) by auto
  then have "awaits T t (k, src) r (OnSet k src v d) m1" using assms(5) by (auto simp: awaits_def)
  moreover have "rm_wf m1" using rm_on_client_spec [OF assms(1), of t src "CSet k v d"] assms(4) by auto
  ultimately show ?thesis using awaits_run [OF _ _ assms(6)] awaits_resent assms(7,8) queued by meson
qed

theorem dht_event_resent_until_acked_witness:
  "\<exists>m1 m2 out. rm_on_client 50 (1, 7) (CSet 3 50 [9]) ((rm_new (2, 0))\<lparr>rm_subs := [((5, 6), \<lparr>ss_id = 0, ss_last_ts = 0\<rparr>)]\<rparr>)
       = Some (m1, Some (SetOk 3 50)) \<and>
     for_run rm_step [MapCmd 60 (8, 8) (CSub 60 None), MapTick 100] m1 = Some m2 \<and>
     rm_queue (rm_on_tick 300 m2) = rm_queue m2 @ out \<and> ((5, 6), OnSet 3 (1, 7) 50 [9]) \<in> set out"
proof -
  let ?m = "(rm_new (2, 0))\<lparr>rm_subs := [((5, 6), \<lparr>ss_id = 0, ss_last_ts = 0\<rparr>)]\<rparr>"
  have "rm_wf ?m" by (rule rm_wf_subs [OF rm_wf_new]) simp
  moreover obtain m1 where "rm_on_client 50 (1, 7) (CSet 3 50 [9]) ?m = Some (m1, Some (SetOk 3 50))"
    by (simp add: rm_new_def hm_ensure_def)
  ultimately show ?thesis
    using dht_event_resent_until_acked [of ?m "(5, 6)" "\<lparr>ss_id = 0, ss_last_ts = 0\<rparr>" "(1, 7)" 50 3 50 "[9]" m1 100
        "[MapCmd 60 (8, 8) (CSub 60 None), MapTick 100]" 300]
    by (auto simp: SRV_RESEND_MS_def SRV_TIMEOUT_MS_def)
qed

text \<open>
  A write that finds no subscriber leaves the waiting event of the previous write in place, and a
  subscriber that arrives meanwhile is filed under that old event: what the relay resends to it is the outdated
  value, although the value it sent on subscription, and the stored one, are current. Here source 1 writes version 10 and then version 20
  while subscriber 5 comes, goes and is replaced by subscriber 6, which is resent version 10.
\<close>

theorem dht_resend_of_outdated_event:
  "\<exists>m. for_run rm_step
      [MapCmd 0 (5, 0) (CSub 0 None), MapCmd 10 (1, 0) (CSet 3 10 [1]), MapCmd 11 (5, 0) (CUnsub 0),
       MapCmd 20 (1, 0) (CSet 3 20 [2]), MapCmd 30 (6, 0) (CSub 30 None)] (rm_new (2, 0)) = Some m \<and>
     rm_view m (3, (1, 0)) = Some (20, [2]) \<and> ((6, 0), OnSet 3 (1, 0) 20 [2]) \<in> set (rm_queue m) \<and>
     rm_queue (rm_on_tick 300 m) = rm_queue m @ [((5, 0), OnSet 3 (1, 0) 10 [1]), ((6, 0), OnSet 3 (1, 0) 10 [1])]"
  by (simp add: rm_new_def hm_ensure_def rm_fire_event_def rm_fire_sub_events_def sub_event_step_def rm_view_def
      rm_on_tick_def tick_event_def SRV_RESEND_MS_def SRV_TIMEOUT_MS_def Let_def)

end
