(* ===== verification/Dht_Kv.thy ===== *)
theory Dht_Kv
  imports Dht_Client Dht_Server
begin

text \<open>
  The key-value feature as a whole (\<^verbatim>\<open>dht_kv/internal.rs\<close> and \<^verbatim>\<open>dht_kv/mod.rs\<close>): every node is at once a client of the
  maps it uses and the relay of the maps whose route key it owns. \<^verbatim>\<open>bincode\<close> is a parameter (\<open>ser\<close>, \<open>de\<close>).
\<close>

datatype 'u internal_output = InLocal "'u feature_actor" kv_event | InRemote route_rule remote_command

record 'u dht_internal =
  di_session :: node_session
  di_local :: "'u local_storage"
  di_remote :: remote_storage

definition di_new :: "node_session \<Rightarrow> 'u dht_internal" where
  "di_new sess = \<lparr>di_session = sess, di_local = ls_new sess, di_remote = rs_new sess\<rparr>"

definition di_on_tick :: "time \<Rightarrow> 'u dht_internal \<Rightarrow> 'u dht_internal" where
  "di_on_tick now s = s\<lparr>di_local := ls_on_tick now (di_local s), di_remote := rs_on_tick now (di_remote s)\<rparr>"

definition di_on_local :: "time \<Rightarrow> 'u feature_actor \<Rightarrow> kv_control \<Rightarrow> 'u dht_internal \<Rightarrow> 'u dht_internal run" where
  "di_on_local now actor control s = do { l \<leftarrow> ls_on_local now actor control (di_local s); Some (s\<lparr>di_local := l\<rparr>) }"

definition di_on_remote :: "time \<Rightarrow> remote_command \<Rightarrow> 'u dht_internal \<Rightarrow> 'u dht_internal run" where
  "di_on_remote now cmd s =
     (case cmd of
        RClient remote c \<Rightarrow> do { r \<leftarrow> rs_on_remote now remote c (di_remote s); Some (s\<lparr>di_remote := r\<rparr>) }
      | RServer remote c \<Rightarrow> do { l \<leftarrow> ls_on_server now remote c (di_local s); Some (s\<lparr>di_local := l\<rparr>) })"

definition di_pop_action :: "'u dht_internal \<Rightarrow> 'u internal_output option \<times> 'u dht_internal" where
  "di_pop_action s =
     (case ls_pop_action (di_local s) of
        (Some (LsRemote rule cmd), l) \<Rightarrow> (Some (InRemote rule (RClient (di_session s) cmd)), s\<lparr>di_local := l\<rparr>)
      | (Some (LsLocal actor event), l) \<Rightarrow> (Some (InLocal actor event), s\<lparr>di_local := l\<rparr>)
      | (None, l) \<Rightarrow>
          (case rs_pop_action (di_remote s) of
             (Some (sess, cmd), r) \<Rightarrow> (Some (InRemote (ToNode (fst sess)) (RServer (di_session s) cmd)), s\<lparr>di_local := l, di_remote := r\<rparr>)
           | (None, r) \<Rightarrow> (None, s\<lparr>di_local := l, di_remote := r\<rparr>)))"

subsection \<open>Controller half and worker half\<close>

record 'u dht_feature =
  df_internal :: "'u dht_internal"
  df_shutdown :: bool

definition df_new :: "node_id \<Rightarrow> u64 \<Rightarrow> 'u dht_feature" where
  "df_new n sess = \<lparr>df_internal = di_new (n, sess), df_shutdown = False\<rparr>"

definition df_on_shared_input :: "time \<Rightarrow> feature_shared_input \<Rightarrow> 'u dht_feature \<Rightarrow> 'u dht_feature" where
  "df_on_shared_input now input f =
     (case input of Tick _ \<Rightarrow> f\<lparr>df_internal := di_on_tick now (df_internal f)\<rparr> | _ \<Rightarrow> f)"

definition df_on_message :: "(bytes \<Rightarrow> remote_command option) \<Rightarrow> time \<Rightarrow> bytes \<Rightarrow> 'u dht_feature \<Rightarrow> 'u dht_feature run" where
  "df_on_message de now buf f =
     (case de buf of
        Some cmd \<Rightarrow> do { i \<leftarrow> di_on_remote now cmd (df_internal f); Some (f\<lparr>df_internal := i\<rparr>) }
      | None \<Rightarrow> Some f)"

definition df_on_input :: "(bytes \<Rightarrow> remote_command option) \<Rightarrow> time \<Rightarrow> ('u, kv_control, unit) feature_input \<Rightarrow> 'u dht_feature \<Rightarrow> 'u dht_feature run" where
  "df_on_input de now input f =
     (case input of
        Control actor control \<Rightarrow> do { i \<leftarrow> di_on_local now actor control (df_internal f); Some (f\<lparr>df_internal := i\<rparr>) }
      | LocalMsg _ buf \<Rightarrow> df_on_message de now buf f
      | NetMsg _ meta buf \<Rightarrow> if \<not> im_secure meta then Some f else df_on_message de now buf f
      | FromWorker _ \<Rightarrow> Some f)"

definition df_on_shutdown :: "'u dht_feature \<Rightarrow> 'u dht_feature" where
  "df_on_shutdown f = f\<lparr>df_shutdown := True\<rparr>"

definition df_pop_output :: "(remote_command \<Rightarrow> bytes) \<Rightarrow> 'u dht_feature \<Rightarrow> ('u, kv_event, unit) feature_output option \<times> 'u dht_feature" where
  "df_pop_output ser f =
     (case di_pop_action (df_internal f) of
        (None, i) \<Rightarrow> (None, f\<lparr>df_internal := i\<rparr>)
      | (Some (InLocal actor event), i) \<Rightarrow> (Some (OutEvent actor event), f\<lparr>df_internal := i\<rparr>)
      | (Some (InRemote rule cmd), i) \<Rightarrow>
          (Some (OutSendRoute rule \<lparr>om_source = False, om_ttl = DEFAULT_MSG_TTL, om_meta = 0, om_secure = True\<rparr> (ser cmd)),
           f\<lparr>df_internal := i\<rparr>))"

record 'u dht_worker =
  dw_queue :: "('u, kv_control, kv_event, unit) feature_worker_output list"
  dw_shutdown :: bool

definition dw_on_input :: "('u, kv_control, unit) feature_worker_input \<Rightarrow> 'u dht_worker \<Rightarrow> 'u dht_worker" where
  "dw_on_input input w =
     (case input of
        WControl actor c \<Rightarrow> w\<lparr>dw_queue := dw_queue w @ [WForwardControl actor c]\<rparr>
      | WNetwork conn h buf \<Rightarrow> w\<lparr>dw_queue := dw_queue w @ [WForwardNetwork conn h buf]\<rparr>
      | WTunPkt _ \<Rightarrow> w
      | WFromController _ _ \<Rightarrow> w
      | WLocal h buf \<Rightarrow> w\<lparr>dw_queue := dw_queue w @ [WForwardLocal h buf]\<rparr>)"

definition dw_is_empty :: "'u dht_worker \<Rightarrow> bool" where
  "dw_is_empty w \<longleftrightarrow> dw_shutdown w \<and> dw_queue w = []"

subsection \<open>The client storage\<close>

lemma pop_map_actions_eq: "pop_map_actions key m = (m\<lparr>lm_queue := []\<rparr>, map (map_output key) (lm_queue m))"
proof (induction "lm_queue m" arbitrary: m)
  case Nil
  then show ?case by (subst pop_map_actions.simps) (simp add: lm_pop_action_def)
next
  case (Cons x q)
  have "pop_map_actions key (m\<lparr>lm_queue := q\<rparr>) = (m\<lparr>lm_queue := []\<rparr>, map (map_output key) q)"
    using Cons(1) [of "m\<lparr>lm_queue := q\<rparr>"] by simp
  with Cons(2) [symmetric] show ?case by (subst pop_map_actions.simps) (simp add: lm_pop_action_def split: prod.split)
qed

definition ls_wf :: "'u local_storage \<Rightarrow> bool" where
  "ls_wf s \<longleftrightarrow> wf_map (ls_maps s) \<and> wf_map (ls_map_get_waits s) \<and>
     (\<forall>mp m. map_of (ls_maps s) mp = Some m \<longrightarrow> lm_wf m \<and> lm_session m = ls_session s)"

lemma lm_wf_queue [simp]: "lm_wf (m\<lparr>lm_queue := q\<rparr>) \<longleftrightarrow> lm_wf m"
  by (simp add: lm_wf_def)

lemma ls_wf_new [wf_intros]: "ls_wf (ls_new sess)"
  by (simp add: ls_wf_def ls_new_def)

lemma ls_tick_maps_ok:
  assumes "wf_map ms" "\<forall>m\<in>snd ` set ms. lm_wf m \<and> lm_session m = own"
  shows "wf_map (fst (ls_tick_maps now ms)) \<and> fst ` set (fst (ls_tick_maps now ms)) \<subseteq> fst ` set ms \<and>
    (\<forall>m\<in>snd ` set (fst (ls_tick_maps now ms)). lm_wf m \<and> lm_session m = own)"
  using assms
proof (induction ms)
  case (Cons x ms)
  obtain k m where x: "x = (k, m)" by (cases x)
  have "lm_wf m" "lm_session m = own" using Cons.prems(2) by (simp_all add: x)
  then have m: "lm_wf (lm_on_tick now m)" "lm_session (lm_on_tick now m) = own"
    by (simp_all add: lm_wf_tick)
  obtain ms' outs where ms': "ls_tick_maps now ms = (ms', outs)" by (cases "ls_tick_maps now ms")
  have "wf_map ms" "\<forall>m\<in>snd ` set ms. lm_wf m \<and> lm_session m = own" using Cons.prems by simp_all
  from Cons.IH [OF this]
  have IH: "wf_map ms'" "fst ` set ms' \<subseteq> fst ` set ms" "\<forall>m\<in>snd ` set ms'. lm_wf m \<and> lm_session m = own"
    by (simp_all add: ms')
  have new: "k \<notin> fst ` set ms'" using Cons.prems(1) IH(2) by (auto simp: x)
  define m1 where "m1 = (lm_on_tick now m)\<lparr>lm_queue := []\<rparr>"
  have eq: "fst (ls_tick_maps now (x # ms)) = (if lm_should_cleanup m1 then ms' else (k, m1) # ms')"
    by (simp add: x ms' pop_map_actions_eq m1_def)
  have m1: "lm_wf m1" "lm_session m1 = own" using m by (simp_all add: m1_def)
  show ?case
    unfolding eq using IH new m1 by (cases "lm_should_cleanup m1") (simp_all add: x subset_insertI2)
qed simp

lemma ls_on_tick_wf [wf_intros]:
  assumes "ls_wf s"
  shows "ls_wf (ls_on_tick now s)"
proof -
  have "\<forall>m\<in>snd ` set (ls_maps s). lm_wf m \<and> lm_session m = ls_session s"
    using assms by (auto simp: ls_wf_def)
  then have "wf_map (fst (ls_tick_maps now (ls_maps s))) \<and>
      (\<forall>m\<in>snd ` set (fst (ls_tick_maps now (ls_maps s))). lm_wf m \<and> lm_session m = ls_session s)"
    using ls_tick_maps_ok [of "ls_maps s" "ls_session s" now] assms by (simp add: ls_wf_def)
  then show ?thesis using assms
    by (auto simp: ls_wf_def ls_on_tick_def split_beta Let_def wf_hm_filter dest!: map_of_SomeD intro: rev_image_eqI)
qed

lemma ls_finish_wf:
  assumes "ls_wf (s\<lparr>ls_maps := maps\<rparr>)" "lm_wf m1" "lm_session m1 = ls_session s"
  shows "ls_wf (ls_finish key maps (m1, c) s)"
  using assms by (auto simp: ls_wf_def ls_finish_def pop_map_actions_eq wf_hm_insert)

lemma ls_on_local_wf:
  assumes "ls_wf s"
  shows "\<exists>s'. ls_on_local now a c s = Some s' \<and> ls_wf s'"
proof (cases c)
  case (KMapCmd key control)
  let ?maps = "hm_ensure (control_is_creator control) key (lm_new (ls_session s)) (ls_maps s)"
  have new: "lm_session (lm_new n) = n" for n by (simp add: lm_new_def)
  have wf: "ls_wf (s\<lparr>ls_maps := ?maps\<rparr>)" using assms by (auto simp: ls_wf_def hm_get_ensure wf_hm_ensure lm_wf_new new split: if_splits)
  show ?thesis
  proof (cases "map_of ?maps key")
    case None
    then show ?thesis using assms KMapCmd by simp
  next
    case (Some m)
    then have "lm_wf m" "lm_session m = ls_session s" using wf by (auto simp: ls_wf_def)
    then obtain m1 e where "lm_on_control now a control m = Some (m1, e)" "lm_wf m1" "lm_session m1 = ls_session s"
      using on_control_wf [of m now a control] by auto
    then show ?thesis using ls_finish_wf [OF wf] Some KMapCmd by auto
  qed
next
  case (KMapGet key)
  then show ?thesis using assms by (simp add: ls_wf_def Let_def wf_hm_insert)
qed

lemma ls_on_server_wf:
  assumes "ls_wf s"
  shows "\<exists>s'. ls_on_server now r c s = Some s' \<and> ls_wf s'"
proof (cases c)
  case (SMapEvent key cmd)
  show ?thesis
  proof (cases "map_of (ls_maps s) key")
    case None
    then show ?thesis using assms SMapEvent by simp
  next
    case (Some m)
    then have "lm_wf m" "lm_session m = ls_session s" using assms by (auto simp: ls_wf_def)
    then obtain m1 e where "lm_on_server now r cmd m = Some (m1, e)" "lm_wf m1" "lm_session m1 = ls_session s"
      using on_server_wf [of m now r cmd] by auto
    then show ?thesis using ls_finish_wf [where s = s and maps = "ls_maps s"] assms Some SMapEvent by auto
  qed
next
  case (SMapGetRes key q res)
  then show ?thesis using assms by (auto simp: ls_wf_def wf_hm_remove split: option.split)
qed

subsection \<open>The feature never panics\<close>

datatype 'u df_input =
    DfShared time feature_shared_input
  | DfInput time "('u, kv_control, unit) feature_input"
  | DfPop
  | DfShutdown

fun df_step :: "(remote_command \<Rightarrow> bytes) \<Rightarrow> (bytes \<Rightarrow> remote_command option) \<Rightarrow> 'u df_input \<Rightarrow> 'u dht_feature \<Rightarrow> 'u dht_feature run" where
  "df_step ser de (DfShared now input) f = Some (df_on_shared_input now input f)"
| "df_step ser de (DfInput now input) f = df_on_input de now input f"
| "df_step ser de DfPop f = Some (snd (df_pop_output ser f))"
| "df_step ser de DfShutdown f = Some (df_on_shutdown f)"

definition df_wf :: "'u dht_feature \<Rightarrow> bool" where
  "df_wf f \<longleftrightarrow> ls_wf (di_local (df_internal f)) \<and> rs_wf (di_remote (df_internal f))"

lemma ls_wf_queue [simp]: "ls_wf (s\<lparr>ls_queue := q\<rparr>) \<longleftrightarrow> ls_wf s"
  by (simp add: ls_wf_def)

lemma rs_wf_queue [simp]: "rs_wf (s\<lparr>rs_queue := q\<rparr>) \<longleftrightarrow> rs_wf s"
  by (simp add: rs_wf_def)

lemma df_pop_wf: "df_wf f \<Longrightarrow> df_wf (snd (df_pop_output ser f))"
  by (auto simp: df_wf_def df_pop_output_def di_pop_action_def ls_pop_action_def rs_pop_action_def
      split: list.splits local_storage_output.splits)

lemma di_on_remote_wf:
  assumes "ls_wf (di_local s)" "rs_wf (di_remote s)"
  shows "\<exists>s'. di_on_remote now cmd s = Some s' \<and> ls_wf (di_local s') \<and> rs_wf (di_remote s')"
proof (cases cmd)
  case (RClient r c)
  then show ?thesis using rs_step_spec [OF assms(2), of "SrvCmd now r c"] assms(1) by (auto simp: di_on_remote_def)
next
  case (RServer r c)
  then show ?thesis using ls_on_server_wf [OF assms(1), of now r c] assms(2) by (auto simp: di_on_remote_def)
qed

lemma df_on_message_wf:
  assumes "df_wf f"
  shows "\<exists>f'. df_on_message de now buf f = Some f' \<and> df_wf f'"
proof (cases "de buf")
  case (Some cmd)
  then show ?thesis using di_on_remote_wf [of "df_internal f" now cmd] assms by (auto simp: df_on_message_def df_wf_def)
qed (use assms in \<open>simp add: df_on_message_def\<close>)

lemma df_step_wf:
  assumes "df_wf f"
  shows "\<exists>f'. df_step ser de i f = Some f' \<and> df_wf f'"
proof (cases i)
  case (DfShared now input)
  then show ?thesis using assms rs_on_tick_spec
    by (cases input) (auto simp: df_on_shared_input_def df_wf_def di_on_tick_def ls_on_tick_wf)
next
  case (DfInput now input)
  show ?thesis
  proof (cases input)
    case (Control a c)
    then show ?thesis using ls_on_local_wf [of "di_local (df_internal f)" now a c] assms DfInput
      by (auto simp: df_on_input_def di_on_local_def df_wf_def)
  qed (use assms df_on_message_wf [OF assms] DfInput in \<open>simp_all add: df_on_input_def\<close>)
qed (use assms in \<open>simp_all add: df_pop_wf\<close>, simp add: df_wf_def df_on_shutdown_def)

interpretation kv_feature: run_invariant "df_step ser de" df_wf for ser de
  using df_step_wf by unfold_locales

lemma df_wf_new [wf_intros]: "df_wf (df_new n sess)"
  by (simp add: df_wf_def df_new_def di_new_def ls_wf_new rs_wf_new)

text \<open>
  C20. The feature never panics: on any sequence of ticks, connection events, controls of its applications, messages of
  other nodes whatever they contain, pops and shutdown. In particular the last subscriber of a map always leaves
  it from a subscribing or subscribed state.
\<close>

theorem dht_feature_never_panics: "\<exists>f. for_run (df_step ser de) ins (df_new n sess) = Some f"
  using kv_feature.run_ok [OF df_wf_new] by blast

subsection \<open>From the writer through the relay to a subscriber\<close>

lemma writer_set:
  "\<exists>w1. lm_on_control t a (MSet k d) w = Some (w1, Some (CSet k t d)) \<and> lm_session w1 = lm_session w \<and>
    map_of (lm_slots w1) (k, lm_session w) = Some (SlotLocal k (Some d) t True t)"
  if "lm_wf w"
proof -
  let ?k = "(k, lm_session w)"
  obtain sl where sl: "map_of (hm_ensure True ?k (SlotUnspecific k) (lm_slots w)) ?k = Some sl"
    by (rule exE [OF hm_ensure_get])
  have "slots_ok (lm_session w) (hm_ensure True ?k (SlotUnspecific k) (lm_slots w))"
    using lm_wfD(1) [OF that] by (rule slots_ok_ensure)
  from slots_okD(2) [OF this sl] have "slot_key sl = k" by (simp add: slot_ok_def)
  then have "slot_set sl t d = (SlotLocal k (Some d) t True t, Some (CSet k t d))" by (cases sl) auto
  with sl show ?thesis by (simp add: Let_def)
qed

lemma relay_set:
  assumes "rm_wf m" "\<forall>v d0. rm_view m (k, src) = Some (v, d0) \<longrightarrow> v \<le> t"
  shows "\<exists>m1. rm_on_client t1 src (CSet k t d) m = Some (m1, Some (SetOk k t)) \<and> rm_wf m1 \<and>
    rm_subs m1 = rm_subs m \<and> rm_session m1 = rm_session m \<and> rm_view m1 (k, src) = Some (t, d)"
proof -
  obtain m1 e where m1: "rm_on_client t1 src (CSet k t d) m = Some (m1, e)" "rm_wf m1"
    "rm_view m1 (k, src) = reg_step (CSet k t d) (rm_view m (k, src))"
    using rm_on_client_spec [OF assms(1), of t1 src "CSet k t d"] by auto
  have view: "rm_view m1 (k, src) = Some (t, d)" using m1(3) assms(2) by (auto split: option.split)
  have "e = Some (SetOk k t) \<and> rm_subs m1 = rm_subs m \<and> rm_session m1 = rm_session m"
  proof (cases "map_of (rm_slots m) (k, src)")
    case None
    then show ?thesis using m1(1) by (auto simp: hm_ensure_def rm_fire_event_def Let_def split: if_splits)
  next
    case (Some sl)
    then show ?thesis using m1(1) assms(2)
      by (cases sl) (auto simp: hm_ensure_def rm_view_def rm_fire_event_def Let_def split: if_splits)
  qed
  with m1 view show ?thesis by blast
qed

lemma reader_on_set:
  assumes "lm_wf rd" "lm_accept_event relay rd" "src \<noteq> lm_session rd"
    and "\<forall>k' v x. map_of (lm_slots rd) (k, src) = Some (SlotRemote k' v x) \<longrightarrow> v < t"
  shows "\<exists>rd1. lm_on_server now relay (OnSet k src t d) rd = Some (rd1, Some (COnSetAck k src t)) \<and>
    lm_queue rd1 = lm_queue rd @ map (\<lambda>b. LmLocal b (EvSet k (fst src) d)) (lm_subscribers rd) \<and>
    map_of (lm_slots rd1) (k, src) = Some (SlotRemote k t (Some d))"
proof -
  let ?sls = "hm_ensure True (k, src) (SlotUnspecific k) (lm_slots rd)"
  obtain sl where sl: "map_of ?sls (k, src) = Some sl" by (rule exE [OF hm_ensure_get])
  have "slots_ok (lm_session rd) ?sls" using lm_wfD(1) [OF assms(1)] by (rule slots_ok_ensure)
  from slots_okD(2) [OF this sl] have "\<not> slot_is_local sl" using assms(3) by (auto simp: slot_ok_def)
  moreover have "v < t" if "sl = SlotRemote k' v x" for k' v x
    using sl that assms(4) by (auto simp: hm_get_ensure split: if_splits)
  ultimately have "slot_on_set sl k src t d = (SlotRemote k t (Some d), Some (COnSetAck k src t, True))"
    by (cases sl) auto
  with sl assms(2) show ?thesis by (simp add: Let_def)
qed

lemma relay_acked:
  assumes "rm_wf m1" "map_of (rm_slots_event m1) (k, src) = Some w" "wa_event w = OnSet k src t d"
  shows "\<exists>m2. rm_on_client t3 r (COnSetAck k src t) m1 = Some (m2, None) \<and> rm_view m2 = rm_view m1 \<and>
    (\<forall>w. map_of (rm_slots_event m2) (k, src) = Some w \<longrightarrow> r \<notin> set (wa_remotes w))"
  using assms(2,3) by (auto simp: ack_event_def Let_def rm_view_def fun_eq_iff)

text \<open>
  C21. A write travels from the application of one node to the applications of another and is settled on the way
  back. The writer's \<^verbatim>\<open>Set\<close> produces a command; the relay, unless it holds a newer version of this source, stores it
  and sends the event to the subscribed reader; the reader, unless it already holds this version or a newer one, reports
  the value to each of its subscribers and acknowledges; the acknowledgement ends the resending; and the relay's
  confirmation marks the writer's slot as synchronised.
\<close>

theorem dht_write_reaches_subscriber:
  assumes "lm_wf w" "rm_wf m" "lm_wf rd" "lm_session w \<noteq> lm_session rd"
    and "\<forall>v d0. rm_view m (k, lm_session w) = Some (v, d0) \<longrightarrow> v \<le> t"
    and "map_of (rm_subs m) (lm_session rd) = Some sub" "lm_accept_event (rm_session m) rd"
    and "\<forall>k' v x. map_of (lm_slots rd) (k, lm_session w) = Some (SlotRemote k' v x) \<longrightarrow> v < t"
  shows "\<exists>w1 m1 rd1 m2 w2.
     lm_on_control t a (MSet k d) w = Some (w1, Some (CSet k t d)) \<and>
     rm_on_client t1 (lm_session w) (CSet k t d) m = Some (m1, Some (SetOk k t)) \<and>
     (lm_session rd, OnSet k (lm_session w) t d) \<in> set (rm_queue m1) \<and>
     lm_on_server t2 (rm_session m) (OnSet k (lm_session w) t d) rd = Some (rd1, Some (COnSetAck k (lm_session w) t)) \<and>
     lm_queue rd1 = lm_queue rd @ map (\<lambda>b. LmLocal b (EvSet k (fst (lm_session w)) d)) (lm_subscribers rd) \<and>
     rm_on_client t3 (lm_session rd) (COnSetAck k (lm_session w) t) m1 = Some (m2, None) \<and>
     (\<forall>e. map_of (rm_slots_event m2) (k, lm_session w) = Some e \<longrightarrow> lm_session rd \<notin> set (wa_remotes e)) \<and>
     rm_view m2 (k, lm_session w) = Some (t, d) \<and>
     lm_on_server t4 (rm_session m) (SetOk k t) w1 = Some (w2, None) \<and>
     map_of (lm_slots w2) (k, lm_session w) = Some (SlotLocal k (Some d) t False t)"
proof -
  let ?s = "lm_session w" and ?ev = "OnSet k (lm_session w) t d"
  obtain w1 where w1: "lm_on_control t a (MSet k d) w = Some (w1, Some (CSet k t d))" "lm_session w1 = ?s"
    "map_of (lm_slots w1) (k, ?s) = Some (SlotLocal k (Some d) t True t)"
    using writer_set [OF assms(1)] by blast
  obtain m1 where m1: "rm_on_client t1 ?s (CSet k t d) m = Some (m1, Some (SetOk k t))" "rm_wf m1"
    "rm_view m1 (k, ?s) = Some (t, d)"
    using relay_set [OF assms(2,5)] by blast
  obtain slots where "m1 = rm_fire_event t1 k ?s ?ev (m\<lparr>rm_slots := slots\<rparr>)"
    by (rule rm_on_client_CSet [OF m1(1)]) simp_all
  then have fired: "awaits t1 t1 (k, ?s) (lm_session rd) ?ev m1" "(lm_session rd, ?ev) \<in> set (rm_queue m1)"
    using fire_event_awaits [of "m\<lparr>rm_slots := slots\<rparr>" "lm_session rd" sub ?s t1 k ?ev] assms(4,6) by auto
  obtain rd1 where rd1: "lm_on_server t2 (rm_session m) ?ev rd = Some (rd1, Some (COnSetAck k ?s t))"
    "lm_queue rd1 = lm_queue rd @ map (\<lambda>b. LmLocal b (EvSet k (fst ?s) d)) (lm_subscribers rd)"
    using reader_on_set [OF assms(3,7,4,8)] by blast
  obtain e where "map_of (rm_slots_event m1) (k, ?s) = Some e" "wa_event e = ?ev" using fired(1) by (auto simp: awaits_def)
  from relay_acked [OF m1(2) this] obtain m2 where m2: "rm_on_client t3 (lm_session rd) (COnSetAck k ?s t) m1 = Some (m2, None)"
    "rm_view m2 = rm_view m1" "\<forall>e. map_of (rm_slots_event m2) (k, ?s) = Some e \<longrightarrow> lm_session rd \<notin> set (wa_remotes e)"
    by blast
  have "\<exists>w2. lm_on_server t4 (rm_session m) (SetOk k t) w1 = Some (w2, None) \<and>
      map_of (lm_slots w2) (k, ?s) = Some (SlotLocal k (Some d) t False t)"
    using w1(2,3) by (simp add: Let_def)
  then show ?thesis using w1(1) m1(1,3) fired(2) rd1 m2 by (elim exE conjE) (intro exI conjI, assumption+, simp_all)
qed

theorem dht_write_reaches_subscriber_witness:
  "\<exists>w1 m1 rd1 m2 w2.
     lm_on_control 50 (ActorService 1) (MSet 3 [7]) (lm_new (1, 0) :: unit local_map) = Some (w1, Some (CSet 3 50 [7])) \<and>
     rm_on_client 60 (1, 0) (CSet 3 50 [7]) ((rm_new (9, 0))\<lparr>rm_subs := [((2, 0), \<lparr>ss_id = 5, ss_last_ts = 5\<rparr>)]\<rparr>) = Some (m1, Some (SetOk 3 50)) \<and>
     ((2, 0), OnSet 3 (1, 0) 50 [7]) \<in> set (rm_queue m1) \<and>
     lm_on_server 70 (9, 0) (OnSet 3 (1, 0) 50 [7])
       ((lm_new (2, 0) :: unit local_map)\<lparr>lm_subscribers := [ActorService 4], lm_sub_state := Subscribed 5 (9, 0) 5\<rparr>)
         = Some (rd1, Some (COnSetAck 3 (1, 0) 50)) \<and>
     lm_queue rd1 = [LmLocal (ActorService 4) (EvSet 3 1 [7])] \<and>
     rm_on_client 80 (2, 0) (COnSetAck 3 (1, 0) 50) m1 = Some (m2, None) \<and> rm_view m2 (3, (1, 0)) = Some (50, [7]) \<and>
     lm_on_server 90 (9, 0) (SetOk 3 50) w1 = Some (w2, None) \<and>
     map_of (lm_slots w2) (3, (1, 0)) = Some (SlotLocal 3 (Some [7]) 50 False 50)"
proof -
  let ?w = "lm_new (1, 0) :: unit local_map"
  let ?m = "(rm_new (9, 0))\<lparr>rm_subs := [((2, 0), \<lparr>ss_id = 5, ss_last_ts = 5\<rparr>)]\<rparr>"
  let ?rd = "(lm_new (2, 0) :: unit local_map)\<lparr>lm_subscribers := [ActorService 4], lm_sub_state := Subscribed 5 (9, 0) 5\<rparr>"
  have wf: "lm_wf ?w" "rm_wf ?m" "lm_wf ?rd"
    by (simp_all add: lm_wf_new rm_wf_subs rm_wf_new) (simp add: lm_wf_def lm_new_def slots_ok_def)
  have s: "lm_session ?w = (1, 0)" "lm_session ?rd = (2, 0)" "rm_session ?m = (9, 0)" "lm_queue ?rd = []" "lm_subscribers ?rd = [ActorService 4]"
    by (simp_all add: lm_new_def rm_new_def)
  have pre: "\<forall>v d0. rm_view ?m (3, lm_session ?w) = Some (v, d0) \<longrightarrow> v \<le> 50" "map_of (rm_subs ?m) (lm_session ?rd) = Some \<lparr>ss_id = 5, ss_last_ts = 5\<rparr>"
    "lm_accept_event (rm_session ?m) ?rd" "lm_session ?w \<noteq> lm_session ?rd"
    "\<forall>k' v x. map_of (lm_slots ?rd) (3, lm_session ?w) = Some (SlotRemote k' v x) \<longrightarrow> v < 50"
    by (simp_all add: rm_view_def rm_new_def lm_new_def lm_accept_event_def)
  show ?thesis
    using dht_write_reaches_subscriber [OF wf pre(4,1,2,3,5), of "ActorService 1" "[7]" 60 70 80 90] unfolding s fst_conv
    by (elim exE conjE) (intro exI conjI, assumption+, simp_all)
qed

subsection \<open>Answers to a read\<close>

text \<open>
  C22. A read is stamped with its request number instead of the time. Once the clock is 5000 ms past that number, the
  first tick after a \<^verbatim>\<open>MapGet\<close> forgets the request, even in the same millisecond, without telling the
  application; the answer that arrives later is dropped.
\<close>

theorem dht_map_get_forgotten:
  assumes "ls_wf s" "ls_req_id_seed s + MAP_GET_TIMEOUT_MS \<le> now"
  shows "\<exists>s1. ls_on_local now a (KMapGet mp) s = Some s1 \<and>
    (\<forall>b e. LsLocal b e \<in> set (ls_queue s1) \<longrightarrow> LsLocal b e \<in> set (ls_queue s)) \<and>
    ls_on_server later r (SMapGetRes mp (ls_req_id_seed s) rows) (ls_on_tick now s1) = Some (ls_on_tick now s1)"
proof -
  let ?k = "(mp, ls_req_id_seed s)"
  let ?waits = "hm_insert ?k (a, ls_req_id_seed s) (ls_map_get_waits s)"
  have "wf_map ?waits" using assms(1) by (simp add: ls_wf_def wf_hm_insert)
  from hm_get_filter [OF this, of "\<lambda>(_, _, at). \<not> at + MAP_GET_TIMEOUT_MS \<le> now" ?k]
  have gone: "map_of (filter (\<lambda>(_, _, at). \<not> at + MAP_GET_TIMEOUT_MS \<le> now) ?waits) ?k = None" using assms(2) by simp
  have waits: "ls_map_get_waits (ls_on_tick now s') = filter (\<lambda>(_, _, at). \<not> at + MAP_GET_TIMEOUT_MS \<le> now) (ls_map_get_waits s')"
    for s' :: "'a local_storage"
    by (simp add: ls_on_tick_def split_beta Let_def)
  obtain s1 where s1: "ls_on_local now a (KMapGet mp) s = Some s1" "ls_map_get_waits s1 = ?waits"
    "ls_queue s1 = ls_queue s @ [LsRemote (kv_route mp) (CMapGet mp (ls_req_id_seed s))]"
    by (simp add: Let_def)
  then have "ls_on_server later r (SMapGetRes mp (ls_req_id_seed s) rows) (ls_on_tick now s1) = Some (ls_on_tick now s1)"
    using gone by (simp add: waits)
  with s1 show ?thesis by (intro exI [of _ s1] conjI) (simp_all del: ls_on_local.simps)
qed

theorem dht_map_get_forgotten_witness:
  "\<exists>s1. ls_on_local 6000 (ActorService 1) (KMapGet 3) (ls_new (1, 0) :: unit local_storage) = Some s1 \<and>
    ls_on_server 6001 (9, 0) (SMapGetRes 3 0 [(5, (2, 0), 4, [1])]) (ls_on_tick 6000 s1) = Some (ls_on_tick 6000 s1)"
proof -
  have seed: "ls_req_id_seed (ls_new (1, 0) :: unit local_storage) = 0" by (simp add: ls_new_def)
  show ?thesis
    using dht_map_get_forgotten [OF ls_wf_new, of "(1, 0)" 6000 "ActorService 1 :: unit feature_actor" 3 6001 "(9, 0)" "[(5, (2, 0), 4, [1])]"]
    unfolding seed MAP_GET_TIMEOUT_MS_def by (simp del: ls_on_local.simps ls_on_server.simps) blast
qed

end
