(* ===== verification/Alias.thy ===== *)
theory Alias
  imports Dht_Msg "HOL-Library.Multiset"
begin

text \<open>
  The alias feature (\<^verbatim>\<open>packages/network/src/features/alias.rs\<close>): a node registers names for itself, and a query finds the
  node of a name, first at home, then among fresh hints, then by asking the last known node, then by scanning
  the service. \<^verbatim>\<open>bincode\<close> is a parameter (\<open>ser\<close>, \<open>de\<close>).

  The theorems show that every query is answered exactly once, and at the latest two timeouts later.
\<close>

definition HINT_TIMEOUT_MS :: time where "HINT_TIMEOUT_MS = 2000"
definition SCAN_TIMEOUT_MS :: time where "SCAN_TIMEOUT_MS = 5000"

datatype alias_control =
    Register u64 u8 service_broadcast_level
  | Query u64 u8 service_broadcast_level
  | Unregister u64

datatype found_location = FoundLocal | FoundNotify node_id | CachedHint node_id | RemoteHint node_id | RemoteScan node_id

datatype alias_event = QueryResult u64 "found_location option"

datatype alias_message = ANotify u64 | AScan u64 | ACheck u64 | AFound u64 bool

datatype query_state = CheckHint node_id time | Scan time

record 'u query_slot =
  qs_waiters :: "'u feature_actor list"
  qs_state :: query_state
  qs_service :: u8
  qs_level :: service_broadcast_level

record hint_slot =
  hs_node :: node_id
  hs_ts :: time

type_synonym 'u alias_output = "('u, alias_event, unit) feature_output"

record 'u alias_feature =
  af_queries :: "(u64 \<times> 'u query_slot) list"
  af_hint_slots :: "u64 \<rightharpoonup> hint_slot"
  af_local_slots :: "u64 \<rightharpoonup> time"
  af_queue :: "'u alias_output list"
  af_scan_seq :: u16
  af_shutdown :: bool

definition af_default :: "'u alias_feature" where
  "af_default = \<lparr>af_queries = [], af_hint_slots = Map.empty, af_local_slots = Map.empty, af_queue = [], af_scan_seq = 0, af_shutdown = False\<rparr>"

definition alias_send_to :: "(alias_message \<Rightarrow> bytes) \<Rightarrow> route_rule \<Rightarrow> alias_message \<Rightarrow> 'u alias_output" where
  "alias_send_to ser rule msg =
     OutSendRoute rule \<lparr>om_source = True, om_ttl = DEFAULT_MSG_TTL, om_meta = 0, om_secure = True\<rparr> (ser msg)"

definition af_push :: "'u alias_output list \<Rightarrow> 'u alias_feature \<Rightarrow> 'u alias_feature" where
  "af_push out f = f\<lparr>af_queue := af_queue f @ out\<rparr>"

definition gen_seq :: "'u alias_feature \<Rightarrow> u16 \<times> 'u alias_feature" where
  "gen_seq f = (af_scan_seq f, f\<lparr>af_scan_seq := af_scan_seq f + 1\<rparr>)"

definition answer_all :: "u64 \<Rightarrow> found_location option \<Rightarrow> 'u query_slot \<Rightarrow> 'u alias_output list" where
  "answer_all alias loc slot = map (\<lambda>a. OutEvent a (QueryResult alias loc)) (qs_waiters slot)"

fun process_control :: "(alias_message \<Rightarrow> bytes) \<Rightarrow> time \<Rightarrow> 'u feature_actor \<Rightarrow> alias_control \<Rightarrow> 'u alias_feature \<Rightarrow> 'u alias_feature" where
  "process_control ser now actor (Register alias service level) f =
     (let (sq, f1) = gen_seq (f\<lparr>af_local_slots := (af_local_slots f)(alias \<mapsto> now)\<rparr>)
      in af_push [alias_send_to ser (ToServices service level sq) (ANotify alias)] f1)"
| "process_control ser now actor (Query alias service level) f =
     (if af_local_slots f alias \<noteq> None then af_push [OutEvent actor (QueryResult alias (Some FoundLocal))] f
      else (case map_of (af_queries f) alias of
          Some slot \<Rightarrow>
            f\<lparr>af_queries := hm_insert alias (slot\<lparr>qs_waiters := qs_waiters slot @ [actor]\<rparr>) (af_queries f)\<rparr>
        | None \<Rightarrow>
            (case af_hint_slots f alias of
               Some hint \<Rightarrow>
                 if now \<le> hs_ts hint + HINT_TIMEOUT_MS
                 then af_push [OutEvent actor (QueryResult alias (Some (CachedHint (hs_node hint))))] f
                 else af_push [alias_send_to ser (ToNode (hs_node hint)) (ACheck alias)]
                        (f\<lparr>af_queries := hm_insert alias
                             \<lparr>qs_waiters = [actor], qs_state = CheckHint (hs_node hint) now, qs_service = service, qs_level = level\<rparr>
                             (af_queries f)\<rparr>)
             | None \<Rightarrow>
                 (let (sq, f1) = gen_seq (f\<lparr>af_queries := hm_insert alias
                             \<lparr>qs_waiters = [actor], qs_state = Scan now, qs_service = service, qs_level = level\<rparr> (af_queries f)\<rparr>)
                  in af_push [alias_send_to ser (ToServices service level sq) (AScan alias)] f1))))"
| "process_control ser now actor (Unregister alias) f = f\<lparr>af_local_slots := (af_local_slots f)(alias := None)\<rparr>"

fun process_remote :: "(alias_message \<Rightarrow> bytes) \<Rightarrow> time \<Rightarrow> node_id \<Rightarrow> alias_message \<Rightarrow> 'u alias_feature \<Rightarrow> 'u alias_feature" where
  "process_remote ser now from (ANotify alias) f =
     (let f1 = f\<lparr>af_hint_slots := (af_hint_slots f)(alias \<mapsto> \<lparr>hs_node = from, hs_ts = now\<rparr>)\<rparr>
      in case map_of (af_queries f) alias of
           Some slot \<Rightarrow> af_push (answer_all alias (Some (FoundNotify from)) slot) (f1\<lparr>af_queries := hm_remove alias (af_queries f)\<rparr>)
         | None \<Rightarrow> f1)"
| "process_remote ser now from (AScan alias) f =
     (if af_local_slots f alias \<noteq> None then af_push [alias_send_to ser (ToNode from) (AFound alias True)] f else f)"
| "process_remote ser now from (ACheck alias) f =
     af_push [alias_send_to ser (ToNode from) (AFound alias (af_local_slots f alias \<noteq> None))] f"
| "process_remote ser now from (AFound alias found) f =
     (let f1 = (if found then f\<lparr>af_hint_slots := (af_hint_slots f)(alias \<mapsto> \<lparr>hs_node = from, hs_ts = now\<rparr>)\<rparr> else f)
      in case map_of (af_queries f1) alias of
           None \<Rightarrow> f1
         | Some slot \<Rightarrow>
             (case qs_state slot of
                CheckHint n _ \<Rightarrow>
                  if n \<noteq> from then f1
                  else if found
                  then af_push (answer_all alias (Some (RemoteHint from)) slot) (f1\<lparr>af_queries := hm_remove alias (af_queries f1)\<rparr>)
                  else
                    (let (sq, f2) = gen_seq (f1\<lparr>af_queries := hm_insert alias (slot\<lparr>qs_state := Scan now\<rparr>) (af_queries f1)\<rparr>)
                     in af_push [alias_send_to ser (ToServices (qs_service slot) (qs_level slot) sq) (AScan alias)] f2)
              | Scan _ \<Rightarrow>
                  if \<not> found then f1
                  else af_push (answer_all alias (Some (RemoteScan from)) slot) (f1\<lparr>af_queries := hm_remove alias (af_queries f1)\<rparr>)))"

text \<open>The loop of a tick over the queries: new queries, next sequence number, messages, timed-out names.\<close>

fun tick_queries :: "(alias_message \<Rightarrow> bytes) \<Rightarrow> time \<Rightarrow> (u64 \<times> 'u query_slot) list \<Rightarrow> u16 \<Rightarrow>
    (u64 \<times> 'u query_slot) list \<times> u16 \<times> 'u alias_output list \<times> u64 list" where
  "tick_queries ser now [] sq = ([], sq, [], [])"
| "tick_queries ser now ((alias, slot) # qs) sq =
     (case qs_state slot of
        CheckHint _ started_at \<Rightarrow>
          if started_at + HINT_TIMEOUT_MS \<le> now then
            (let (qs', sq', out, timeout) = tick_queries ser now qs (sq + 1)
             in ((alias, slot\<lparr>qs_state := Scan now\<rparr>) # qs', sq',
                 alias_send_to ser (ToServices (qs_service slot) (qs_level slot) sq) (AScan alias) # out, timeout))
          else
            (let (qs', sq', out, timeout) = tick_queries ser now qs sq in ((alias, slot) # qs', sq', out, timeout))
      | Scan started_at \<Rightarrow>
          (let (qs', sq', out, timeout) = tick_queries ser now qs sq
           in ((alias, slot) # qs', sq', out, if started_at + SCAN_TIMEOUT_MS \<le> now then alias # timeout else timeout)))"

definition expire_query :: "u64 \<Rightarrow> 'u alias_feature \<Rightarrow> 'u alias_feature run" where
  "expire_query alias f =
     do {
       slot \<leftarrow> map_of (af_queries f) alias;
       Some (af_push (answer_all alias None slot) (f\<lparr>af_queries := hm_remove alias (af_queries f)\<rparr>))
     }"

definition af_on_shared_input :: "(alias_message \<Rightarrow> bytes) \<Rightarrow> time \<Rightarrow> feature_shared_input \<Rightarrow> 'u alias_feature \<Rightarrow> 'u alias_feature run" where
  "af_on_shared_input ser now input f =
     (case input of
        Tick _ \<Rightarrow>
          (let (qs, sq, out, timeout) = tick_queries ser now (af_queries f) (af_scan_seq f)
           in for_run expire_query timeout (af_push out (f\<lparr>af_queries := qs, af_scan_seq := sq\<rparr>)))
      | _ \<Rightarrow> Some f)"

definition af_on_message :: "(alias_message \<Rightarrow> bytes) \<Rightarrow> (bytes \<Rightarrow> alias_message option) \<Rightarrow> time \<Rightarrow> net_incoming_meta \<Rightarrow> bytes \<Rightarrow>
    'u alias_feature \<Rightarrow> 'u alias_feature" where
  "af_on_message ser de now meta buf f =
     (if \<not> im_secure meta then f
      else (case (im_source meta, de buf) of
          (Some from, Some msg) \<Rightarrow> process_remote ser now from msg f
        | _ \<Rightarrow> f))"

definition af_on_input :: "(alias_message \<Rightarrow> bytes) \<Rightarrow> (bytes \<Rightarrow> alias_message option) \<Rightarrow> time \<Rightarrow> ('u, alias_control, unit) feature_input \<Rightarrow>
    'u alias_feature \<Rightarrow> 'u alias_feature" where
  "af_on_input ser de now input f =
     (case input of
        Control actor control \<Rightarrow> process_control ser now actor control f
      | LocalMsg meta buf \<Rightarrow> af_on_message ser de now meta buf f
      | NetMsg _ meta buf \<Rightarrow> af_on_message ser de now meta buf f
      | FromWorker _ \<Rightarrow> f)"

definition af_on_shutdown :: "'u alias_feature \<Rightarrow> 'u alias_feature" where
  "af_on_shutdown f = f\<lparr>af_shutdown := True\<rparr>"

definition af_is_empty :: "'u alias_feature \<Rightarrow> bool" where
  "af_is_empty f \<longleftrightarrow> af_shutdown f \<and> af_queue f = []"

definition af_pop_output :: "'u alias_feature \<Rightarrow> 'u alias_output option \<times> 'u alias_feature" where
  "af_pop_output f = (case af_queue f of [] \<Rightarrow> (None, f) | x # q \<Rightarrow> (Some x, f\<lparr>af_queue := q\<rparr>))"

record 'u alias_worker =
  aw_queue :: "('u, alias_control, alias_event, unit) feature_worker_output list"
  aw_shutdown :: bool

definition aw_on_input :: "('u, alias_control, unit) feature_worker_input \<Rightarrow> 'u alias_worker \<Rightarrow> 'u alias_worker" where
  "aw_on_input input w =
     (case input of
        WControl actor c \<Rightarrow> w\<lparr>aw_queue := aw_queue w @ [WForwardControl actor c]\<rparr>
      | WNetwork conn h buf \<Rightarrow> w\<lparr>aw_queue := aw_queue w @ [WForwardNetwork conn h buf]\<rparr>
      | WTunPkt _ \<Rightarrow> w
      | WFromController _ _ \<Rightarrow> w
      | WLocal h buf \<Rightarrow> w\<lparr>aw_queue := aw_queue w @ [WForwardLocal h buf]\<rparr>)"

definition aw_is_empty :: "'u alias_worker \<Rightarrow> bool" where
  "aw_is_empty w \<longleftrightarrow> aw_shutdown w \<and> aw_queue w = []"

subsection \<open>Bookkeeping of queries\<close>

text \<open>The pairs of a name and an actor that wait for an answer, and those answered so far.\<close>

definition slot_waiting :: "u64 \<Rightarrow> 'u query_slot \<Rightarrow> (u64 \<times> 'u feature_actor) multiset" where
  "slot_waiting alias slot = image_mset (Pair alias) (mset (qs_waiters slot))"

fun waiting :: "(u64 \<times> 'u query_slot) list \<Rightarrow> (u64 \<times> 'u feature_actor) multiset" where
  "waiting [] = {#}"
| "waiting ((alias, slot) # qs) = slot_waiting alias slot + waiting qs"

fun answer_of :: "'u alias_output \<Rightarrow> (u64 \<times> 'u feature_actor) option" where
  "answer_of (OutEvent a (QueryResult alias loc)) = Some (alias, a)"
| "answer_of _ = None"

definition answered :: "'u alias_output list \<Rightarrow> (u64 \<times> 'u feature_actor) multiset" where
  "answered out = mset (List.map_filter answer_of out)"

lemma answered_simps [simp]:
  "answered [] = {#}" "answered (out @ out') = answered out + answered out'"
  "answered (x # out) = (case answer_of x of Some p \<Rightarrow> {#p#} | None \<Rightarrow> {#}) + answered out"
  by (simp_all add: answered_def List.map_filter_def split: option.split)

lemma answer_of_send [simp]: "answer_of (alias_send_to ser rule msg) = None"
  by (simp add: alias_send_to_def)

lemma answered_all [simp]: "answered (answer_all alias loc slot) = slot_waiting alias slot"
proof -
  have "answered (map (\<lambda>a. OutEvent a (QueryResult alias loc)) ws) = image_mset (Pair alias) (mset ws)" for ws :: "'a feature_actor list"
    by (induction ws) simp_all
  then show ?thesis by (simp add: answer_all_def slot_waiting_def)
qed

lemma waiting_remove: "wf_map qs \<Longrightarrow> map_of qs k = Some slot \<Longrightarrow> waiting qs = slot_waiting k slot + waiting (hm_remove k qs)"
proof (induction qs)
  case (Cons x qs)
  then show ?case by (cases x) (auto simp: ac_simps split: if_splits)
qed simp

lemma waiting_new: "map_of qs k = None \<Longrightarrow> waiting (hm_insert k slot qs) = waiting qs + slot_waiting k slot"
proof (induction qs)
  case (Cons x qs)
  then show ?case by (cases x) (auto split: if_splits)
qed simp

lemma waiting_update:
  "map_of qs k = Some slot \<Longrightarrow> waiting (hm_insert k slot' qs) + slot_waiting k slot = waiting qs + slot_waiting k slot'"
proof (induction qs)
  case (Cons x qs)
  then show ?case by (cases x) (auto simp: ac_simps split: if_splits)
qed simp

lemma slot_waiting_simps [simp]:
  "slot_waiting k (slot\<lparr>qs_state := st\<rparr>) = slot_waiting k slot"
  "slot_waiting k (slot\<lparr>qs_waiters := qs_waiters slot @ [a]\<rparr>) = add_mset (k, a) (slot_waiting k slot)"
  by (simp_all add: slot_waiting_def)

definition ledger :: "'u alias_feature \<Rightarrow> (u64 \<times> 'u feature_actor) multiset" where
  "ledger f = waiting (af_queries f) + answered (af_queue f)"

lemma af_push_simps [simp]:
  "af_queries (af_push out f) = af_queries f" "af_queue (af_push out f) = af_queue f @ out"
  "af_local_slots (af_push out f) = af_local_slots f" "af_hint_slots (af_push out f) = af_hint_slots f"
  by (simp_all add: af_push_def)

text \<open>What an input asks.\<close>

fun asks :: "'u feature_actor \<Rightarrow> alias_control \<Rightarrow> (u64 \<times> 'u feature_actor) multiset" where
  "asks actor (Query alias _ _) = {#(alias, actor)#}"
| "asks actor _ = {#}"

lemma process_control_ledger:
  assumes "wf_map (af_queries f)"
  shows "wf_map (af_queries (process_control ser now a c f)) \<and> ledger (process_control ser now a c f) = ledger f + asks a c"
proof (cases c)
  case (Query al service level)
  show ?thesis
  proof (cases "map_of (af_queries f) al")
    case None
    then show ?thesis using assms Query
      by (auto simp: ledger_def gen_seq_def waiting_new slot_waiting_def wf_hm_insert split: option.split)
  next
    case (Some slot)
    have "waiting (hm_insert al (slot\<lparr>qs_waiters := qs_waiters slot @ [a]\<rparr>) (af_queries f)) = add_mset (al, a) (waiting (af_queries f))"
      using waiting_update [OF Some, of "slot\<lparr>qs_waiters := qs_waiters slot @ [a]\<rparr>"] by simp
    then show ?thesis using assms Query Some by (auto simp: ledger_def wf_hm_insert)
  qed
qed (use assms in \<open>simp_all add: ledger_def gen_seq_def\<close>)

lemma ledger_answer:
  assumes "wf_map (af_queries f)" "map_of (af_queries f) k = Some slot" "af_queue f' = af_queue f" "af_queries f' = hm_remove k (af_queries f)"
  shows "ledger (af_push (answer_all k loc slot) f') = ledger f"
  using waiting_remove [OF assms(1,2)] assms(3,4) by (simp add: ledger_def)

lemma process_remote_ledger:
  assumes "wf_map (af_queries f)"
  shows "wf_map (af_queries (process_remote ser now n msg f)) \<and> ledger (process_remote ser now n msg f) = ledger f"
proof (cases msg)
  case (ANotify al)
  then show ?thesis using assms ledger_answer [OF assms, of al]
    by (auto simp: Let_def wf_hm_remove split: option.split) (simp add: ledger_def)
next
  case (AScan al)
  then show ?thesis using assms by (auto simp: ledger_def)
next
  case (ACheck al)
  then show ?thesis using assms by (auto simp: ledger_def)
next
  case (AFound al found)
  show ?thesis
  proof (cases "map_of (af_queries f) al")
    case None
    then show ?thesis using assms AFound by (auto simp: ledger_def)
  next
    case (Some slot)
    have rescan: "waiting (hm_insert al (slot\<lparr>qs_state := st\<rparr>) (af_queries f)) = waiting (af_queries f)" for st
      using waiting_update [OF Some, of "slot\<lparr>qs_state := st\<rparr>"] by simp
    have answer: "ledger (af_push (answer_all al loc slot) (f\<lparr>af_hint_slots := h, af_queries := hm_remove al (af_queries f)\<rparr>)) = ledger f" for loc h
      by (rule ledger_answer [OF assms Some]) simp_all
    show ?thesis using assms AFound Some answer
      by (cases "qs_state slot") (auto simp: Let_def ledger_def gen_seq_def rescan wf_hm_insert wf_hm_remove)
  qed
qed

subsection \<open>Ticks\<close>

fun query_start :: "query_state \<Rightarrow> time" where
  "query_start (CheckHint _ t) = t"
| "query_start (Scan t) = t"

fun tick_state :: "time \<Rightarrow> query_state \<Rightarrow> query_state" where
  "tick_state now (CheckHint n t) = (if t + HINT_TIMEOUT_MS \<le> now then Scan now else CheckHint n t)"
| "tick_state now (Scan t) = Scan t"

fun scan_expired :: "time \<Rightarrow> query_state \<Rightarrow> bool" where
  "scan_expired now (Scan t) \<longleftrightarrow> t + SCAN_TIMEOUT_MS \<le> now"
| "scan_expired now (CheckHint n t) \<longleftrightarrow> False"

lemma slot_same_state: "qs_state slot = st \<Longrightarrow> slot\<lparr>qs_state := st\<rparr> = slot"
  by (cases slot) simp

lemma tick_queries_eq:
  "tick_queries ser now qs sq = (qs', sq', out, timeout) \<Longrightarrow>
     qs' = map (\<lambda>(k, slot). (k, slot\<lparr>qs_state := tick_state now (qs_state slot)\<rparr>)) qs \<and>
     timeout = map fst (filter (\<lambda>(k, slot). scan_expired now (qs_state slot)) qs) \<and> answered out = {#}"
proof (induction qs arbitrary: sq qs' sq' out timeout)
  case (Cons x qs)
  obtain k slot where x: "x = (k, slot)" by (cases x)
  obtain qs2 sq2 out2 timeout2 where r: "tick_queries ser now qs sq = (qs2, sq2, out2, timeout2)" by (metis prod_cases4)
  obtain qs3 sq3 out3 timeout3 where r1: "tick_queries ser now qs (sq + 1) = (qs3, sq3, out3, timeout3)" by (metis prod_cases4)
  from Cons.IH [OF r] Cons.IH [OF r1] Cons.prems show ?case
    by (cases "qs_state slot") (auto simp: x r r1 slot_same_state split: if_splits)
qed simp

lemma waiting_map_state: "waiting (map (\<lambda>(k, slot). (k, slot\<lparr>qs_state := st k slot\<rparr>)) qs) = waiting qs"
  by (induction qs) auto

lemma expire_run:
  assumes "wf_map (af_queries f)" "distinct ks" "set ks \<subseteq> fst ` set (af_queries f)"
  shows "\<exists>f'. for_run expire_query ks f = Some f' \<and> ledger f' = ledger f \<and>
    af_queries f' = filter (\<lambda>(k, _). k \<notin> set ks) (af_queries f)"
  using assms
proof (induction ks arbitrary: f)
  case Nil
  then show ?case by simp
next
  case (Cons k ks)
  obtain slot where slot: "map_of (af_queries f) k = Some slot"
    using Cons.prems(3) by (metis list.set_intros(1) map_of_eq_None_iff not_None_eq subsetD)
  let ?f1 = "af_push (answer_all k None slot) (f\<lparr>af_queries := hm_remove k (af_queries f)\<rparr>)"
  have f1: "expire_query k f = Some ?f1" "ledger ?f1 = ledger f"
    using slot ledger_answer [OF Cons.prems(1) slot] by (simp_all add: expire_query_def)
  have q1: "af_queries ?f1 = filter (\<lambda>(k', _). k' \<noteq> k) (af_queries f)"
    by (auto simp: AList.delete_eq intro: filter_cong)
  have "wf_map (af_queries ?f1)" using Cons.prems(1) by (simp add: wf_hm_remove)
  moreover have "set ks \<subseteq> fst ` set (af_queries ?f1)" using Cons.prems(2,3) unfolding q1 by force
  ultimately obtain f' where "for_run expire_query ks ?f1 = Some f'" "ledger f' = ledger ?f1"
      "af_queries f' = filter (\<lambda>(k, _). k \<notin> set ks) (af_queries ?f1)"
    using Cons.IH [of ?f1] Cons.prems(2) by auto
  then show ?case using f1 unfolding q1 by (auto intro!: filter_cong)
qed

lemma tick_spec:
  assumes "wf_map (af_queries f)"
  shows "\<exists>f'. af_on_shared_input ser now (Tick n) f = Some f' \<and> wf_map (af_queries f') \<and> ledger f' = ledger f \<and>
    (\<forall>k slot'. (k, slot') \<in> set (af_queries f') \<longrightarrow>
       (\<exists>slot. (k, slot) \<in> set (af_queries f) \<and> qs_state slot' = tick_state now (qs_state slot) \<and> \<not> scan_expired now (qs_state slot)))"
proof -
  obtain qs sq out timeout where r: "tick_queries ser now (af_queries f) (af_scan_seq f) = (qs, sq, out, timeout)" by (metis prod_cases4)
  note eq = tick_queries_eq [OF r, THEN conjunct1] tick_queries_eq [OF r, THEN conjunct2, THEN conjunct1]
    tick_queries_eq [OF r, THEN conjunct2, THEN conjunct2]
  let ?f1 = "af_push out (f\<lparr>af_queries := qs, af_scan_seq := sq\<rparr>)"
  have keys: "map fst qs = map fst (af_queries f)" by (simp add: eq(1) split_beta comp_def)
  have wf1: "wf_map (af_queries ?f1)" using assms keys by simp
  have "ledger ?f1 = ledger f" by (simp add: ledger_def eq(1,3) waiting_map_state)
  moreover have "distinct timeout" unfolding eq(2) using assms by (rule distinct_map_filter)
  moreover have "set timeout \<subseteq> fst ` set (af_queries ?f1)"
    using keys by (auto simp: eq(2)) (metis fst_conv image_eqI list.set_map)
  ultimately obtain f' where f': "for_run expire_query timeout ?f1 = Some f'" "ledger f' = ledger f"
      "af_queries f' = filter (\<lambda>(k, _). k \<notin> set timeout) qs"
    using expire_run [OF wf1, of timeout] by auto
  have "\<exists>slot. (k, slot) \<in> set (af_queries f) \<and> qs_state slot' = tick_state now (qs_state slot) \<and> \<not> scan_expired now (qs_state slot)"
    if in': "(k, slot') \<in> set (af_queries f')" for k slot'
  proof -
    obtain slot where "(k, slot) \<in> set (af_queries f)" "slot' = slot\<lparr>qs_state := tick_state now (qs_state slot)\<rparr>" "k \<notin> set timeout"
      using in' by (auto simp: f'(3) eq(1))
    then show ?thesis by (intro exI [of _ slot]) (force simp: eq(2))
  qed
  moreover have "wf_map (af_queries f')" using wf1 by (simp add: f'(3) wf_hm_filter)
  ultimately show ?thesis using f'(1,2) by (simp add: af_on_shared_input_def r)
qed

subsection \<open>Every query is answered exactly once\<close>

datatype 'u af_input =
    AfShared time feature_shared_input
  | AfInput time "('u, alias_control, unit) feature_input"
  | AfShutdown

fun af_step :: "(alias_message \<Rightarrow> bytes) \<Rightarrow> (bytes \<Rightarrow> alias_message option) \<Rightarrow> 'u af_input \<Rightarrow> 'u alias_feature \<Rightarrow> 'u alias_feature run" where
  "af_step ser de (AfShared now input) f = af_on_shared_input ser now input f"
| "af_step ser de (AfInput now input) f = Some (af_on_input ser de now input f)"
| "af_step ser de AfShutdown f = Some (af_on_shutdown f)"

fun input_asks :: "'u af_input \<Rightarrow> (u64 \<times> 'u feature_actor) multiset" where
  "input_asks (AfInput now (Control actor c)) = asks actor c"
| "input_asks _ = {#}"

definition asked :: "'u af_input list \<Rightarrow> (u64 \<times> 'u feature_actor) multiset" where
  "asked ins = sum_list (map input_asks ins)"

lemma af_on_message_ledger:
  "wf_map (af_queries f) \<Longrightarrow> wf_map (af_queries (af_on_message ser de now meta buf f)) \<and> ledger (af_on_message ser de now meta buf f) = ledger f"
  by (simp add: af_on_message_def process_remote_ledger split: option.split)

lemma af_step_ledger:
  assumes "wf_map (af_queries f)"
  shows "\<exists>f'. af_step ser de i f = Some f' \<and> wf_map (af_queries f') \<and> ledger f' = ledger f + input_asks i"
proof (cases i)
  case (AfShared now input)
  then show ?thesis using tick_spec [OF assms, of ser now] assms by (cases input) (auto simp: af_on_shared_input_def)
next
  case (AfInput now input)
  then show ?thesis using process_control_ledger [OF assms] af_on_message_ledger [OF assms] assms
    by (cases input) (simp_all add: af_on_input_def)
next
  case AfShutdown
  then show ?thesis using assms by (simp add: af_on_shutdown_def ledger_def)
qed

lemma af_run_ledger:
  assumes "wf_map (af_queries f)"
  shows "\<exists>f'. for_run (af_step ser de) ins f = Some f' \<and> wf_map (af_queries f') \<and> ledger f' = ledger f + asked ins"
  using assms
proof (induction ins arbitrary: f)
  case (Cons i ins)
  obtain f1 where "af_step ser de i f = Some f1" "wf_map (af_queries f1)" "ledger f1 = ledger f + input_asks i"
    using af_step_ledger [OF Cons.prems] by blast
  moreover from Cons.IH [OF this(2)] obtain f2 where "for_run (af_step ser de) ins f1 = Some f2" "wf_map (af_queries f2)" "ledger f2 = ledger f1 + asked ins"
    by blast
  ultimately show ?case by (auto simp: asked_def ac_simps)
qed (simp add: asked_def)

text \<open>
  The alias feature never panics and answers every query at most once: after any inputs the queries asked, each a
  name and an actor counted as often as it asked, are exactly those answered together with those still waiting.
\<close>

theorem alias_queries_conserved:
  "\<exists>f. for_run (af_step ser de) ins af_default = Some f \<and> asked ins = answered (af_queue f) + waiting (af_queries f)"
  using af_run_ledger [of af_default ser de ins] by (auto simp: af_default_def ledger_def ac_simps)

text \<open>Start times of the open queries.\<close>

definition started_by :: "time \<Rightarrow> 'u alias_feature \<Rightarrow> bool" where
  "started_by T f \<longleftrightarrow> (\<forall>k slot. (k, slot) \<in> set (af_queries f) \<longrightarrow> query_start (qs_state slot) \<le> T)"

fun input_time :: "'u af_input \<Rightarrow> time" where
  "input_time (AfShared now _) = now"
| "input_time (AfInput now _) = now"
| "input_time AfShutdown = 0"

lemma started_byI: "(\<And>k slot. (k, slot) \<in> set (af_queries f) \<Longrightarrow> query_start (qs_state slot) \<le> T) \<Longrightarrow> started_by T f"
  by (simp add: started_by_def)

lemma started_by_mono:
  assumes "started_by T f" "set (af_queries f') \<subseteq> set (af_queries f)"
  shows "started_by T f'"
  using assms by (auto simp: started_by_def)

lemma set_hm_insert: "wf_map m \<Longrightarrow> set (hm_insert k v m) \<subseteq> insert (k, v) (set m)"
  by (induction m) auto

lemma set_hm_remove: "set (hm_remove k m) \<subseteq> set m"
  by (auto simp: AList.delete_eq)

lemma started_by_insert:
  assumes "started_by T f" "wf_map (af_queries f)" "query_start (qs_state slot) \<le> T" "af_queries f' = hm_insert k slot (af_queries f)"
  shows "started_by T f'"
  using assms(1,3) set_hm_insert [OF assms(2), of k slot] by (auto simp: started_by_def assms(4))

lemma started_by_slot: "started_by T f \<Longrightarrow> map_of (af_queries f) k = Some slot \<Longrightarrow> query_start (qs_state slot) \<le> T"
  by (auto simp: started_by_def dest: map_of_SomeD)

lemma process_control_started:
  assumes "started_by T f" "wf_map (af_queries f)" "now \<le> T"
  shows "started_by T (process_control ser now a c f)"
proof (cases c)
  case (Query k service level)
  have new: "started_by T f'" if "af_queries f' = hm_insert k slot (af_queries f)" "query_start (qs_state slot) \<le> T" for f' slot
    using started_by_insert [OF assms(1,2) that(2,1)] .
  have same: "started_by T f'" if "af_queries f' = af_queries f" for f' using started_by_mono [OF assms(1)] that by simp
  show ?thesis
    using assms(1,3) started_by_slot [OF assms(1), of k] Query
    by (auto simp: gen_seq_def intro: same new split: option.split)
qed (use assms(1) in \<open>auto simp: gen_seq_def intro: started_by_mono\<close>)

lemma process_remote_started:
  assumes "started_by T f" "wf_map (af_queries f)" "now \<le> T"
  shows "started_by T (process_remote ser now n msg f)"
proof -
  have same: "started_by T f'" if "af_queries f' = af_queries f" for f' using started_by_mono [OF assms(1)] that by simp
  have rem: "started_by T f'" if "af_queries f' = hm_remove k (af_queries f)" for f' k
    using started_by_mono [OF assms(1)] that set_hm_remove by metis
  have ins: "started_by T f'" if "af_queries f' = hm_insert k (slot\<lparr>qs_state := Scan now\<rparr>) (af_queries f)" for f' k slot
    using started_by_insert [OF assms(1,2) _ that] assms(3) by simp
  show ?thesis
    by (cases msg) (auto simp: gen_seq_def Let_def intro: same rem ins split: option.split query_state.split)
qed

lemma tick_started:
  assumes "started_by T f" "wf_map (af_queries f)" "now \<le> T" "af_on_shared_input ser now (Tick n) f = Some f'"
  shows "started_by T f'"
proof (rule started_byI)
  fix k slot' assume "(k, slot') \<in> set (af_queries f')"
  then obtain slot where "(k, slot) \<in> set (af_queries f)" "qs_state slot' = tick_state now (qs_state slot)"
    using tick_spec [OF assms(2), of ser now n] assms(4) by auto
  moreover from this(1) have "query_start (qs_state slot) \<le> T" using assms(1) by (auto simp: started_by_def)
  ultimately show "query_start (qs_state slot') \<le> T" using assms(3) by (cases "qs_state slot") auto
qed

lemma af_step_started:
  assumes "started_by T f" "wf_map (af_queries f)" "input_time i \<le> T" "af_step ser de i f = Some f'"
  shows "started_by T f'"
proof (cases i)
  case (AfShared now input)
  then show ?thesis using assms tick_started [OF assms(1,2)] by (cases input) (auto simp: af_on_shared_input_def)
next
  case (AfInput now input)
  have "started_by T (af_on_message ser de now meta buf f)" for meta buf
    using process_remote_started [OF assms(1,2)] assms(1,3) AfInput by (auto simp: af_on_message_def split: option.split)
  then show ?thesis using AfInput assms process_control_started [OF assms(1,2)] by (cases input) (auto simp: af_on_input_def)
next
  case AfShutdown
  then show ?thesis using assms(1,4) by (auto simp: af_on_shutdown_def intro: started_by_mono)
qed

lemma af_run_started:
  assumes "started_by T f" "wf_map (af_queries f)" "\<forall>i\<in>set ins. input_time i \<le> T" "for_run (af_step ser de) ins f = Some f'"
  shows "started_by T f'"
  using assms
proof (induction ins arbitrary: f)
  case (Cons i ins)
  obtain f1 where f1: "af_step ser de i f = Some f1" "wf_map (af_queries f1)" using af_step_ledger [OF Cons.prems(2)] by blast
  with Cons.prems have "started_by T f1" "for_run (af_step ser de) ins f1 = Some f'" by (auto intro: af_step_started)
  with Cons.IH f1(2) Cons.prems(3) show ?case by simp
qed simp

text \<open>Two ticks end every query: the first turns an unanswered hint into a scan, the second ends the scan.\<close>

lemma two_ticks:
  assumes "wf_map (af_queries f)" "started_by T f" "T + SCAN_TIMEOUT_MS \<le> t1" "t1 + SCAN_TIMEOUT_MS \<le> t2"
  shows "\<exists>f'. for_run (af_step ser de) [AfShared t1 (Tick n1), AfShared t2 (Tick n2)] f = Some f' \<and> af_queries f' = []"
proof -
  obtain f1 where f1: "af_on_shared_input ser t1 (Tick n1) f = Some f1" "wf_map (af_queries f1)"
    "\<forall>k slot'. (k, slot') \<in> set (af_queries f1) \<longrightarrow>
       (\<exists>slot. (k, slot) \<in> set (af_queries f) \<and> qs_state slot' = tick_state t1 (qs_state slot) \<and> \<not> scan_expired t1 (qs_state slot))"
    using tick_spec [OF assms(1), of ser t1 n1] by blast
  have scan: "qs_state slot' = Scan t1" if in1: "(k, slot') \<in> set (af_queries f1)" for k slot'
  proof -
    obtain slot where s: "(k, slot) \<in> set (af_queries f)" "qs_state slot' = tick_state t1 (qs_state slot)" "\<not> scan_expired t1 (qs_state slot)"
      using f1(3) in1 by blast
    have "query_start (qs_state slot) \<le> T" using assms(2) s(1) by (auto simp: started_by_def)
    then show ?thesis using s(2,3) assms(3) by (cases "qs_state slot") (auto simp: HINT_TIMEOUT_MS_def SCAN_TIMEOUT_MS_def)
  qed
  obtain f2 where f2: "af_on_shared_input ser t2 (Tick n2) f1 = Some f2"
    "\<forall>k slot'. (k, slot') \<in> set (af_queries f2) \<longrightarrow>
       (\<exists>slot. (k, slot) \<in> set (af_queries f1) \<and> qs_state slot' = tick_state t2 (qs_state slot) \<and> \<not> scan_expired t2 (qs_state slot))"
    using tick_spec [OF f1(2), of ser t2 n2] by blast
  have "(k, slot') \<notin> set (af_queries f2)" for k slot'
  proof
    assume "(k, slot') \<in> set (af_queries f2)"
    then obtain slot where "(k, slot) \<in> set (af_queries f1)" "\<not> scan_expired t2 (qs_state slot)" using f2(2) by blast
    then show False using scan [of k slot] assms(4) by simp
  qed
  then have "af_queries f2 = []" by (cases "af_queries f2") auto
  then show ?thesis using f1(1) f2(1) by simp
qed

text \<open>
  C23. No query waits for ever. Take any inputs up to time \<open>T\<close>, then a tick at least five seconds later and another
  five seconds after that: nothing waits any more, and every query asked has been answered exactly once.
\<close>

theorem alias_queries_all_answered:
  assumes "\<forall>i\<in>set ins. input_time i \<le> T" "T + SCAN_TIMEOUT_MS \<le> t1" "t1 + SCAN_TIMEOUT_MS \<le> t2"
  shows "\<exists>f. for_run (af_step ser de) (ins @ [AfShared t1 (Tick n1), AfShared t2 (Tick n2)]) af_default = Some f \<and>
    af_queries f = [] \<and> answered (af_queue f) = asked ins"
proof -
  let ?ticks = "[AfShared t1 (Tick n1), AfShared t2 (Tick n2)]"
  have wf0: "wf_map (af_queries af_default)" "started_by T af_default" by (simp_all add: af_default_def started_by_def)
  obtain f where f: "for_run (af_step ser de) ins af_default = Some f" "wf_map (af_queries f)" "ledger f = ledger af_default + asked ins"
    using af_run_ledger [OF wf0(1)] by blast
  have "started_by T f" by (rule af_run_started [OF wf0(2,1) assms(1) f(1)])
  then obtain f' where f': "for_run (af_step ser de) ?ticks f = Some f'" "af_queries f' = []"
    using two_ticks [OF f(2) _ assms(2,3)] by blast
  have "ledger f' = ledger f + asked ?ticks"
    using af_run_ledger [OF f(2), of ser de ?ticks] f'(1) by auto
  then have "answered (af_queue f') = asked ins"
    using f'(2) f(3) by (simp add: ledger_def asked_def af_default_def)
  then show ?thesis using f(1) f' by (intro exI [of _ f'] conjI) (simp_all add: for_run_append del: for_run.simps)
qed

theorem alias_queries_all_answered_witness:
  "\<exists>f. for_run (af_step (\<lambda>_. []) (\<lambda>_. None)) ([AfInput 10 (Control (ActorService 1) (Query 7 0 Global)),
        AfInput 20 (Control (ActorService 2) (Query 7 0 Global))] @ [AfShared 6000 (Tick 1), AfShared 12000 (Tick 2)]) af_default = Some f \<and>
    af_queries f = [] \<and> answered (af_queue f) = {#(7, ActorService 1 :: unit feature_actor), (7, ActorService 2)#}"
  using alias_queries_all_answered [of "[AfInput 10 (Control (ActorService 1) (Query 7 0 Global)),
        AfInput 20 (Control (ActorService 2) (Query 7 0 Global))]" 20 6000 12000 "\<lambda>_. []" "\<lambda>_. None" 1 2]
  by (simp add: SCAN_TIMEOUT_MS_def asked_def add_mset_commute del: for_run.simps)

subsection \<open>A scan finds the registered node\<close>

definition alias_meta :: net_outgoing_meta where
  "alias_meta = \<lparr>om_source = True, om_ttl = DEFAULT_MSG_TTL, om_meta = 0, om_secure = True\<rparr>"

text \<open>
  C24. A name registered at another node is found. Node \<open>a\<close>, which knows nothing of the name, asks the service;
  node \<open>b\<close>, where the name is registered, answers to \<open>a\<close>; the actor that asked is told \<open>b\<close>, and for the next two
  seconds further queries are answered from the hint at once.
\<close>

theorem alias_scan_finds:
  assumes "de (ser (AScan k)) = Some (AScan k)" "de (ser (AFound k True)) = Some (AFound k True)"
    and "af_local_slots f k = None" "map_of (af_queries f) k = None" "af_hint_slots f k = None"
    and "af_local_slots g k \<noteq> None" "t3 \<le> t2 + HINT_TIMEOUT_MS"
  shows "\<exists>f1 g1 f2 sq. process_control ser t x (Query k service level) f = f1 \<and>
     af_queue f1 = af_queue f @ [OutSendRoute (ToServices service level sq) alias_meta (ser (AScan k))] \<and>
     af_on_message ser de t1 (to_incoming alias_meta a) (ser (AScan k)) g = g1 \<and>
     af_queue g1 = af_queue g @ [OutSendRoute (ToNode a) alias_meta (ser (AFound k True))] \<and>
     af_on_message ser de t2 (to_incoming alias_meta b) (ser (AFound k True)) f1 = f2 \<and>
     af_queue f2 = af_queue f1 @ [OutEvent x (QueryResult k (Some (RemoteScan b)))] \<and> map_of (af_queries f2) k = None \<and>
     af_queue (process_control ser t3 y (Query k service level) f2) = af_queue f2 @ [OutEvent y (QueryResult k (Some (CachedHint b)))]"
  using assms
  by (auto simp: gen_seq_def af_on_message_def to_incoming_def alias_meta_def alias_send_to_def answer_all_def Let_def af_push_def)

theorem alias_scan_finds_witness:
  "let ser = (\<lambda>m. case m of AScan _ \<Rightarrow> [1] | _ \<Rightarrow> [2]); de = (\<lambda>b. if b = [1] then Some (AScan 7) else Some (AFound 7 True));
       g = af_default\<lparr>af_local_slots := [7 \<mapsto> 5]\<rparr>
   in \<exists>f1 g1 f2. process_control ser 10 (ActorService 1 :: unit feature_actor) (Query 7 0 Global) af_default = f1 \<and>
     af_on_message ser de 20 (to_incoming alias_meta 8) (ser (AScan 7)) (g :: unit alias_feature) = g1 \<and>
     OutSendRoute (ToNode 8) alias_meta (ser (AFound 7 True)) \<in> set (af_queue g1) \<and>
     af_on_message ser de 30 (to_incoming alias_meta 9) (ser (AFound 7 True)) f1 = f2 \<and>
     OutEvent (ActorService 1) (QueryResult 7 (Some (RemoteScan 9))) \<in> set (af_queue f2)"
proof -
  define ser where "ser = (\<lambda>m. case m of AScan _ \<Rightarrow> [1 :: u8] | _ \<Rightarrow> [2])"
  define de where "de = (\<lambda>b. if b = [1 :: u8] then Some (AScan 7) else Some (AFound 7 True))"
  define g where "g = (af_default :: unit alias_feature)\<lparr>af_local_slots := [7 \<mapsto> 5]\<rparr>"
  have "de (ser (AScan 7)) = Some (AScan 7)" "de (ser (AFound 7 True)) = Some (AFound 7 True)"
    "af_local_slots (af_default :: unit alias_feature) 7 = None" "map_of (af_queries (af_default :: unit alias_feature)) 7 = None"
    "af_hint_slots (af_default :: unit alias_feature) 7 = None" "af_local_slots g 7 \<noteq> None" "(30 :: time) \<le> 30 + HINT_TIMEOUT_MS"
    by (simp_all add: ser_def de_def g_def af_default_def)
  from alias_scan_finds [OF this, of 10 "ActorService 1" 0 Global 20 8 9 "ActorService 2"]
  obtain f1 g1 f2 where
    "process_control ser 10 (ActorService 1 :: unit feature_actor) (Query 7 0 Global) af_default = f1"
    "af_on_message ser de 20 (to_incoming alias_meta 8) (ser (AScan 7)) g = g1"
    "af_queue g1 = af_queue g @ [OutSendRoute (ToNode 8) alias_meta (ser (AFound 7 True))]"
    "af_on_message ser de 30 (to_incoming alias_meta 9) (ser (AFound 7 True)) f1 = f2"
    "af_queue f2 = af_queue f1 @ [OutEvent (ActorService 1) (QueryResult 7 (Some (RemoteScan 9)))]" by blast
  then have "\<exists>f1 g1 f2. process_control ser 10 (ActorService 1 :: unit feature_actor) (Query 7 0 Global) af_default = f1 \<and>
     af_on_message ser de 20 (to_incoming alias_meta 8) (ser (AScan 7)) g = g1 \<and>
     OutSendRoute (ToNode 8) alias_meta (ser (AFound 7 True)) \<in> set (af_queue g1) \<and>
     af_on_message ser de 30 (to_incoming alias_meta 9) (ser (AFound 7 True)) f1 = f2 \<and>
     OutEvent (ActorService 1) (QueryResult 7 (Some (RemoteScan 9))) \<in> set (af_queue f2)"
    by (intro exI [of _ f1] exI [of _ g1] exI [of _ f2] conjI) (assumption | simp del: process_control.simps)+
  then show ?thesis unfolding Let_def ser_def de_def g_def .
qed

end
