(* ===== verification/Neighbours.thy ===== *)
theory Neighbours
  imports Dht_Msg
begin

text \<open>
  Connections to the neighbours: the signed control messages (\<^verbatim>\<open>base/control.rs\<close>), the state machine of one connection
  (\<^verbatim>\<open>controller_plane/neighbours/connection.rs\<close>) and the manager of all of them (\<^verbatim>\<open>controller_plane/neighbours.rs\<close>).

  Parameters: the authorization (\<open>sign\<close>, \<open>validate\<close>), \<^verbatim>\<open>bincode\<close> (\<open>ser\<close>, \<open>de\<close>), the random source (\<open>rng\<close>, which also
  makes the requester of a new outgoing connection), and the handshake: a requester of type \<open>'r\<close> with \<open>mk_req\<close>
  (\<^verbatim>\<open>create_public_request\<close>) and \<open>on_resp\<close> (\<^verbatim>\<open>process_public_response\<close>), and \<open>respond\<close>, the
  \<^verbatim>\<open>process_public_request\<close> of a fresh responder. Key material has type \<open>'k\<close>. The clock does not run backwards, so
  \<^verbatim>\<open>now_ms - at_ms\<close> is a subtraction of \<open>nat\<close>.
\<close>

subsection \<open>Control messages\<close>

definition MSG_TIMEOUT_MS :: time where "MSG_TIMEOUT_MS = 10000"

datatype connect_error = AlreadyConnected | InvalidSignature | InvalidData | InvalidState
datatype disconnect_reason = ReasonShutdown | ReasonOther

datatype control_cmd =
    ConnectRequest node_id u64 bytes
  | ConnectResponse u64 "connect_error + bytes"
  | Ping u64 u64 time
  | Pong u64 u64 time
  | DisconnectRequest u64 disconnect_reason
  | DisconnectResponse u64

record neighbours_control =
  nc_from :: node_id
  nc_cmd :: bytes
  nc_signature :: bytes

text \<open>The timestamp is a \<^verbatim>\<open>u64\<close> that the sender chose, so its sum with the timeout wraps around.\<close>

definition nc_validate :: "(node_id \<Rightarrow> bytes \<Rightarrow> bytes \<Rightarrow> bool) \<Rightarrow> (bytes \<Rightarrow> (time \<times> control_cmd) option) \<Rightarrow> time \<Rightarrow> neighbours_control \<Rightarrow> control_cmd option" where
  "nc_validate validate de now c =
     (if \<not> validate (nc_from c) (nc_cmd c) (nc_signature c) then None
      else (case de (nc_cmd c) of
          None \<Rightarrow> None
        | Some (ts, cmd) \<Rightarrow> if (ts + MSG_TIMEOUT_MS) mod 2 ^ 64 < now then None else Some cmd))"

definition nc_build :: "(bytes \<Rightarrow> bytes) \<Rightarrow> (time \<times> control_cmd \<Rightarrow> bytes option) \<Rightarrow> time \<Rightarrow> node_id \<Rightarrow> control_cmd \<Rightarrow> neighbours_control run" where
  "nc_build sign ser now from cmd =
     do { buf \<leftarrow> ser (now, cmd); Some \<lparr>nc_from = from, nc_cmd = buf, nc_signature = sign buf\<rparr> }"

definition nc_try_from :: "(bytes \<Rightarrow> neighbours_control option) \<Rightarrow> bytes \<Rightarrow> neighbours_control option" where
  "nc_try_from dec buf = (case buf of [] \<Rightarrow> None | b # rest \<Rightarrow> if b = 255 then dec rest else None)"

definition nc_try_into :: "(neighbours_control \<Rightarrow> bytes option) \<Rightarrow> neighbours_control \<Rightarrow> bytes option" where
  "nc_try_into enc c = map_option (\<lambda>buf. 255 # buf) (enc c)"

subsection \<open>One connection\<close>

definition CONN_INIT_RTT_MS :: u32 where "CONN_INIT_RTT_MS = 1000"
definition RETRY_CMD_MS :: time where "RETRY_CMD_MS = 1000"
definition CONNECT_TIMEOUT_MS :: time where "CONNECT_TIMEOUT_MS = 30000"
definition CONNECTION_TIMEOUT_MS :: time where "CONNECTION_TIMEOUT_MS = 10000"

datatype 'r conn_state =
    OutgoingWait time 'r
  | IncomingWait time
  | StConnectError connect_error
  | StConnectTimeout
  | StConnected time u64 u32 "(bytes \<times> bytes \<times> u64) option"
  | Disconnecting time
  | StDisconnected

text \<open>The fields of \<open>StConnected\<close> are \<^verbatim>\<open>last_pong_ms\<close>, \<^verbatim>\<open>ping_seq\<close>, the round trip time and the stored handshake.\<close>

datatype 'k conn_event =
    CeConnected 'k
  | CeConnectError connect_error
  | CeConnectTimeout
  | CeStats u32
  | CeDisconnected

datatype 'k conn_output = CoEvent "'k conn_event" | CoNet time net_pair control_cmd

record ('r, 'k) neighbour_conn =
  nb_conn :: conn_id
  nb_local :: node_id
  nb_node :: node_id
  nb_pair :: net_pair
  nb_state :: "'r conn_state"
  nb_output :: "'k conn_output list"

definition new_outgoing :: "('r \<Rightarrow> bytes option) \<Rightarrow> 'r \<Rightarrow> node_id \<Rightarrow> node_id \<Rightarrow> u64 \<Rightarrow> net_pair \<Rightarrow> time \<Rightarrow> ('r, 'k) neighbour_conn run" where
  "new_outgoing mk_req r self_id node sess pair now =
     do {
       handshake \<leftarrow> mk_req r;
       Some \<lparr>nb_conn = from_out 0 sess, nb_local = self_id, nb_node = node, nb_pair = pair, nb_state = OutgoingWait now r,
             nb_output = [CoNet now pair (ConnectRequest node sess handshake)]\<rparr>
     }"

definition new_incoming :: "node_id \<Rightarrow> node_id \<Rightarrow> u64 \<Rightarrow> net_pair \<Rightarrow> time \<Rightarrow> ('r, 'k) neighbour_conn" where
  "new_incoming self_id node sess pair now =
     \<lparr>nb_conn = from_in 0 sess, nb_local = self_id, nb_node = node, nb_pair = pair, nb_state = IncomingWait now, nb_output = []\<rparr>"

definition nb_ctx :: "('r, 'k) neighbour_conn \<Rightarrow> connection_ctx" where
  "nb_ctx c = \<lparr>cx_conn = nb_conn c, cx_node = nb_node c, cx_pair = nb_pair c\<rparr>"

abbreviation nb_session :: "('r, 'k) neighbour_conn \<Rightarrow> u64" where
  "nb_session c \<equiv> session (nb_conn c)"

definition nb_push :: "'k conn_output list \<Rightarrow> ('r, 'k) neighbour_conn \<Rightarrow> ('r, 'k) neighbour_conn" where
  "nb_push out c = c\<lparr>nb_output := nb_output c @ out\<rparr>"

definition generate_control :: "('r, 'k) neighbour_conn \<Rightarrow> time \<Rightarrow> control_cmd \<Rightarrow> 'k conn_output" where
  "generate_control c now cmd = CoNet now (nb_pair c) cmd"

definition switch_to_incoming :: "u64 \<Rightarrow> ('r, 'k) neighbour_conn \<Rightarrow> ('r, 'k) neighbour_conn" where
  "switch_to_incoming sess c = c\<lparr>nb_conn := from_in 0 sess\<rparr>"

definition nb_disconnect :: "time \<Rightarrow> ('r, 'k) neighbour_conn \<Rightarrow> ('r, 'k) neighbour_conn" where
  "nb_disconnect now c =
     (let c1 = nb_push [generate_control c now (DisconnectRequest (nb_session c) ReasonOther)] (c\<lparr>nb_state := Disconnecting now\<rparr>)
      in case nb_state c of OutgoingWait _ _ \<Rightarrow> c1 | StConnected _ _ _ _ \<Rightarrow> c1 | _ \<Rightarrow> c)"

definition nb_on_tick :: "('r \<Rightarrow> bytes option) \<Rightarrow> time \<Rightarrow> ('r, 'k) neighbour_conn \<Rightarrow> ('r, 'k) neighbour_conn" where
  "nb_on_tick mk_req now c =
     (case nb_state c of
        OutgoingWait at r \<Rightarrow>
          if CONNECT_TIMEOUT_MS \<le> now - at then nb_push [CoEvent CeConnectTimeout] (c\<lparr>nb_state := StConnectTimeout\<rparr>)
          else if RETRY_CMD_MS \<le> now - at then
            (case mk_req r of
               Some buf \<Rightarrow> nb_push [generate_control c now (ConnectRequest (nb_node c) (nb_session c) buf)] c
             | None \<Rightarrow> c)
          else c
      | IncomingWait at \<Rightarrow>
          if CONNECT_TIMEOUT_MS \<le> now - at then nb_push [CoEvent CeConnectTimeout] (c\<lparr>nb_state := StConnectTimeout\<rparr>) else c
      | StConnected last_pong ping_seq rtt hs \<Rightarrow>
          if CONNECTION_TIMEOUT_MS \<le> now - last_pong then nb_push [CoEvent CeDisconnected] c
          else nb_push [generate_control c now (Ping (nb_session c) (ping_seq + 1) now)]
                 (c\<lparr>nb_state := StConnected last_pong (ping_seq + 1) rtt hs\<rparr>)
      | Disconnecting at \<Rightarrow>
          if CONNECTION_TIMEOUT_MS \<le> now - at then nb_push [CoEvent CeDisconnected] (c\<lparr>nb_state := StDisconnected\<rparr>)
          else nb_push [generate_control c now (DisconnectRequest (nb_session c) ReasonOther)] (c\<lparr>nb_state := Disconnecting now\<rparr>)
      | _ \<Rightarrow> c)"

text \<open>The responder's part of a connect request: the new connection and the result to send.\<close>

definition accept_request :: "(bytes \<Rightarrow> ('k \<times> bytes) option) \<Rightarrow> time \<Rightarrow> u64 \<Rightarrow> bytes \<Rightarrow> ('r, 'k) neighbour_conn \<Rightarrow>
    ('r, 'k) neighbour_conn \<times> (connect_error + bytes)" where
  "accept_request respond now sess handshake c =
     (case respond handshake of
        Some (keys, response) \<Rightarrow>
          (nb_push [CoEvent (CeConnected keys)] (c\<lparr>nb_state := StConnected now 0 CONN_INIT_RTT_MS (Some (handshake, response, sess))\<rparr>),
           Inr response)
      | None \<Rightarrow> (c, Inl InvalidData))"

text \<open>The result of a connect request; \<open>None\<close> is the early return without an answer.\<close>

definition on_connect_request :: "(bytes \<Rightarrow> ('k \<times> bytes) option) \<Rightarrow> time \<Rightarrow> node_id \<Rightarrow> node_id \<Rightarrow> u64 \<Rightarrow> bytes \<Rightarrow> ('r, 'k) neighbour_conn \<Rightarrow>
    (('r, 'k) neighbour_conn \<times> (connect_error + bytes)) option" where
  "on_connect_request respond now from to sess handshake c =
     (if nb_local c = to \<and> nb_node c = from then
        (case nb_state c of
           IncomingWait _ \<Rightarrow> Some (accept_request respond now sess handshake c)
         | OutgoingWait _ _ \<Rightarrow>
             if sess \<le> nb_session c then Some (accept_request respond now sess handshake (switch_to_incoming sess c)) else None
         | StConnected _ _ _ (Some (req, response, remote_session)) \<Rightarrow>
             Some (c, if handshake = req \<and> remote_session = sess then Inr response else Inl InvalidData)
         | StConnected _ _ _ None \<Rightarrow> Some (c, Inl InvalidData)
         | _ \<Rightarrow> Some (c, Inl InvalidState))
      else Some (c, Inl InvalidData))"

fun nb_on_input :: "('r \<Rightarrow> bytes \<Rightarrow> 'k option) \<Rightarrow> (bytes \<Rightarrow> ('k \<times> bytes) option) \<Rightarrow> time \<Rightarrow> node_id \<Rightarrow> control_cmd \<Rightarrow>
    ('r, 'k) neighbour_conn \<Rightarrow> ('r, 'k) neighbour_conn" where
  "nb_on_input on_resp respond now from (ConnectRequest to sess handshake) c =
     (case on_connect_request respond now from to sess handshake c of
        Some (c1, result) \<Rightarrow> nb_push [generate_control c1 now (ConnectResponse sess result)] c1
      | None \<Rightarrow> c)"
| "nb_on_input on_resp respond now from (ConnectResponse sess result) c =
     (if sess = nb_session c then
        (case (nb_state c, result) of
           (OutgoingWait _ r, Inr response) \<Rightarrow>
             (case on_resp r response of
                Some keys \<Rightarrow> nb_push [CoEvent (CeConnected keys)] (c\<lparr>nb_state := StConnected now 0 CONN_INIT_RTT_MS None\<rparr>)
              | None \<Rightarrow> nb_push [CoEvent (CeConnectError InvalidData)] (c\<lparr>nb_state := StConnectError InvalidData\<rparr>))
         | _ \<Rightarrow> c)
      else c)"
| "nb_on_input on_resp respond now from (Ping sess seq_no sent_ms) c =
     (if sess = nb_session c then
        (case nb_state c of
           StConnected _ _ _ _ \<Rightarrow> nb_push [generate_control c now (Pong sess seq_no sent_ms)] c
         | _ \<Rightarrow> c)
      else c)"
| "nb_on_input on_resp respond now from (Pong sess seq_no sent_ms) c =
     (if sess = nb_session c then
        (case nb_state c of
           StConnected _ ping_seq rtt hs \<Rightarrow>
             if sent_ms \<le> now
             then (let rtt' = word_of_nat (now - sent_ms)
                   in nb_push [CoEvent (CeStats rtt')] (c\<lparr>nb_state := StConnected now ping_seq rtt' hs\<rparr>))
             else c\<lparr>nb_state := StConnected now ping_seq rtt hs\<rparr>
         | _ \<Rightarrow> c)
      else c)"
| "nb_on_input on_resp respond now from (DisconnectRequest sess reason) c =
     (if sess = nb_session c
      then nb_push [generate_control c now (DisconnectResponse sess), CoEvent CeDisconnected] (c\<lparr>nb_state := StDisconnected\<rparr>)
      else c)"
| "nb_on_input on_resp respond now from (DisconnectResponse sess) c =
     (if sess = nb_session c then
        (case nb_state c of
           Disconnecting _ \<Rightarrow> nb_push [CoEvent CeDisconnected] (c\<lparr>nb_state := StDisconnected\<rparr>)
         | _ \<Rightarrow> c)
      else c)"

definition nb_pop_output :: "('r, 'k) neighbour_conn \<Rightarrow> 'k conn_output option \<times> ('r, 'k) neighbour_conn" where
  "nb_pop_output c = (case nb_output c of [] \<Rightarrow> (None, c) | x # q \<Rightarrow> (Some x, c\<lparr>nb_output := q\<rparr>))"

subsection \<open>The manager\<close>

datatype addr_protocol = PIp4 u32 | PIp6 "128 word" | PUdp u16 | POther

fun with_port :: "addr_protocol option \<Rightarrow> u16 \<Rightarrow> socket_addr list" where
  "with_port (Some (PIp4 ip)) port = [SocketV4 ip port]"
| "with_port (Some (PIp6 ip)) port = [SocketV6 ip port]"
| "with_port _ port = []"

fun get_node_addr_dests :: "addr_protocol option \<Rightarrow> addr_protocol list \<Rightarrow> socket_addr list" where
  "get_node_addr_dests dest_ip [] = []"
| "get_node_addr_dests dest_ip (PIp4 ip # ps) = get_node_addr_dests (Some (PIp4 ip)) ps"
| "get_node_addr_dests dest_ip (PIp6 ip # ps) = get_node_addr_dests (Some (PIp6 ip)) ps"
| "get_node_addr_dests dest_ip (PUdp port # ps) = with_port dest_ip port @ get_node_addr_dests dest_ip ps"
| "get_node_addr_dests dest_ip (POther # ps) = get_node_addr_dests dest_ip ps"

fun is_ipv4 :: "socket_addr \<Rightarrow> bool" where
  "is_ipv4 (SocketV4 _ _) = True"
| "is_ipv4 (SocketV6 _ _) = False"

datatype nm_input = NmConnectTo node_addr | NmDisconnectFrom node_id | NmControl net_pair neighbours_control

text \<open>The event \<^verbatim>\<open>Connected\<close> also hands the keys over.\<close>

datatype 'k nm_output = NmOutControl net_pair neighbours_control | NmOutEvent connection_event "'k option"

record ('r, 'k) neighbours_manager =
  nm_node_id :: node_id
  nm_bind_addrs :: "socket_addr list"
  nm_connections :: "(net_pair \<times> ('r, 'k) neighbour_conn) list"
  nm_neighbours :: "connection_ctx conn_map"
  nm_queue :: "'k nm_output list"
  nm_shutdown :: bool
  nm_random :: nat

definition nm_new :: "node_id \<Rightarrow> socket_addr list \<Rightarrow> ('r, 'k) neighbours_manager" where
  "nm_new n addrs = \<lparr>nm_node_id = n, nm_bind_addrs = addrs, nm_connections = [], nm_neighbours = [], nm_queue = [],
     nm_shutdown = False, nm_random = 0\<rparr>"

definition nm_conn :: "('r, 'k) neighbours_manager \<Rightarrow> conn_id \<Rightarrow> connection_ctx option" where
  "nm_conn s c = conn_get (nm_neighbours s) c"

definition nm_on_tick :: "('r \<Rightarrow> bytes option) \<Rightarrow> time \<Rightarrow> ('r, 'k) neighbours_manager \<Rightarrow> ('r, 'k) neighbours_manager" where
  "nm_on_tick mk_req now s = s\<lparr>nm_connections := map (\<lambda>(p, c). (p, nb_on_tick mk_req now c)) (nm_connections s)\<rparr>"

text \<open>One iteration of the inner loop of \<^verbatim>\<open>ConnectTo\<close>.\<close>

definition connect_pair :: "('r \<Rightarrow> bytes option) \<Rightarrow> (nat \<Rightarrow> u64 \<times> 'r) \<Rightarrow> time \<Rightarrow> node_id \<Rightarrow> socket_addr \<times> socket_addr \<Rightarrow>
    ('r, 'k) neighbours_manager \<Rightarrow> ('r, 'k) neighbours_manager run" where
  "connect_pair mk_req rng now dest = (\<lambda>(l, r) s.
     if is_ipv4 l \<noteq> is_ipv4 r then Some s
     else
       (let pair = \<lparr>np_local = l, np_remote = r\<rparr>
        in if map_of (nm_connections s) pair \<noteq> None then Some s
           else do {
             let (sess, req) = rng (nm_random s);
             c \<leftarrow> new_outgoing mk_req req (nm_node_id s) dest sess pair now;
             Some (s\<lparr>nm_random := nm_random s + 1, nm_connections := hm_insert pair c (nm_connections s)\<rparr>)
           }))"

definition on_control_msg :: "('r \<Rightarrow> bytes \<Rightarrow> 'k option) \<Rightarrow> (bytes \<Rightarrow> ('k \<times> bytes) option) \<Rightarrow> (node_id \<Rightarrow> bytes \<Rightarrow> bytes \<Rightarrow> bool) \<Rightarrow>
    (bytes \<Rightarrow> (time \<times> control_cmd) option) \<Rightarrow> time \<Rightarrow> net_pair \<Rightarrow> neighbours_control \<Rightarrow> ('r, 'k) neighbours_manager \<Rightarrow> ('r, 'k) neighbours_manager" where
  "on_control_msg on_resp respond validate de now addr control s =
     (case nc_validate validate de now control of
        None \<Rightarrow> s
      | Some cmd \<Rightarrow>
          (case map_of (nm_connections s) addr of
             Some c \<Rightarrow> s\<lparr>nm_connections := hm_insert addr (nb_on_input on_resp respond now (nc_from control) cmd c) (nm_connections s)\<rparr>
           | None \<Rightarrow>
               (case cmd of
                  ConnectRequest _ sess _ \<Rightarrow>
                    s\<lparr>nm_connections := hm_insert addr
                        (nb_on_input on_resp respond now (nc_from control) cmd (new_incoming (nm_node_id s) (nc_from control) sess addr now))
                        (nm_connections s)\<rparr>
                | _ \<Rightarrow> s)))"

fun nm_on_input :: "('r \<Rightarrow> bytes option) \<Rightarrow> ('r \<Rightarrow> bytes \<Rightarrow> 'k option) \<Rightarrow> (bytes \<Rightarrow> ('k \<times> bytes) option) \<Rightarrow> (nat \<Rightarrow> u64 \<times> 'r) \<Rightarrow>
    (bytes \<Rightarrow> addr_protocol list) \<Rightarrow> (node_id \<Rightarrow> bytes \<Rightarrow> bytes \<Rightarrow> bool) \<Rightarrow> (bytes \<Rightarrow> (time \<times> control_cmd) option) \<Rightarrow>
    time \<Rightarrow> nm_input \<Rightarrow> ('r, 'k) neighbours_manager \<Rightarrow> ('r, 'k) neighbours_manager run" where
  "nm_on_input mk_req on_resp respond rng addr_parts validate de now (NmConnectTo addr) s =
     (let dests = get_node_addr_dests None (addr_parts (snd addr))
      in for_run (connect_pair mk_req rng now (fst addr)) (concat (map (\<lambda>l. map (Pair l) dests) (nm_bind_addrs s))) s)"
| "nm_on_input mk_req on_resp respond rng addr_parts validate de now (NmDisconnectFrom node) s =
     Some (s\<lparr>nm_connections := map (\<lambda>(p, c). (p, if nb_node c = node then nb_disconnect now c else c)) (nm_connections s)\<rparr>)"
| "nm_on_input mk_req on_resp respond rng addr_parts validate de now (NmControl addr control) s =
     Some (on_control_msg on_resp respond validate de now addr control s)"

definition nm_on_shutdown :: "time \<Rightarrow> ('r, 'k) neighbours_manager \<Rightarrow> ('r, 'k) neighbours_manager" where
  "nm_on_shutdown now s =
     (if nm_shutdown s then s
      else s\<lparr>nm_shutdown := True, nm_connections := map (\<lambda>(p, c). (p, nb_disconnect now c)) (nm_connections s)\<rparr>)"

definition nm_is_empty :: "('r, 'k) neighbours_manager \<Rightarrow> bool" where
  "nm_is_empty s \<longleftrightarrow> nm_shutdown s \<and> nm_connections s = [] \<and> nm_queue s = []"

text \<open>
  Draining one connection: every output updates the known neighbours and the queue, or asks for the removal of
  the connection. The context is read when the output is processed.
\<close>

record 'k drain =
  dr_neighbours :: "connection_ctx conn_map"
  dr_queue :: "'k nm_output list"
  dr_remove :: bool

fun drain_output :: "(bytes \<Rightarrow> bytes) \<Rightarrow> (time \<times> control_cmd \<Rightarrow> bytes option) \<Rightarrow> node_id \<Rightarrow> connection_ctx \<Rightarrow> 'k conn_output \<Rightarrow> 'k drain \<Rightarrow> 'k drain run" where
  "drain_output sign ser n ctx (CoEvent (CeConnected keys)) d =
     Some (d\<lparr>dr_neighbours := conn_insert (dr_neighbours d) (cx_conn ctx) ctx, dr_queue := dr_queue d @ [NmOutEvent (Connected ctx) (Some keys)]\<rparr>)"
| "drain_output sign ser n ctx (CoEvent (CeConnectError _)) d = Some (d\<lparr>dr_remove := True\<rparr>)"
| "drain_output sign ser n ctx (CoEvent CeConnectTimeout) d = Some (d\<lparr>dr_remove := True\<rparr>)"
| "drain_output sign ser n ctx (CoEvent (CeStats rtt)) d = Some (d\<lparr>dr_queue := dr_queue d @ [NmOutEvent (Stats ctx rtt) None]\<rparr>)"
| "drain_output sign ser n ctx (CoEvent CeDisconnected) d =
     Some (d\<lparr>dr_neighbours := conn_remove (dr_neighbours d) (cx_conn ctx), dr_remove := True,
             dr_queue := dr_queue d @ [NmOutEvent (Disconnected ctx) None]\<rparr>)"
| "drain_output sign ser n ctx (CoNet now pair cmd) d =
     do { control \<leftarrow> nc_build sign ser now n cmd; Some (d\<lparr>dr_queue := dr_queue d @ [NmOutControl pair control]\<rparr>) }"

fun drain_conns :: "(bytes \<Rightarrow> bytes) \<Rightarrow> (time \<times> control_cmd \<Rightarrow> bytes option) \<Rightarrow> node_id \<Rightarrow> (net_pair \<times> ('r, 'k) neighbour_conn) list \<Rightarrow>
    connection_ctx conn_map \<Rightarrow> 'k nm_output list \<Rightarrow>
    ((net_pair \<times> ('r, 'k) neighbour_conn) list \<times> connection_ctx conn_map \<times> 'k nm_output list) run" where
  "drain_conns sign ser n [] nbs q = Some ([], nbs, q)"
| "drain_conns sign ser n ((p, c) # cs) nbs q =
     do {
       d \<leftarrow> for_run (drain_output sign ser n (nb_ctx c)) (nb_output c) \<lparr>dr_neighbours = nbs, dr_queue = q, dr_remove = False\<rparr>;
       (cs', nbs', q') \<leftarrow> drain_conns sign ser n cs (dr_neighbours d) (dr_queue d);
       Some (if dr_remove d then cs' else (p, c\<lparr>nb_output := []\<rparr>) # cs', nbs', q')
     }"

definition nm_pop_output :: "(bytes \<Rightarrow> bytes) \<Rightarrow> (time \<times> control_cmd \<Rightarrow> bytes option) \<Rightarrow> ('r, 'k) neighbours_manager \<Rightarrow>
    ('k nm_output option \<times> ('r, 'k) neighbours_manager) run" where
  "nm_pop_output sign ser s =
     (case nm_queue s of
        x # q \<Rightarrow> Some (Some x, s\<lparr>nm_queue := q\<rparr>)
      | [] \<Rightarrow> do {
          (cs, nbs, q) \<leftarrow> drain_conns sign ser (nm_node_id s) (nm_connections s) (nm_neighbours s) [];
          let s1 = s\<lparr>nm_connections := cs, nm_neighbours := nbs\<rparr>;
          Some (case q of [] \<Rightarrow> (None, s1\<lparr>nm_queue := []\<rparr>) | x # q' \<Rightarrow> (Some x, s1\<lparr>nm_queue := q'\<rparr>))
        })"

subsection \<open>Signed and framed messages\<close>

text \<open>An address pair for examples.\<close>

definition demo_addr :: net_pair where
  "demo_addr = \<lparr>np_local = SocketV4 1 1, np_remote = SocketV4 2 2\<rparr>"

text \<open>
  C27. What a node signs, another node acts on, and for ten seconds only. A built control message survives framing. The frame is
  never taken for a transport packet, nor a transport packet for a control message. Validation gives the command back as
  long as the message is no older than ten seconds, and the manager then handles it on the connection of the address it came
  from; a message that is older, or whose signature the authorization does not accept, leaves the manager unchanged. The
  clock of the sender must be ten seconds below the end of the \<^verbatim>\<open>u64\<close> range: otherwise the sum in the age test wraps around
  and a receiver refuses the message from the wrapped time on.
\<close>

theorem control_roundtrip:
  assumes "nc_build sign ser now from cmd = Some c" "nc_try_into enc c = Some buf"
    and "\<forall>b. ser (now, cmd) = Some b \<longrightarrow> de b = Some (now, cmd) \<and> validate from b (sign b)"
    and "\<forall>b. enc c = Some b \<longrightarrow> dec b = Some c"
  shows "nc_try_from dec buf = Some c \<and> header_try_from buf = Inl (if length buf < 4 then TooSmall else InvalidVersion) \<and>
    (\<forall>pkt h. header_try_from pkt = Inr h \<longrightarrow> nc_try_from dec pkt = None) \<and>
    (now + MSG_TIMEOUT_MS < 2 ^ 64 \<longrightarrow>
      nc_validate validate de now' c = (if now' \<le> now + MSG_TIMEOUT_MS then Some cmd else None)) \<and>
    (2 ^ 64 \<le> now + MSG_TIMEOUT_MS \<and> now < 2 ^ 64 \<longrightarrow>
      nc_validate validate de now' c = (if now' \<le> now + MSG_TIMEOUT_MS - 2 ^ 64 then Some cmd else None)) \<and>
    (now + MSG_TIMEOUT_MS < 2 ^ 64 \<and> now' \<le> now + MSG_TIMEOUT_MS \<and> map_of (nm_connections s) addr = Some nc \<longrightarrow>
      on_control_msg on_resp respond validate de now' addr c s =
        s\<lparr>nm_connections := hm_insert addr (nb_on_input on_resp respond now' from cmd nc) (nm_connections s)\<rparr>) \<and>
    (now + MSG_TIMEOUT_MS < 2 ^ 64 \<and> now + MSG_TIMEOUT_MS < now' \<longrightarrow> on_control_msg on_resp respond validate de now' addr c s = s) \<and>
    (\<forall>sig. \<not> validate from (nc_cmd c) sig \<longrightarrow> on_control_msg on_resp respond validate de now' addr (c\<lparr>nc_signature := sig\<rparr>) s = s)"
proof -
  obtain b where c: "ser (now, cmd) = Some b" "c = \<lparr>nc_from = from, nc_cmd = b, nc_signature = sign b\<rparr>"
    using assms(1) by (auto simp: nc_build_def bind_eq_Some_conv)
  obtain e where buf: "enc c = Some e" "buf = 255 # e" using assms(2) by (auto simp: nc_try_into_def)
  have de: "de b = Some (now, cmd)" "validate from b (sign b)" using assms(3) c(1) by auto
  have framed: "nc_try_from dec buf = Some c" using assms(4) buf by (simp add: nc_try_from_def)
  have version: "drop_bit 6 (255 :: u8) = 3" by (simp add: drop_bit_eq_div)
  have hdr: "header_try_from buf = Inl (if length buf < 4 then TooSmall else InvalidVersion)"
    by (simp add: header_try_from_def buf(2) version)
  have data: "nc_try_from dec pkt = None" if "header_try_from pkt = Inr h" for pkt h
    using that version by (cases pkt) (auto simp: nc_try_from_def header_try_from_def split: if_splits)
  have val: "nc_validate validate de now' c = (if (now + MSG_TIMEOUT_MS) mod 2 ^ 64 < now' then None else Some cmd)"
    using de by (simp add: nc_validate_def c(2))
  have wrap: "(now + MSG_TIMEOUT_MS) mod 2 ^ 64 = now + MSG_TIMEOUT_MS - 2 ^ 64" if "2 ^ 64 \<le> now + MSG_TIMEOUT_MS" "now < 2 ^ 64"
    using that by (simp add: MSG_TIMEOUT_MS_def le_mod_geq)
  have forged: "on_control_msg on_resp respond validate de now' addr (c\<lparr>nc_signature := sig\<rparr>) s = s" if "\<not> validate from (nc_cmd c) sig" for sig
    using that by (simp add: on_control_msg_def nc_validate_def c(2))
  show ?thesis using framed hdr data val wrap forged by (simp add: on_control_msg_def c(2) del: nb_on_input.simps)
qed

theorem control_roundtrip_witness:
  "let de = (\<lambda>_. Some (100, Ping 5 1 100)); validate = (\<lambda>n b s. s = rev b); c = \<lparr>nc_from = 3, nc_cmd = [7], nc_signature = [7]\<rparr>;
       s = (nm_new 4 [] :: (unit, unit) neighbours_manager)\<lparr>nm_connections := [(demo_addr, new_incoming 4 3 5 demo_addr 0)]\<rparr>
   in nc_build rev (\<lambda>_. Some [7]) 100 3 (Ping 5 1 100) = Some c \<and> nc_try_from (\<lambda>b. Some c) (255 # [1]) = Some c \<and>
      nc_validate validate de 200 c = Some (Ping 5 1 100) \<and> nc_validate validate de 20000 c = None \<and>
      on_control_msg (\<lambda>_ _. None) (\<lambda>_. None) validate de 20000 demo_addr c s = s \<and>
      on_control_msg (\<lambda>_ _. None) (\<lambda>_. None) validate de 200 demo_addr (c\<lparr>nc_signature := [8]\<rparr>) s = s"
proof -
  define ser where "ser = (\<lambda>_ :: time \<times> control_cmd. Some [7 :: u8])"
  define de where "de = (\<lambda>_ :: bytes. Some (100 :: time, Ping 5 1 100))"
  define validate where "validate = (\<lambda>(n :: node_id) (b :: bytes) s. s = rev b)"
  define c where "c = \<lparr>nc_from = 3, nc_cmd = [7], nc_signature = [7]\<rparr>"
  define s where "s = (nm_new 4 [] :: (unit, unit) neighbours_manager)\<lparr>nm_connections := [(demo_addr, new_incoming 4 3 5 demo_addr 0)]\<rparr>"
  have "nc_build rev ser 100 3 (Ping 5 1 100) = Some c" "nc_try_into (\<lambda>_. Some [1]) c = Some (255 # [1])"
    "\<forall>b. ser (100, Ping 5 1 100) = Some b \<longrightarrow> de b = Some (100, Ping 5 1 100) \<and> validate 3 b (rev b)"
    by (simp_all add: nc_build_def nc_try_into_def ser_def de_def validate_def c_def)
  note this(1) control_roundtrip [where enc = "\<lambda>_. Some [1]" and dec = "\<lambda>b. Some c" and de = de and validate = validate and s = s
      and addr = demo_addr and on_resp = "\<lambda>_ _. None" and respond = "\<lambda>_. None", OF this]
  from this(1) this(2) [of 200] this(2) [of 20000]
  have "nc_build rev ser 100 3 (Ping 5 1 100) = Some c" "nc_try_from (\<lambda>b. Some c) (255 # [1]) = Some c"
    "nc_validate validate de 200 c = Some (Ping 5 1 100)" "nc_validate validate de 20000 c = None"
    "on_control_msg (\<lambda>_ _. None) (\<lambda>_. None) validate de 20000 demo_addr c s = s"
    "on_control_msg (\<lambda>_ _. None) (\<lambda>_. None) validate de 200 demo_addr (c\<lparr>nc_signature := [8]\<rparr>) s = s"
    by (simp_all add: MSG_TIMEOUT_MS_def validate_def c_def)
  then show ?thesis by (simp add: Let_def ser_def de_def validate_def c_def s_def)
qed

subsection \<open>One connection: opening and closing\<close>

lemma nb_push_simps [simp]:
  "nb_state (nb_push out c) = nb_state c" "nb_conn (nb_push out c) = nb_conn c" "nb_output (nb_push out c) = nb_output c @ out"
  "nb_node (nb_push out c) = nb_node c" "nb_local (nb_push out c) = nb_local c" "nb_pair (nb_push out c) = nb_pair c"
  by (simp_all add: nb_push_def)

text \<open>
  C25. When two nodes open a connection to each other at the same time, they agree on one. Of the two requests the one
  with the smaller session wins: the node that receives it turns its own attempt into an incoming connection, answers,
  and drops its own session; the other node ignores the request it receives and is connected by the answer. Both end
  connected with the same session, one as the incoming and one as the outgoing side, and a repeated request is answered
  the same way again without disturbing the connection.
\<close>

theorem simultaneous_open_agrees:
  assumes "new_outgoing mk_req ra a b sa pab ta = Some ca" "new_outgoing mk_req rb b a sb pba tb = Some cb" "sb < sa"
    and "mk_req ra = Some ha" "mk_req rb = Some hb" "respond hb = Some (ka, response)" "on_resp rb response = Some kb"
  shows "\<exists>ca' cb'. nb_on_input on_resp respond2 t1 a (ConnectRequest b sa ha) cb = cb \<and>
     nb_on_input on_resp respond t2 b (ConnectRequest a sb hb) ca = ca' \<and>
     nb_output ca' = nb_output ca @ [CoEvent (CeConnected ka), CoNet t2 pab (ConnectResponse sb (Inr response))] \<and>
     nb_on_input on_resp respond2 t3 a (ConnectResponse sb (Inr response)) cb = cb' \<and>
     nb_output cb' = nb_output cb @ [CoEvent (CeConnected kb)] \<and>
     nb_conn ca' = from_in 0 sb \<and> nb_conn cb' = from_out 0 sb \<and>
     (\<exists>hs. nb_state ca' = StConnected t2 0 CONN_INIT_RTT_MS hs) \<and> nb_state cb' = StConnected t3 0 CONN_INIT_RTT_MS None \<and>
     nb_on_input on_resp respond2 t4 b (ConnectRequest a sb hb) ca' = nb_push [CoNet t4 pab (ConnectResponse sb (Inr response))] ca'"
proof -
  have ca: "nb_local ca = a" "nb_node ca = b" "nb_pair ca = pab" "nb_conn ca = from_out 0 sa" "nb_state ca = OutgoingWait ta ra"
    using assms(1,4) by (auto simp: new_outgoing_def)
  have cb: "nb_local cb = b" "nb_node cb = a" "nb_pair cb = pba" "nb_conn cb = from_out 0 sb" "nb_state cb = OutgoingWait tb rb"
    using assms(2,5) by (auto simp: new_outgoing_def)
  have sess: "session (from_out 0 x) = x" for x by (simp add: from_out_def from_raw_def)
  let ?st = "StConnected t2 0 CONN_INIT_RTT_MS (Some (hb, response, sb))"
  define c1 where "c1 = nb_push [CoEvent (CeConnected ka)] ((switch_to_incoming sb ca)\<lparr>nb_state := ?st\<rparr>)"
  define ca' where "ca' = nb_push [CoNet t2 pab (ConnectResponse sb (Inr response))] c1"
  define cb' where "cb' = nb_push [CoEvent (CeConnected kb)] (cb\<lparr>nb_state := StConnected t3 0 CONN_INIT_RTT_MS None\<rparr>)"
  have c1: "nb_pair c1 = pab" "nb_local c1 = a" "nb_node c1 = b" "nb_state c1 = ?st" "nb_conn c1 = from_in 0 sb"
      "nb_output c1 = nb_output ca @ [CoEvent (CeConnected ka)]"
    by (simp_all add: c1_def switch_to_incoming_def ca)
  have ignored: "nb_on_input on_resp respond2 t1 a (ConnectRequest b sa ha) cb = cb"
    using assms(3) by (simp add: on_connect_request_def cb sess)
  have "on_connect_request respond t2 b a sb hb ca = Some (c1, Inr response)"
    using assms(3,6) by (simp add: on_connect_request_def accept_request_def ca sess c1_def)
  then have accepted: "nb_on_input on_resp respond t2 b (ConnectRequest a sb hb) ca = ca'"
    by (simp add: ca'_def generate_control_def c1)
  have answered: "nb_on_input on_resp respond2 t3 a (ConnectResponse sb (Inr response)) cb = cb'"
    using assms(7) by (simp add: cb sess cb'_def)
  have "on_connect_request respond2 t4 b a sb hb ca' = Some (ca', Inr response)"
    by (simp add: on_connect_request_def ca'_def c1)
  then have repeated: "nb_on_input on_resp respond2 t4 b (ConnectRequest a sb hb) ca' = nb_push [CoNet t4 pab (ConnectResponse sb (Inr response))] ca'"
    by (simp add: generate_control_def) (simp add: ca'_def c1)
  show ?thesis
    by (rule exI [of _ ca'], rule exI [of _ cb'], intro conjI ignored accepted answered repeated)
       (simp_all add: ca'_def cb'_def c1 cb)
qed

theorem simultaneous_open_agrees_witness:
  "\<exists>ca cb ca' cb'.
     new_outgoing (\<lambda>r. Some [r]) 1 10 20 500 \<lparr>np_local = SocketV4 1 1, np_remote = SocketV4 2 2\<rparr> 0 = Some (ca :: (u8, nat) neighbour_conn) \<and>
     new_outgoing (\<lambda>r. Some [r]) 2 20 10 400 \<lparr>np_local = SocketV4 2 2, np_remote = SocketV4 1 1\<rparr> 0 = Some (cb :: (u8, nat) neighbour_conn) \<and>
     nb_on_input (\<lambda>_ _. Some 8) (\<lambda>_. Some (9, [3])) 5 20 (ConnectRequest 10 400 [2]) ca = ca' \<and>
     nb_on_input (\<lambda>_ _. Some 8) (\<lambda>_. None) 6 10 (ConnectResponse 400 (Inr [3])) cb = cb' \<and>
     nb_conn ca' = from_in 0 400 \<and> nb_conn cb' = from_out 0 400"
proof -
  obtain ca cb where c: "new_outgoing (\<lambda>r. Some [r]) 1 10 20 500 \<lparr>np_local = SocketV4 1 1, np_remote = SocketV4 2 2\<rparr> 0 = Some (ca :: (u8, nat) neighbour_conn)"
    "new_outgoing (\<lambda>r. Some [r]) 2 20 10 400 \<lparr>np_local = SocketV4 2 2, np_remote = SocketV4 1 1\<rparr> 0 = Some (cb :: (u8, nat) neighbour_conn)"
    by (simp add: new_outgoing_def)
  have "(400 :: u64) < 500" by simp
  note open_agrees = simultaneous_open_agrees [where respond = "\<lambda>_. Some (9, [3])" and on_resp = "\<lambda>_ _. Some 8" and ka = 9 and kb = 8
      and response = "[3]" and ?respond2.0 = "\<lambda>_. None" and ha = "[1]" and hb = "[2]" and ?t1.0 = 5 and ?t2.0 = 5 and ?t3.0 = 6 and ?t4.0 = 7,
      OF c this refl refl refl refl]
  show ?thesis using c open_agrees by (elim exE conjE) (intro exI conjI; assumption)
qed

text \<open>Ticks whose distances stay below the disconnect timeout.\<close>

fun close_ticks :: "time \<Rightarrow> time list \<Rightarrow> bool" where
  "close_ticks t [] \<longleftrightarrow> True"
| "close_ticks t (u # us) \<longleftrightarrow> u < t + CONNECTION_TIMEOUT_MS \<and> close_ticks u us"

text \<open>
  A connection that waits for the answer to its disconnect request never gives up while the ticks come less than
  ten seconds apart: every tick that resends the request also restarts the timeout. Without an answer from the
  other side it stays in that state for ever and never reports the disconnection.
\<close>

theorem disconnect_never_times_out:
  assumes "nb_state c = Disconnecting t" "close_ticks t ts"
  shows "nb_state (fold (nb_on_tick mk_req) ts c) = Disconnecting (last (t # ts)) \<and>
    nb_output (fold (nb_on_tick mk_req) ts c) = nb_output c @ map (\<lambda>u. CoNet u (nb_pair c) (DisconnectRequest (nb_session c) ReasonOther)) ts"
  using assms
proof (induction ts arbitrary: t c)
  case (Cons u us)
  let ?c1 = "nb_push [generate_control c u (DisconnectRequest (nb_session c) ReasonOther)] (c\<lparr>nb_state := Disconnecting u\<rparr>)"
  have "\<not> CONNECTION_TIMEOUT_MS \<le> u - t" using Cons.prems(2) by (auto simp: CONNECTION_TIMEOUT_MS_def)
  then have step: "nb_on_tick mk_req u c = ?c1" using Cons.prems(1) by (simp add: nb_on_tick_def)
  from Cons.IH [of ?c1 u] Cons.prems(2) show ?case by (simp add: step generate_control_def)
qed simp

theorem disconnect_never_times_out_witness:
  "nb_state (fold (nb_on_tick (\<lambda>_. None)) (map (\<lambda>i. 9000 * i) [1..<5]) ((new_incoming 1 2 3 \<lparr>np_local = SocketV4 1 1, np_remote = SocketV4 2 2\<rparr> 0 ::
      (unit, unit) neighbour_conn)\<lparr>nb_state := Disconnecting 0\<rparr>)) = Disconnecting 36000"
  using disconnect_never_times_out [of "(new_incoming 1 2 3 \<lparr>np_local = SocketV4 1 1, np_remote = SocketV4 2 2\<rparr> 0 :: (unit, unit) neighbour_conn)\<lparr>nb_state := Disconnecting 0\<rparr>"
      0 "map (\<lambda>i. 9000 * i) [1..<5]" "\<lambda>_. None"]
  by (simp add: CONNECTION_TIMEOUT_MS_def upt_rec)

subsection \<open>The manager and its events\<close>

text \<open>
  The neighbours that a consumer of the manager's events knows: the contexts of the connections reported and not yet
  reported closed. \<open>nm_log\<close> collects what has been popped.
\<close>

fun replay_nb :: "(conn_id \<Rightarrow> connection_ctx option) \<Rightarrow> 'k nm_output \<Rightarrow> conn_id \<Rightarrow> connection_ctx option" where
  "replay_nb f (NmOutEvent (Connected ctx) _) = (\<lambda>c. if conn_key (cx_conn ctx) = conn_key c then Some ctx else f c)"
| "replay_nb f (NmOutEvent (Disconnected ctx) _) = (\<lambda>c. if conn_key (cx_conn ctx) = conn_key c then None else f c)"
| "replay_nb f _ = f"

datatype 'k nm_step_input =
    NsTick time
  | NsInput time "bytes \<Rightarrow> ('k \<times> bytes) option" nm_input
  | NsShutdown time
  | NsPop

definition pop_logged :: "(bytes \<Rightarrow> bytes) \<Rightarrow> (time \<times> control_cmd \<Rightarrow> bytes option) \<Rightarrow>
    ('r, 'k) neighbours_manager \<times> 'k nm_output list \<Rightarrow> (('r, 'k) neighbours_manager \<times> 'k nm_output list) run" where
  "pop_logged sign ser = (\<lambda>(s, log). map_option (\<lambda>(out, s'). (s', log @ (case out of Some x \<Rightarrow> [x] | None \<Rightarrow> []))) (nm_pop_output sign ser s))"

fun nm_step :: "('r \<Rightarrow> bytes option) \<Rightarrow> ('r \<Rightarrow> bytes \<Rightarrow> 'k option) \<Rightarrow> (nat \<Rightarrow> u64 \<times> 'r) \<Rightarrow> (bytes \<Rightarrow> addr_protocol list) \<Rightarrow>
    (node_id \<Rightarrow> bytes \<Rightarrow> bytes \<Rightarrow> bool) \<Rightarrow> (bytes \<Rightarrow> (time \<times> control_cmd) option) \<Rightarrow> (bytes \<Rightarrow> bytes) \<Rightarrow> (time \<times> control_cmd \<Rightarrow> bytes option) \<Rightarrow>
    'k nm_step_input \<Rightarrow> ('r, 'k) neighbours_manager \<times> 'k nm_output list \<Rightarrow> (('r, 'k) neighbours_manager \<times> 'k nm_output list) run" where
  "nm_step mk_req on_resp rng parts validate de sign ser (NsTick now) (s, log) = Some (nm_on_tick mk_req now s, log)"
| "nm_step mk_req on_resp rng parts validate de sign ser (NsInput now respond input) (s, log) =
     map_option (\<lambda>s'. (s', log)) (nm_on_input mk_req on_resp respond rng parts validate de now input s)"
| "nm_step mk_req on_resp rng parts validate de sign ser (NsShutdown now) (s, log) = Some (nm_on_shutdown now s, log)"
| "nm_step mk_req on_resp rng parts validate de sign ser NsPop sl = pop_logged sign ser sl"

text \<open>Connections are filed under their own address pair and belong to this node.\<close>

definition conn_filed :: "node_id \<Rightarrow> net_pair \<times> ('r, 'k) neighbour_conn \<Rightarrow> bool" where
  "conn_filed n = (\<lambda>(p, c). nb_pair c = p \<and> nb_local c = n)"

definition nm_ok :: "('r, 'k) neighbours_manager \<times> 'k nm_output list \<Rightarrow> bool" where
  "nm_ok = (\<lambda>(s, log). wf_map (nm_connections s) \<and> (\<forall>x\<in>set (nm_connections s). conn_filed (nm_node_id s) x) \<and>
     foldl replay_nb (\<lambda>_. None) (log @ nm_queue s) = conn_get (nm_neighbours s))"

lemma nb_disconnect_id [simp]: "nb_pair (nb_disconnect now c) = nb_pair c" "nb_local (nb_disconnect now c) = nb_local c"
  by (cases "nb_state c"; simp add: nb_disconnect_def)+

lemma nb_on_tick_id [simp]: "nb_pair (nb_on_tick mk_req now c) = nb_pair c" "nb_local (nb_on_tick mk_req now c) = nb_local c"
  by (cases "nb_state c"; simp add: nb_on_tick_def split: option.split)+

lemma on_connect_request_id:
  "on_connect_request respond now from to sess hs c = Some (c1, res) \<Longrightarrow> nb_pair c1 = nb_pair c \<and> nb_local c1 = nb_local c"
  by (auto simp: on_connect_request_def accept_request_def switch_to_incoming_def split: if_splits conn_state.splits option.splits)

lemma nb_on_input_id [simp]:
  "nb_pair (nb_on_input on_resp respond now from cmd c) = nb_pair c \<and> nb_local (nb_on_input on_resp respond now from cmd c) = nb_local c"
proof (cases cmd)
  case (ConnectRequest to sess hs)
  then show ?thesis using on_connect_request_id [where c = c and sess = sess and hs = hs] by (simp split: option.split prod.split)
qed (auto simp: Let_def split: conn_state.split option.split sum.split)

lemma map_fst_conns: "map fst (map (\<lambda>(p, c). (p, f p c)) m) = map fst m"
  by (induction m) auto

lemma nm_ok_map:
  assumes "nm_ok (s, log)" "\<And>p c. nb_pair (f p c) = nb_pair c \<and> nb_local (f p c) = nb_local c"
  shows "nm_ok (s\<lparr>nm_connections := map (\<lambda>(p, c). (p, f p c)) (nm_connections s)\<rparr>, log)"
  using assms by (auto simp: nm_ok_def map_fst_conns conn_filed_def simp del: map_map)

lemma nm_ok_insert:
  assumes "nm_ok (s, log)" "nb_pair c = p" "nb_local c = nm_node_id s"
  shows "nm_ok (s\<lparr>nm_connections := hm_insert p c (nm_connections s)\<rparr>, log)"
proof -
  have "set (hm_insert p c m) \<subseteq> insert (p, c) (set m)" for m :: "(net_pair \<times> ('a, 'b) neighbour_conn) list"
    by (induction m) auto
  then show ?thesis using assms by (fastforce simp: nm_ok_def wf_hm_insert conn_filed_def)
qed

lemma on_control_msg_ok:
  assumes "nm_ok (s, log)"
  shows "nm_ok (on_control_msg on_resp respond validate de now addr control s, log)"
proof (cases "nc_validate validate de now control")
  case (Some cmd)
  show ?thesis
  proof (cases "map_of (nm_connections s) addr")
    case None
    then show ?thesis using assms Some
      by (cases cmd) (simp_all add: on_control_msg_def new_incoming_def nm_ok_insert del: nb_on_input.simps)
  next
    case (Some c)
    then have "conn_filed (nm_node_id s) (addr, c)" using assms by (auto simp: nm_ok_def dest: map_of_SomeD)
    then show ?thesis using assms Some \<open>nc_validate validate de now control = Some cmd\<close>
      by (simp add: on_control_msg_def conn_filed_def nm_ok_insert)
  qed
qed (use assms in \<open>simp add: on_control_msg_def\<close>)

lemma connect_pair_ok:
  assumes "nm_ok (s, log)"
  shows "\<exists>s'. connect_pair (\<lambda>r. Some (mk r)) rng now dest lr s = Some s' \<and> nm_ok (s', log)"
proof -
  obtain l r where lr: "lr = (l, r)" by (cases lr)
  let ?p = "\<lparr>np_local = l, np_remote = r\<rparr>"
  obtain sess req where rng: "rng (nm_random s) = (sess, req)" by (cases "rng (nm_random s)")
  have "nm_ok (s\<lparr>nm_random := nm_random s + 1\<rparr>, log)" using assms by (simp add: nm_ok_def)
  from nm_ok_insert [OF this, of _ ?p] show ?thesis using assms
    by (auto simp: connect_pair_def lr rng new_outgoing_def Let_def)
qed

interpretation connect_loop: run_invariant "connect_pair (\<lambda>r. Some (mk r)) rng now dest" "\<lambda>s. nm_ok (s, log)" for mk rng now dest log
  using connect_pair_ok by unfold_locales

lemma drain_output_spec:
  "\<exists>d' es. drain_output sign (\<lambda>x. Some (enc x)) n ctx out d = Some d' \<and> dr_queue d' = dr_queue d @ es \<and>
     foldl replay_nb (conn_get (dr_neighbours d)) es = conn_get (dr_neighbours d')"
proof (cases out)
  case (CoEvent ev)
  then show ?thesis by (cases ev) (auto simp: conn_get_insert conn_get_remove fun_eq_iff)
qed (simp add: nc_build_def)

lemma drain_outputs_spec:
  "\<exists>d' es. for_run (drain_output sign (\<lambda>x. Some (enc x)) n ctx) outs d = Some d' \<and> dr_queue d' = dr_queue d @ es \<and>
     foldl replay_nb (conn_get (dr_neighbours d)) es = conn_get (dr_neighbours d')"
proof (induction outs arbitrary: d)
  case (Cons out outs)
  obtain d1 es1 where d1: "drain_output sign (\<lambda>x. Some (enc x)) n ctx out d = Some d1" "dr_queue d1 = dr_queue d @ es1"
    "foldl replay_nb (conn_get (dr_neighbours d)) es1 = conn_get (dr_neighbours d1)"
    using drain_output_spec [of sign enc n ctx out d] by blast
  obtain d2 es2 where "for_run (drain_output sign (\<lambda>x. Some (enc x)) n ctx) outs d1 = Some d2" "dr_queue d2 = dr_queue d1 @ es2"
    "foldl replay_nb (conn_get (dr_neighbours d1)) es2 = conn_get (dr_neighbours d2)"
    using Cons.IH [of d1] by blast
  then show ?case using d1 by (intro exI [of _ d2] exI [of _ "es1 @ es2"]) simp
qed simp

lemma drain_conns_spec:
  "\<exists>cs' nbs' es. drain_conns sign (\<lambda>x. Some (enc x)) n cs nbs q = Some (cs', nbs', q @ es) \<and>
     foldl replay_nb (conn_get nbs) es = conn_get nbs' \<and> (wf_map cs \<longrightarrow> wf_map cs') \<and> fst ` set cs' \<subseteq> fst ` set cs \<and>
     ((\<forall>x\<in>set cs. conn_filed n x) \<longrightarrow> (\<forall>x\<in>set cs'. conn_filed n x))"
proof (induction cs arbitrary: nbs q)
  case (Cons x cs)
  obtain p c where x: "x = (p, c)" by (cases x)
  obtain d es1 where d: "for_run (drain_output sign (\<lambda>x. Some (enc x)) n (nb_ctx c)) (nb_output c) \<lparr>dr_neighbours = nbs, dr_queue = q, dr_remove = False\<rparr> = Some d"
    "dr_queue d = q @ es1" "foldl replay_nb (conn_get nbs) es1 = conn_get (dr_neighbours d)"
    using drain_outputs_spec [of sign enc n "nb_ctx c" "nb_output c" "\<lparr>dr_neighbours = nbs, dr_queue = q, dr_remove = False\<rparr>"] by auto
  obtain cs' nbs' es2 where r: "drain_conns sign (\<lambda>x. Some (enc x)) n cs (dr_neighbours d) (dr_queue d) = Some (cs', nbs', dr_queue d @ es2)"
    "foldl replay_nb (conn_get (dr_neighbours d)) es2 = conn_get nbs'" "wf_map cs \<longrightarrow> wf_map cs'" "fst ` set cs' \<subseteq> fst ` set cs"
    "(\<forall>x\<in>set cs. conn_filed n x) \<longrightarrow> (\<forall>x\<in>set cs'. conn_filed n x)"
    using Cons.IH [of "dr_neighbours d" "dr_queue d"] by blast
  let ?cs = "if dr_remove d then cs' else (p, c\<lparr>nb_output := []\<rparr>) # cs'"
  have "drain_conns sign (\<lambda>x. Some (enc x)) n (x # cs) nbs q = Some (?cs, nbs', q @ (es1 @ es2))"
    using d r(1) by (simp add: x)
  moreover have "foldl replay_nb (conn_get nbs) (es1 @ es2) = conn_get nbs'" using d(3) r(2) by simp
  moreover have "wf_map (x # cs) \<longrightarrow> wf_map ?cs" "fst ` set ?cs \<subseteq> fst ` set (x # cs)" using r(3,4) by (auto simp: x)
  moreover have "(\<forall>y\<in>set (x # cs). conn_filed n y) \<longrightarrow> (\<forall>y\<in>set ?cs. conn_filed n y)" using r(5) by (auto simp: x conn_filed_def)
  ultimately show ?case by blast
qed simp

lemma pop_logged_ok:
  assumes "nm_ok (s, log)"
  shows "\<exists>sl. pop_logged sign (\<lambda>x. Some (enc x)) (s, log) = Some sl \<and> nm_ok sl"
proof (cases "nm_queue s")
  case Nil
  obtain cs nbs es where r: "drain_conns sign (\<lambda>x. Some (enc x)) (nm_node_id s) (nm_connections s) (nm_neighbours s) [] = Some (cs, nbs, es)"
    "foldl replay_nb (conn_get (nm_neighbours s)) es = conn_get nbs" "wf_map cs" "\<forall>x\<in>set cs. conn_filed (nm_node_id s) x"
    using drain_conns_spec [of sign enc "nm_node_id s" "nm_connections s" "nm_neighbours s" "[]"] assms by (auto simp: nm_ok_def)
  then show ?thesis using assms Nil by (cases es) (auto simp: pop_logged_def nm_pop_output_def nm_ok_def)
next
  case (Cons x q)
  then show ?thesis using assms by (simp add: pop_logged_def nm_pop_output_def nm_ok_def)
qed

lemma nm_step_ok:
  assumes "nm_ok sl"
  shows "\<exists>sl'. nm_step (\<lambda>r. Some (mk r)) on_resp rng parts validate de sign (\<lambda>x. Some (enc x)) i sl = Some sl' \<and> nm_ok sl'"
proof -
  obtain s log where sl: "sl = (s, log)" by (cases sl)
  note ok = assms [unfolded sl]
  show ?thesis
  proof (cases i)
    case (NsTick now)
    then show ?thesis using nm_ok_map [OF ok, of "\<lambda>p c. nb_on_tick (\<lambda>r. Some (mk r)) now c"] by (simp add: sl nm_on_tick_def)
  next
    case (NsShutdown now)
    have "nm_ok (s\<lparr>nm_shutdown := True\<rparr>, log)" using ok by (simp add: nm_ok_def)
    from nm_ok_map [OF this, of "\<lambda>p c. nb_disconnect now c"] show ?thesis using ok NsShutdown by (simp add: sl nm_on_shutdown_def)
  next
    case NsPop
    then show ?thesis using pop_logged_ok [OF ok] by (simp add: sl)
  next
    case (NsInput now respond input)
    show ?thesis
    proof (cases input)
      case (NmConnectTo addr)
      then show ?thesis using connect_loop.run_ok [OF ok] NsInput by (fastforce simp: sl)
    next
      case (NmDisconnectFrom node)
      then show ?thesis using NsInput nm_ok_map [OF ok, of "\<lambda>p c. if nb_node c = node then nb_disconnect now c else c"] by (simp add: sl)
    next
      case (NmControl addr control)
      then show ?thesis using NsInput on_control_msg_ok [OF ok] by (simp add: sl)
    qed
  qed
qed

interpretation manager: run_invariant "nm_step (\<lambda>r. Some (mk r)) on_resp rng parts validate de sign (\<lambda>x. Some (enc x))" nm_ok
  for mk on_resp rng parts validate de sign enc
  using nm_step_ok by unfold_locales

text \<open>
  C26. The manager tells the truth about its neighbours. With a handshake and a codec that do not fail on its own data it
  never panics, whatever ticks, requests and messages it is fed; and the events popped so far together with those still queued,
  replayed in order, give exactly the neighbours that \<^verbatim>\<open>conn\<close> knows. Every connection is filed under its own
  address pair and belongs to this node.
\<close>

theorem neighbours_follow_events:
  "\<exists>s log. for_run (nm_step (\<lambda>r. Some (mk r)) on_resp rng parts validate de sign (\<lambda>x. Some (enc x))) ins (nm_new n addrs, []) = Some (s, log) \<and>
     foldl replay_nb (\<lambda>_. None) (log @ nm_queue s) = nm_conn s \<and>
     wf_map (nm_connections s) \<and> (\<forall>p c. map_of (nm_connections s) p = Some c \<longrightarrow> nb_pair c = p \<and> nb_local c = nm_node_id s)"
proof -
  have "nm_ok (nm_new n addrs, [])" by (simp add: nm_ok_def nm_new_def fun_eq_iff)
  from manager.run_ok [OF this] obtain s log where
    r: "for_run (nm_step (\<lambda>r. Some (mk r)) on_resp rng parts validate de sign (\<lambda>x. Some (enc x))) ins (nm_new n addrs, []) = Some (s, log)"
    and ok: "nm_ok (s, log)" by (metis surj_pair)
  moreover have "nm_conn s = conn_get (nm_neighbours s)" by (rule ext) (simp add: nm_conn_def)
  ultimately show ?thesis by (fastforce simp: nm_ok_def conn_filed_def dest: map_of_SomeD)
qed

theorem neighbours_follow_events_witness:
  "\<exists>s log. for_run (nm_step (\<lambda>r. Some [1]) (\<lambda>_ _. Some ()) (\<lambda>i. (5, ())) (\<lambda>_. [PIp4 2, PUdp 2]) (\<lambda>_ _ _. True)
       (\<lambda>_. Some (0, ConnectResponse 5 (Inr [9]))) (\<lambda>b. b) (\<lambda>x. Some [3]))
     [NsInput 0 (\<lambda>_. None) (NmConnectTo (8, [])),
      NsInput 1 (\<lambda>_. None) (NmControl \<lparr>np_local = SocketV4 1 1, np_remote = SocketV4 2 2\<rparr> \<lparr>nc_from = 8, nc_cmd = [], nc_signature = []\<rparr>),
      NsPop, NsPop] (nm_new 7 [SocketV4 1 1], []) = Some (s, log) \<and>
     foldl replay_nb (\<lambda>_. None) (log @ nm_queue s) = nm_conn s \<and>
     nm_conn s (from_out 0 5) = Some \<lparr>cx_conn = from_out 0 5, cx_node = 8, cx_pair = \<lparr>np_local = SocketV4 1 1, np_remote = SocketV4 2 2\<rparr>\<rparr>"
proof -
  let ?ins = "[NsInput 0 (\<lambda>_. None) (NmConnectTo (8, [])),
      NsInput 1 (\<lambda>_. None) (NmControl \<lparr>np_local = SocketV4 1 1, np_remote = SocketV4 2 2\<rparr> \<lparr>nc_from = 8, nc_cmd = [], nc_signature = []\<rparr>),
      NsPop, NsPop] :: unit nm_step_input list"
  obtain s log where r: "for_run (nm_step (\<lambda>r. Some [1]) (\<lambda>_ _. Some ()) (\<lambda>i. (5, ())) (\<lambda>_. [PIp4 2, PUdp 2]) (\<lambda>_ _ _. True)
       (\<lambda>_. Some (0, ConnectResponse 5 (Inr [9]))) (\<lambda>b. b) (\<lambda>x. Some [3])) ?ins (nm_new 7 [SocketV4 1 1], []) = Some (s, log)"
    "foldl replay_nb (\<lambda>_. None) (log @ nm_queue s) = nm_conn s"
    using neighbours_follow_events [of "\<lambda>_. [1]" "\<lambda>_ _. Some ()" "\<lambda>i. (5, ())" "\<lambda>_. [PIp4 2, PUdp 2]" "\<lambda>_ _ _. True"
       "\<lambda>_. Some (0, ConnectResponse 5 (Inr [9]))" "\<lambda>b. b" "\<lambda>x. [3]" ?ins 7 "[SocketV4 1 1]"] by blast
  moreover from r(1) have "nm_conn s (from_out 0 5) = Some \<lparr>cx_conn = from_out 0 5, cx_node = 8, cx_pair = \<lparr>np_local = SocketV4 1 1, np_remote = SocketV4 2 2\<rparr>\<rparr>"
    by (auto simp: connect_pair_def nm_new_def new_outgoing_def Let_def on_control_msg_def nc_validate_def MSG_TIMEOUT_MS_def nb_push_def
        pop_logged_def nm_pop_output_def nc_build_def nb_ctx_def nm_conn_def from_out_def from_raw_def)
  ultimately show ?thesis by blast
qed

end
