(* ===== verification/Pubsub_Msg.thy ===== *)
theory Pubsub_Msg
  imports Dht_Msg "HOL-Library.Product_Lexorder" "HOL-Library.Multiset"
begin

text \<open>
  Vocabulary of the publish/subscribe feature (\<^verbatim>\<open>packages/network/src/features/pubsub/msg.rs\<close> and the public types of
  \<^verbatim>\<open>pubsub/mod.rs\<close>): feedback records, the relay and source-hint protocols, and the messages between controller and
  workers; and the containers its components share: vectors with \<^verbatim>\<open>swap_remove\<close> and \<^verbatim>\<open>BTreeMap\<close>s, which are association
  lists sorted by key.

  bincode is third-party code: \<open>ser\<close> and \<open>de\<close> stand for it.
\<close>

subsection \<open>The protocol\<close>

definition PUBSUB_FEATURE_ID :: u8 where "PUBSUB_FEATURE_ID = 5"

type_synonym channel_id = u64
type_synonym relay_id = "channel_id \<times> node_id"

record feedback =
  fb_kind :: u8
  fb_count :: u64
  fb_max :: u64
  fb_min :: u64
  fb_sum :: u64
  fb_interval_ms :: u16
  fb_timeout_ms :: u16

definition feedback_simple :: "u8 \<Rightarrow> u64 \<Rightarrow> u16 \<Rightarrow> u16 \<Rightarrow> feedback" where
  "feedback_simple kind v interval_ms timeout_ms =
     \<lparr>fb_kind = kind, fb_count = 1, fb_max = v, fb_min = v, fb_sum = v, fb_interval_ms = interval_ms, fb_timeout_ms = timeout_ms\<rparr>"

definition feedback_add :: "feedback \<Rightarrow> feedback \<Rightarrow> feedback" where
  "feedback_add a b =
     \<lparr>fb_kind = fb_kind a, fb_count = fb_count a + fb_count b, fb_max = max (fb_max a) (fb_max b),
      fb_min = min (fb_min a) (fb_min b), fb_sum = fb_sum a + fb_sum b,
      fb_interval_ms = min (fb_interval_ms a) (fb_interval_ms b), fb_timeout_ms = max (fb_timeout_ms a) (fb_timeout_ms b)\<rparr>"

datatype relay_control =
    RcSub u64
  | RcUnsub u64
  | RcSubOk u64
  | RcUnsubOk u64
  | RcRouteChanged u64
  | RcFeedback feedback

fun relay_should_create :: "relay_control \<Rightarrow> bool" where
  "relay_should_create (RcSub _) = True"
| "relay_should_create _ = False"

datatype source_hint =
    HintRegister node_id bool
  | HintUnregister node_id bool
  | HintSubscribe u64
  | HintSubscribeOk u64
  | HintUnsubscribe u64
  | HintUnsubscribeOk u64
  | HintSources "node_id list"

fun hint_should_create :: "source_hint \<Rightarrow> bool" where
  "hint_should_create (HintRegister _ _) = True"
| "hint_should_create (HintSubscribe _) = True"
| "hint_should_create _ = False"

datatype pubsub_message =
    PsControl relay_id relay_control
  | PsSourceHint channel_id source_hint
  | PsData relay_id bytes

datatype pubsub_error = PsTransportError header_error | PsDeserializeError

text \<open>The conversions to and from a network buffer; \<open>None\<close> would be a failed \<^verbatim>\<open>expect\<close> or slice.\<close>

definition msg_from_payload :: "('m \<Rightarrow> bytes) \<Rightarrow> header \<Rightarrow> 'm \<Rightarrow> transport_msg run" where
  "msg_from_payload ser h m =
     do {
       (n, out) \<leftarrow> to_bytes h (replicate (serialize_size h) 0);
       Some \<lparr>tm_buffer = out @ ser m, tm_header = h, tm_payload_start = serialize_size h\<rparr>
     }"

definition pubsub_into_buffer :: "(pubsub_message \<Rightarrow> bytes) \<Rightarrow> pubsub_message \<Rightarrow> bytes run" where
  "pubsub_into_buffer ser m = map_option tm_buffer (msg_from_payload ser (header_build PUBSUB_FEATURE_ID 0 Direct) m)"

definition pubsub_try_from :: "(bytes \<Rightarrow> pubsub_message option) \<Rightarrow> bytes \<Rightarrow> (pubsub_error + pubsub_message) run" where
  "pubsub_try_from de buf =
     (case msg_try_from buf of
        Inl e \<Rightarrow> Some (Inl (PsTransportError e))
      | Inr t \<Rightarrow> do {
          payload \<leftarrow> msg_payload t;
          Some (case de payload of Some m \<Rightarrow> Inr m | None \<Rightarrow> Inl PsDeserializeError)
        })"

text \<open>What applications ask for and are told, and what controller and workers tell each other.\<close>

datatype channel_control =
    SubAuto
  | FeedbackAuto feedback
  | UnsubAuto
  | SubSource node_id
  | UnsubSource node_id
  | PubStart
  | PubData bytes
  | PubStop

datatype channel_event =
    EvRouteChanged node_id
  | EvSourceData node_id bytes
  | EvFeedbackData feedback

type_synonym ps_control = "channel_id \<times> channel_control"
type_synonym ps_event = "channel_id \<times> channel_event"

datatype 'u relay_worker_control =
    SendSub u64 "net_pair option"
  | SendUnsub u64 net_pair
  | SendSubOk u64 net_pair
  | SendUnsubOk u64 net_pair
  | SendRouteChanged
  | SendFeedback feedback net_pair
  | RouteSetSource net_pair
  | RouteDelSource net_pair
  | RouteSetLocal "'u feature_actor"
  | RouteDelLocal "'u feature_actor"
  | RouteSetRemote net_pair u64
  | RouteDelRemote net_pair

fun is_broadcast :: "'u relay_worker_control \<Rightarrow> bool" where
  "is_broadcast (SendSub _ _) = False"
| "is_broadcast (SendUnsub _ _) = False"
| "is_broadcast (SendSubOk _ _) = False"
| "is_broadcast (SendUnsubOk _ _) = False"
| "is_broadcast SendRouteChanged = False"
| "is_broadcast _ = True"

datatype 'u ps_to_worker =
    PwRelayControl relay_id "'u relay_worker_control"
  | PwSourceHint channel_id "net_pair option" source_hint
  | PwRelayData relay_id bytes

datatype ps_to_controller =
    PcRelayControl net_pair relay_id relay_control
  | PcSourceHint net_pair channel_id source_hint

subsection \<open>Vectors\<close>

text \<open>\<^verbatim>\<open>iter().position(|x| *x == y)\<close> and \<^verbatim>\<open>swap_remove\<close>, which moves the last element into the hole.\<close>

fun position :: "('a \<Rightarrow> bool) \<Rightarrow> 'a list \<Rightarrow> nat option" where
  "position P [] = None"
| "position P (x # xs) = (if P x then Some 0 else map_option Suc (position P xs))"

definition swap_remove :: "nat \<Rightarrow> 'a list \<Rightarrow> 'a list" where
  "swap_remove i xs = butlast (xs[i := last xs])"

lemma position_None: "position P xs = None \<longleftrightarrow> (\<forall>x\<in>set xs. \<not> P x)"
  by (induction xs) auto

lemma position_Some: "position P xs = Some i \<Longrightarrow> i < length xs \<and> P (xs ! i) \<and> (\<forall>j<i. \<not> P (xs ! j))"
  by (induction xs arbitrary: i) (auto split: if_splits simp: less_Suc_eq_0_disj)

lemma position_map: "position P (map f xs) = position (\<lambda>x. P (f x)) xs"
  by (induction xs) auto

lemma position_distinct: "distinct xs \<Longrightarrow> i < length xs \<Longrightarrow> position (\<lambda>x. x = xs ! i) xs = Some i"
proof (induction xs arbitrary: i)
  case (Cons x xs)
  then show ?case by (cases i) auto
qed simp

lemma mset_swap_remove:
  assumes "i < length xs"
  shows "mset (swap_remove i xs) = mset xs - {#xs ! i#}"
proof (cases xs rule: rev_cases)
  case (snoc ys y)
  show ?thesis
  proof (cases "i < length ys")
    case True
    then have "swap_remove i xs = ys[i := y]" by (simp add: swap_remove_def snoc list_update_append)
    then show ?thesis using True
      by (simp add: snoc nth_append mset_update insert_DiffM2 nth_mem_mset
          add_mset_remove_trivial_eq flip: add_mset_add_single)
  next
    case False
    then have "i = length ys" using assms by (simp add: snoc)
    then show ?thesis by (simp add: swap_remove_def snoc)
  qed
qed (use assms in simp)

lemma mset_swap_remove_position:
  "position (\<lambda>x. x = a) xs = Some i \<Longrightarrow> mset (swap_remove i xs) = mset xs - {#a#}"
  using position_Some [of "\<lambda>x. x = a" xs i] by (simp add: mset_swap_remove)

lemma set_swap_remove:
  assumes "distinct xs" "position (\<lambda>x. x = a) xs = Some i"
  shows "distinct (swap_remove i xs)" "set (swap_remove i xs) = set xs - {a}"
proof -
  have "a \<in> set xs" using position_Some [OF assms(2)] by (metis nth_mem)
  then have m: "mset (swap_remove i xs) = mset (remove1 a xs)"
    by (simp add: mset_swap_remove_position [OF assms(2)])
  show "distinct (swap_remove i xs)"
    using mset_eq_imp_distinct_iff [OF m] assms(1) by simp
  show "set (swap_remove i xs) = set xs - {a}"
    using mset_eq_setD [OF m] assms(1) by (simp add: set_remove1_eq)
qed

subsection \<open>Ordered maps\<close>

text \<open>Socket addresses order v4 before v6, then by address and port; a pair by its local, then its remote end.\<close>

fun socket_key :: "socket_addr \<Rightarrow> bool \<times> nat \<times> u16" where
  "socket_key (SocketV4 ip port) = (False, unat ip, port)"
| "socket_key (SocketV6 ip port) = (True, unat ip, port)"

lemma socket_key_inj: "socket_key a = socket_key b \<Longrightarrow> a = b"
  by (cases a; cases b) (auto simp: word_unat_eq_iff)

instantiation socket_addr :: linorder
begin

definition less_eq_socket_addr :: "socket_addr \<Rightarrow> socket_addr \<Rightarrow> bool" where
  "less_eq_socket_addr a b \<longleftrightarrow> socket_key a \<le> socket_key b"

definition less_socket_addr :: "socket_addr \<Rightarrow> socket_addr \<Rightarrow> bool" where
  "less_socket_addr a b \<longleftrightarrow> socket_key a < socket_key b"

instance
  by standard (auto simp: less_eq_socket_addr_def less_socket_addr_def intro: socket_key_inj)

end

instantiation net_pair_ext :: (linorder) linorder
begin

definition less_eq_net_pair_ext :: "'a net_pair_ext \<Rightarrow> 'a net_pair_ext \<Rightarrow> bool" where
  "less_eq_net_pair_ext p q \<longleftrightarrow>
     (np_local p, np_remote p, net_pair.more p) \<le> (np_local q, np_remote q, net_pair.more q)"

definition less_net_pair_ext :: "'a net_pair_ext \<Rightarrow> 'a net_pair_ext \<Rightarrow> bool" where
  "less_net_pair_ext p q \<longleftrightarrow>
     (np_local p, np_remote p, net_pair.more p) < (np_local q, np_remote q, net_pair.more q)"

instance
  by standard (auto simp: less_eq_net_pair_ext_def less_net_pair_ext_def)

end

fun bt_insert :: "'k::linorder \<Rightarrow> 'v \<Rightarrow> ('k \<times> 'v) list \<Rightarrow> ('k \<times> 'v) list" where
  "bt_insert k v [] = [(k, v)]"
| "bt_insert k v ((k', v') # m) =
     (if k < k' then (k, v) # (k', v') # m
      else if k = k' then (k, v) # m
      else (k', v') # bt_insert k v m)"

abbreviation wf_btree :: "('k::linorder \<times> 'v) list \<Rightarrow> bool" where
  "wf_btree m \<equiv> sorted_wrt (<) (map fst m)"

lemma bt_get_insert [simp]: "map_of (bt_insert k v m) = (map_of m)(k \<mapsto> v)"
  by (induction m) auto

lemma bt_keys_insert [simp]: "fst ` set (bt_insert k v m) = insert k (fst ` set m)"
  by (induction k v m rule: bt_insert.induct) (simp_all add: insert_commute)

lemma wf_bt_insert [wf_intros]: "wf_btree m \<Longrightarrow> wf_btree (bt_insert k v m)"
proof (induction m)
  case (Cons x m)
  then show ?case using bt_keys_insert [of k v m] by (cases x) (fastforce simp flip: set_map)
qed simp

lemma wf_bt_remove [wf_intros]: "wf_btree m \<Longrightarrow> wf_btree (hm_remove k m)"
  by (induction m) (auto simp: AList.delete_eq)

lemma wf_btree_map: "wf_btree m \<Longrightarrow> wf_map m"
  by (simp add: strict_sorted_iff)

subsection \<open>Buffers\<close>

lemma pubsub_into_buffer_run: "pubsub_into_buffer ser m = Some ([0, 64, 5, 0] @ ser m)"
  by (simp add: pubsub_into_buffer_def msg_from_payload_def header_build_def serialize_size_def to_bytes_def
      PUBSUB_FEATURE_ID_def put_route_def first_byte_def route_type_def route_consts DEFAULT_MSG_TTL_def numeral_eq_Suc)

lemma header_size_fits:
  assumes "header_try_from buf = Inr h"
  shows "serialize_size h \<le> length buf"
  using assms
proof (cases rule: header_try_from_cases)
  case (1 p)
  have "p = (if h_route h = Direct then 4 else 8)" "p \<le> length buf"
    using 1(1,4) by (auto simp: get_route_def split: if_splits)
  then show ?thesis using 1(10) by (auto simp: serialize_size_def)
qed

lemma pubsub_try_from_run: "\<exists>r. pubsub_try_from de buf = Some r"
  using header_size_fits [of buf]
  by (cases "header_try_from buf") (simp_all add: pubsub_try_from_def msg_try_from_def msg_payload_def)

lemma header_try_from_pubsub:
  "header_try_from ([0, 64, 5, 0] @ payload) = Inr (header_build PUBSUB_FEATURE_ID 0 Direct)"
  by (simp add: header_try_from_def get_route_def route_consts header_build_def PUBSUB_FEATURE_ID_def DEFAULT_MSG_TTL_def)

lemma pubsub_buffer_roundtrip:
  assumes "de (ser m) = Some m"
  shows "pubsub_try_from de ([0, 64, 5, 0] @ ser m) = Some (Inr m)"
proof -
  have "serialize_size (header_build PUBSUB_FEATURE_ID 0 Direct) = 4"
    by (simp add: serialize_size_def header_build_def)
  then show ?thesis
    unfolding pubsub_try_from_def msg_try_from_def header_try_from_pubsub
    by (simp add: msg_payload_def numeral_eq_Suc assms [unfolded numeral_eq_Suc])
qed

end
