(* ===== verification/Pubsub_Feedback.thy ===== *)
theory Pubsub_Feedback
  imports Pubsub_Msg
begin

text \<open>
  The feedback aggregator of a relay (\<^verbatim>\<open>packages/network/src/features/pubsub/controller/feedbacks.rs\<close>): consumers report a
  feedback per kind, the aggregator keeps the last report of every consumer and hands their combination to the
  relay.

  The lemmas show the invariant of the stored reports, that the \<^verbatim>\<open>while let\<close> loop of \<^verbatim>\<open>process_feedbacks\<close> ends, and
  what the combination is.
\<close>

datatype 'u feedback_source = FsLocal "'u feature_actor" | FsRemote net_pair

record 'u single_kind =
  sk_kind :: u8
  sk_feedbacks :: "('u feedback_source \<times> feedback \<times> time) list"
  sk_updated :: bool
  sk_last_ts :: "time option"

text \<open>The common body of \<^verbatim>\<open>on_local_feedback\<close> and \<^verbatim>\<open>on_remote_feedback\<close>, which differ in the source only.\<close>

definition sk_on_feedback :: "'u feedback_source \<Rightarrow> time \<Rightarrow> feedback \<Rightarrow> 'u single_kind \<Rightarrow> 'u single_kind" where
  "sk_on_feedback source now fb k =
     (case position (\<lambda>(a, _). a = source) (sk_feedbacks k) of
        Some i \<Rightarrow> k\<lparr>sk_updated := True, sk_feedbacks := (sk_feedbacks k)[i := (source, fb, now)]\<rparr>
      | None \<Rightarrow> k\<lparr>sk_updated := True, sk_feedbacks := sk_feedbacks k @ [(source, fb, now)]\<rparr>)"

fun aggregate :: "feedback option \<Rightarrow> ('u feedback_source \<times> feedback \<times> time) list \<Rightarrow> feedback option" where
  "aggregate acc [] = acc"
| "aggregate acc ((_, fb, _) # fbs) = aggregate (Some (case acc of Some a \<Rightarrow> feedback_add a fb | None \<Rightarrow> fb)) fbs"

definition fb_live :: "time \<Rightarrow> 'u feedback_source \<times> feedback \<times> time \<Rightarrow> bool" where
  "fb_live now = (\<lambda>(_, fb, last_ts). now < last_ts + unat (fb_timeout_ms fb))"

definition sk_process :: "time \<Rightarrow> 'u single_kind \<Rightarrow> feedback option \<times> 'u single_kind" where
  "sk_process now k =
     (let k1 = k\<lparr>sk_feedbacks := filter (fb_live now) (sk_feedbacks k)\<rparr> in
      if \<not> sk_updated k then (None, k1)
      else
        (let aggregated = aggregate None (sk_feedbacks k);
             k2 = k1\<lparr>sk_updated := False\<rparr>
         in case (sk_last_ts k, aggregated) of
              (Some last_fb_ts, Some fb) \<Rightarrow>
                (if now < last_fb_ts + unat (fb_interval_ms fb) then (None, k2) else (aggregated, k2))
            | _ \<Rightarrow> (aggregated, k2)))"

record 'u aggregator =
  fa_kinds :: "'u single_kind list"
  fa_queue :: "feedback list"

definition fa_default :: "'u aggregator" where
  "fa_default = \<lparr>fa_kinds = [], fa_queue = []\<rparr>"

text \<open>\<^verbatim>\<open>get_fb_kind\<close> returns a reference; here, the index of the kind in the updated list.\<close>

definition fa_get_kind :: "u8 \<Rightarrow> 'u aggregator \<Rightarrow> nat \<times> 'u aggregator" where
  "fa_get_kind kind a =
     (case position (\<lambda>k. sk_kind k = kind) (fa_kinds a) of
        Some i \<Rightarrow> (i, a)
      | None \<Rightarrow> (length (fa_kinds a),
          a\<lparr>fa_kinds := fa_kinds a @ [\<lparr>sk_kind = kind, sk_feedbacks = [], sk_updated = False, sk_last_ts = None\<rparr>]\<rparr>))"

definition fa_on_feedback :: "'u feedback_source \<Rightarrow> time \<Rightarrow> feedback \<Rightarrow> 'u aggregator \<Rightarrow> 'u aggregator" where
  "fa_on_feedback source now fb a =
     (let (i, a1) = fa_get_kind (fb_kind fb) a;
          (out, k) = sk_process now (sk_on_feedback source now fb (fa_kinds a1 ! i));
          a2 = a1\<lparr>fa_kinds := (fa_kinds a1)[i := k]\<rparr>
      in case out of Some g \<Rightarrow> a2\<lparr>fa_queue := fa_queue a2 @ [g]\<rparr> | None \<Rightarrow> a2)"

definition fa_on_local_feedback :: "time \<Rightarrow> 'u feature_actor \<Rightarrow> feedback \<Rightarrow> 'u aggregator \<Rightarrow> 'u aggregator" where
  "fa_on_local_feedback now actor = fa_on_feedback (FsLocal actor) now"

definition fa_on_remote_feedback :: "time \<Rightarrow> net_pair \<Rightarrow> feedback \<Rightarrow> 'u aggregator \<Rightarrow> 'u aggregator" where
  "fa_on_remote_feedback now remote = fa_on_feedback (FsRemote remote) now"

text \<open>The loop \<^verbatim>\<open>while let Some(fb) = kind.process_feedbacks(now)\<close>; \<open>None\<close> is a loop that never ends.\<close>

partial_function (option) drain_kind :: "time \<Rightarrow> 'u single_kind \<Rightarrow> feedback list \<Rightarrow> ('u single_kind \<times> feedback list) option" where
  [code]: "drain_kind now k queue =
     (case sk_process now k of
        (Some fb, k') \<Rightarrow> drain_kind now k' (queue @ [fb])
      | (None, k') \<Rightarrow> Some (k', queue))"

fun drain_kinds :: "time \<Rightarrow> 'u single_kind list \<Rightarrow> feedback list \<Rightarrow> ('u single_kind list \<times> feedback list) option" where
  "drain_kinds now [] queue = Some ([], queue)"
| "drain_kinds now (k # ks) queue =
     do {
       (k', queue1) \<leftarrow> drain_kind now k queue;
       (ks', queue2) \<leftarrow> drain_kinds now ks queue1;
       Some (k' # ks', queue2)
     }"

definition fa_on_tick :: "time \<Rightarrow> 'u aggregator \<Rightarrow> 'u aggregator run" where
  "fa_on_tick now a =
     do {
       (ks, queue) \<leftarrow> drain_kinds now (fa_kinds a) (fa_queue a);
       Some (a\<lparr>fa_kinds := filter (\<lambda>k. sk_feedbacks k \<noteq> []) ks, fa_queue := queue\<rparr>)
     }"

definition fa_pop_output :: "'u aggregator \<Rightarrow> feedback option \<times> 'u aggregator" where
  "fa_pop_output a = (case fa_queue a of [] \<Rightarrow> (None, a) | g # gs \<Rightarrow> (Some g, a\<lparr>fa_queue := gs\<rparr>))"

subsection \<open>Termination\<close>

lemma sk_process_twice:
  assumes "sk_process now k = (out, k')"
  shows "\<exists>k''. sk_process now k' = (None, k'') \<and> \<not> sk_updated k'' \<and> sk_kind k'' = sk_kind k \<and> sk_feedbacks k'' = sk_feedbacks k'"
  using assms by (auto simp: sk_process_def Let_def split: if_splits option.splits)

lemma drain_kind_run:
  "drain_kind now k queue =
     (case sk_process now k of (out, k') \<Rightarrow> Some (if out = None then k' else snd (sk_process now k'), queue @ (case out of Some g \<Rightarrow> [g] | None \<Rightarrow> [])))"
proof (cases "sk_process now k")
  case (Pair out k')
  obtain k'' where "sk_process now k' = (None, k'')" using sk_process_twice [OF Pair] by blast
  then show ?thesis using Pair by (cases out) (simp_all add: drain_kind.simps [of now k] drain_kind.simps [of now k'])
qed

lemma drain_kinds_run: "\<exists>ks' gs. drain_kinds now ks queue = Some (ks', queue @ gs) \<and> length gs \<le> length ks"
proof (induction ks arbitrary: queue)
  case (Cons k ks)
  obtain k' g where d: "drain_kind now k queue = Some (k', queue @ g)" "length g \<le> 1"
    by (cases "sk_process now k") (auto simp: drain_kind_run split: option.splits)
  obtain ks' gs where "drain_kinds now ks (queue @ g) = Some (ks', (queue @ g) @ gs)" "length gs \<le> length ks"
    using Cons.IH by blast
  then show ?case using d by (intro exI [of _ "k' # ks'"] exI [of _ "g @ gs"]) simp
qed simp

text \<open>
  C33. The aggregator's tick ends: the loop that drains a kind takes at most one more report from it, whatever the
  time, the stored reports and the pending queue are, and a tick queues at most one report per kind.
\<close>

theorem feedback_tick_terminates:
  "(\<exists>k' gs. drain_kind now k queue = Some (k', queue @ gs) \<and> length gs \<le> 1) \<and>
   (\<exists>a' gs. fa_on_tick now a = Some a' \<and> fa_queue a' = fa_queue a @ gs \<and> length gs \<le> length (fa_kinds a))"
proof
  show "\<exists>k' gs. drain_kind now k queue = Some (k', queue @ gs) \<and> length gs \<le> 1"
    by (cases "sk_process now k") (auto simp: drain_kind_run split: option.splits)
  show "\<exists>a' gs. fa_on_tick now a = Some a' \<and> fa_queue a' = fa_queue a @ gs \<and> length gs \<le> length (fa_kinds a)"
    using drain_kinds_run [of now "fa_kinds a" "fa_queue a"] by (auto simp: fa_on_tick_def)
qed

subsection \<open>Stored reports\<close>

definition wf_single :: "'u single_kind \<Rightarrow> bool" where
  "wf_single k \<longleftrightarrow> wf_map (sk_feedbacks k) \<and> \<not> sk_updated k \<and> sk_last_ts k = None \<and>
     (\<forall>(_, fb, _)\<in>set (sk_feedbacks k). fb_kind fb = sk_kind k)"

definition wf_aggregator :: "'u aggregator \<Rightarrow> bool" where
  "wf_aggregator a \<longleftrightarrow> distinct (map sk_kind (fa_kinds a)) \<and> (\<forall>k\<in>set (fa_kinds a). wf_single k)"

text \<open>The report of every source of a kind, with the time it was received.\<close>

definition reports :: "'u aggregator \<Rightarrow> u8 \<Rightarrow> 'u feedback_source \<rightharpoonup> feedback \<times> time" where
  "reports a kind =
     (case position (\<lambda>k. sk_kind k = kind) (fa_kinds a) of
        Some i \<Rightarrow> map_of (sk_feedbacks (fa_kinds a ! i))
      | None \<Rightarrow> Map.empty)"

lemma reports_queue [simp]: "reports (a\<lparr>fa_queue := q\<rparr>) = reports a"
  by (rule ext) (simp add: reports_def split: option.split)

lemma fa_default_wf [wf_intros]: "wf_aggregator fa_default"
  by (simp add: wf_aggregator_def fa_default_def)

lemma put_is_update:
  "(case position (\<lambda>(a, _). a = s) xs of Some i \<Rightarrow> xs[i := (s, v)] | None \<Rightarrow> xs @ [(s, v)]) = hm_insert s v xs"
proof (induction xs)
  case (Cons x xs)
  obtain a b where x: "x = (a, b)" by (cases x)
  show ?case using Cons by (cases "position (\<lambda>(a, _). a = s) xs") (auto simp: x)
qed simp

lemma sk_on_feedback_eq:
  "sk_on_feedback s now fb k = k\<lparr>sk_updated := True, sk_feedbacks := hm_insert s (fb, now) (sk_feedbacks k)\<rparr>"
  using put_is_update [where s = s and xs = "sk_feedbacks k" and v = "(fb, now)"]
  by (auto simp: sk_on_feedback_def split: option.splits)

lemma sk_process_updated:
  assumes "sk_last_ts k = None" "sk_updated k"
  shows "sk_process now k = (aggregate None (sk_feedbacks k),
    k\<lparr>sk_feedbacks := filter (fb_live now) (sk_feedbacks k), sk_updated := False\<rparr>)"
  using assms by (simp add: sk_process_def)

lemma sk_process_idle:
  "\<not> sk_updated k \<Longrightarrow> sk_process now k = (None, k\<lparr>sk_feedbacks := filter (fb_live now) (sk_feedbacks k)\<rparr>)"
  by (simp add: sk_process_def)

text \<open>What the combination of a list of reports is.\<close>

definition combines :: "feedback \<Rightarrow> feedback set \<Rightarrow> bool" where
  "combines g F \<longleftrightarrow> fb_max g = Max (fb_max ` F) \<and> fb_min g = Min (fb_min ` F) \<and>
     fb_interval_ms g = Min (fb_interval_ms ` F) \<and> fb_timeout_ms g = Max (fb_timeout_ms ` F)"

lemma aggregate_Some:
  "\<exists>g. aggregate (Some a) xs = Some g \<and> fb_kind g = fb_kind a \<and>
     fb_count g = fb_count a + sum_list (map (\<lambda>(_, f, _). fb_count f) xs) \<and>
     fb_sum g = fb_sum a + sum_list (map (\<lambda>(_, f, _). fb_sum f) xs) \<and>
     combines g (insert a ((\<lambda>(_, f, _). f) ` set xs))"
proof (induction xs arbitrary: a)
  case (Cons x xs)
  obtain s f t where x: "x = (s, f, t)" by (cases x)
  let ?F = "(\<lambda>(_, f, _). f) ` set xs"
  have "combines g (insert (feedback_add a f) ?F) = combines g (insert a (insert f ?F))" for g
    by (cases "?F = {}") (simp_all add: combines_def feedback_add_def max.assoc min.assoc)
  with Cons.IH [of "feedback_add a f"] show ?case by (auto simp: x feedback_add_def add.assoc)
qed (simp add: combines_def)

lemma kind_position: "position (\<lambda>k. sk_kind k = c) ks = position (\<lambda>x. x = c) (map sk_kind ks)"
  by (simp add: position_map)

lemma reports_nth:
  "distinct (map sk_kind (fa_kinds a)) \<Longrightarrow> i < length (fa_kinds a) \<Longrightarrow>
     reports a (sk_kind (fa_kinds a ! i)) = map_of (sk_feedbacks (fa_kinds a ! i))"
  using position_distinct [of "map sk_kind (fa_kinds a)" i] by (simp add: reports_def kind_position)

lemma reports_update:
  assumes "distinct (map sk_kind (fa_kinds a))" "i < length (fa_kinds a)" "sk_kind k = sk_kind (fa_kinds a ! i)"
  shows "reports (a\<lparr>fa_kinds := (fa_kinds a)[i := k]\<rparr>) c = (if c = sk_kind k then map_of (sk_feedbacks k) else reports a c)"
proof -
  have "map sk_kind ((fa_kinds a)[i := k]) = map sk_kind (fa_kinds a)"
    using assms(2,3) by (simp add: map_update list_update_same_conv)
  then have pos: "position (\<lambda>k. sk_kind k = c) ((fa_kinds a)[i := k]) = position (\<lambda>x. x = c) (map sk_kind (fa_kinds a))"
    by (simp add: kind_position)
  show ?thesis
  proof (cases "c = sk_kind k")
    case True
    then have "position (\<lambda>x. x = c) (map sk_kind (fa_kinds a)) = Some i"
      using position_distinct [of "map sk_kind (fa_kinds a)" i] assms by simp
    with pos show ?thesis using True assms(2) by (simp add: reports_def)
  next
    case False
    then have "position (\<lambda>x. x = c) (map sk_kind (fa_kinds a)) \<noteq> Some i"
      using position_Some [of "\<lambda>x. x = c" "map sk_kind (fa_kinds a)" i] assms(2,3) by auto
    then show ?thesis
      using False pos by (auto simp: reports_def kind_position split: option.splits)
  qed
qed

lemma fa_get_kind_run:
  assumes "wf_aggregator a" "fa_get_kind kind a = (i, a1)"
  shows "wf_aggregator a1" "i < length (fa_kinds a1)" "sk_kind (fa_kinds a1 ! i) = kind" "fa_queue a1 = fa_queue a"
    "reports a1 = reports a"
proof -
  let ?p = "position (\<lambda>k. sk_kind k = kind) (fa_kinds a)"
  have "wf_aggregator a1 \<and> i < length (fa_kinds a1) \<and> sk_kind (fa_kinds a1 ! i) = kind \<and> fa_queue a1 = fa_queue a \<and>
    reports a1 = reports a"
  proof (cases ?p)
    case None
    then have new: "kind \<notin> set (map sk_kind (fa_kinds a))" by (auto simp: position_None)
    let ?n = "\<lparr>sk_kind = kind, sk_feedbacks = [], sk_updated = False, sk_last_ts = None\<rparr>"
    have a1: "a1 = a\<lparr>fa_kinds := fa_kinds a @ [?n]\<rparr>" "i = length (fa_kinds a)"
      using assms(2) None by (auto simp: fa_get_kind_def)
    have "position P (ks @ [n]) = (case position P ks of Some i \<Rightarrow> Some i | None \<Rightarrow> if P n then Some (length ks) else None)"
      for P and ks :: "'a single_kind list" and n
      by (induction ks) (auto split: option.splits)
    then have "reports a1 c = reports a c" for c
      using position_Some [of "\<lambda>k. sk_kind k = c" "fa_kinds a"]
      by (auto simp: reports_def a1 nth_append split: option.splits)
    then show ?thesis
      using assms(1) new by (auto simp: wf_aggregator_def wf_single_def a1)
  next
    case (Some j)
    then show ?thesis using assms position_Some [OF Some] by (auto simp: fa_get_kind_def)
  qed
  then show "wf_aggregator a1" "i < length (fa_kinds a1)" "sk_kind (fa_kinds a1 ! i) = kind" "fa_queue a1 = fa_queue a"
    "reports a1 = reports a" by blast+
qed

lemma hm_update_set: "x \<in> set (hm_insert k v m) \<Longrightarrow> x = (k, v) \<or> x \<in> set m"
  by (induction m) (auto split: if_splits)

lemma hm_update_ne: "hm_insert k v m \<noteq> []"
  by (cases m) auto

lemma aggregate_map:
  assumes "wf_map m" "m \<noteq> []" "\<forall>(_, f, _)\<in>set m. fb_kind f = kind"
  shows "\<exists>g. aggregate None m = Some g \<and> fb_kind g = kind \<and>
    fb_count g = (\<Sum>s\<in>dom (map_of m). fb_count (fst (the (map_of m s)))) \<and>
    fb_sum g = (\<Sum>s\<in>dom (map_of m). fb_sum (fst (the (map_of m s)))) \<and>
    combines g ((\<lambda>s. fst (the (map_of m s))) ` dom (map_of m))"
proof -
  have dist: "sum_list (map (\<lambda>(_, f, _). h f) m) = (\<Sum>s\<in>dom (map_of m). h (fst (the (map_of m s))))"
    for h :: "feedback \<Rightarrow> u64"
  proof -
    have eq: "map (\<lambda>(_, f, _). h f) m = map (\<lambda>s. h (fst (the (map_of m s)))) (map fst m)"
      using assms(1) by (auto intro!: map_cong)
    show ?thesis unfolding eq
      using sum_list_distinct_conv_sum_set [OF assms(1), of "\<lambda>s. h (fst (the (map_of m s)))"]
      by (simp add: dom_map_of_conv_image_fst)
  qed
  have img: "(\<lambda>(_, f, _). f) ` set m = (\<lambda>s. fst (the (map_of m s))) ` dom (map_of m)"
    unfolding dom_map_of_conv_image_fst image_image using assms(1) by (auto intro!: image_cong)
  obtain s f t m' where m: "m = (s, f, t) # m'" using assms(2) by (cases m) auto
  obtain g where g: "aggregate (Some f) m' = Some g" "fb_kind g = fb_kind f"
      "fb_count g = fb_count f + sum_list (map (\<lambda>(_, f, _). fb_count f) m')"
      "fb_sum g = fb_sum f + sum_list (map (\<lambda>(_, f, _). fb_sum f) m')"
      "combines g (insert f ((\<lambda>(_, f, _). f) ` set m'))"
    using aggregate_Some [of f m'] by blast
  have "aggregate None m = Some g" "fb_kind g = kind" "combines g ((\<lambda>(_, f, _). f) ` set m)"
    "fb_count g = sum_list (map (\<lambda>(_, f, _). fb_count f) m)" "fb_sum g = sum_list (map (\<lambda>(_, f, _). fb_sum f) m)"
    using g assms(3) by (simp_all add: m)
  then show ?thesis unfolding dist img by blast
qed

definition live_reports :: "time \<Rightarrow> ('s \<rightharpoonup> feedback \<times> time) \<Rightarrow> 's \<rightharpoonup> feedback \<times> time" where
  "live_reports now R = (\<lambda>s. case R s of Some (f, t) \<Rightarrow> if now < t + unat (fb_timeout_ms f) then Some (f, t) else None | None \<Rightarrow> None)"

lemma live_reports_filter: "wf_map m \<Longrightarrow> map_of (filter (fb_live now) m) = live_reports now (map_of m)"
  by (rule ext) (auto simp: hm_get_filter live_reports_def fb_live_def split: option.splits)

text \<open>
  C32. What a consumer's feedback leads to. The aggregator queues exactly one report, in which every consumer of that
  kind counts once, with its latest feedback: counts and sums add up (modulo \<^verbatim>\<open>2^64\<close>), the bounds and timings are the
  extremes over all consumers. Reports that have timed out are counted a last time and then forgotten; the other
  kinds are untouched. Whatever interval the consumers asked for, no report is held back.
\<close>

theorem feedback_aggregation:
  assumes "wf_aggregator a" and R_def: "R = (reports a (fb_kind fb))(source \<mapsto> (fb, now))"
  shows "\<exists>g. fa_queue (fa_on_feedback source now fb a) = fa_queue a @ [g] \<and> fb_kind g = fb_kind fb \<and>
    fb_count g = (\<Sum>s\<in>dom R. fb_count (fst (the (R s)))) \<and> fb_sum g = (\<Sum>s\<in>dom R. fb_sum (fst (the (R s)))) \<and>
    combines g ((\<lambda>s. fst (the (R s))) ` dom R) \<and>
    reports (fa_on_feedback source now fb a) = (reports a)(fb_kind fb := live_reports now R) \<and>
    wf_aggregator (fa_on_feedback source now fb a)"
proof -
  obtain i a1 where g: "fa_get_kind (fb_kind fb) a = (i, a1)" by (cases "fa_get_kind (fb_kind fb) a")
  note k = fa_get_kind_run [OF assms(1) g]
  let ?k = "fa_kinds a1 ! i" and ?m = "hm_insert source (fb, now) (sk_feedbacks (fa_kinds a1 ! i))"
  have wfk: "wf_single ?k" and dist: "distinct (map sk_kind (fa_kinds a1))" using k(1,2) by (auto simp: wf_aggregator_def)
  have R: "R = map_of ?m" using reports_nth [OF dist k(2)] k(3,5) by (simp add: R_def)
  have wfm: "wf_map ?m" using wfk by (simp add: wf_single_def wf_hm_insert)
  have kinds: "\<forall>(_, f, _)\<in>set ?m. fb_kind f = fb_kind fb"
    using wfk k(3) by (fastforce simp: wf_single_def dest: hm_update_set)
  obtain r where r: "aggregate None ?m = Some r" "fb_kind r = fb_kind fb"
      "fb_count r = (\<Sum>s\<in>dom R. fb_count (fst (the (R s))))" "fb_sum r = (\<Sum>s\<in>dom R. fb_sum (fst (the (R s))))"
      "combines r ((\<lambda>s. fst (the (R s))) ` dom R)"
    using aggregate_map [OF wfm hm_update_ne kinds] unfolding R by blast
  let ?k' = "?k\<lparr>sk_feedbacks := filter (fb_live now) ?m, sk_updated := False\<rparr>"
  have eq: "fa_on_feedback source now fb a = a1\<lparr>fa_kinds := (fa_kinds a1)[i := ?k'], fa_queue := fa_queue a @ [r]\<rparr>"
    using wfk r(1) k(4) by (simp add: fa_on_feedback_def g sk_on_feedback_eq sk_process_updated wf_single_def)
  have "reports (fa_on_feedback source now fb a) c = reports (a1\<lparr>fa_kinds := (fa_kinds a1)[i := ?k']\<rparr>) c" for c
    unfolding eq by simp
  then have "reports (fa_on_feedback source now fb a) = (reports a)(fb_kind fb := live_reports now R)"
    using reports_update [OF dist k(2), of ?k'] k(3,5) by (auto simp: R live_reports_filter [OF wfm])
  moreover have "wf_aggregator (fa_on_feedback source now fb a)"
  proof -
    have "wf_single ?k'" using wfk wfm kinds k(3) by (auto simp: wf_single_def wf_hm_filter)
    moreover have "map sk_kind ((fa_kinds a1)[i := ?k']) = map sk_kind (fa_kinds a1)"
      using k(2) by (simp add: map_update list_update_same_conv)
    ultimately show ?thesis using k(1) dist by (auto simp: eq wf_aggregator_def dest!: set_update_subset_insert [THEN subsetD])
  qed
  ultimately show ?thesis using r by (auto simp: eq)
qed

definition demo_aggregator :: "unit aggregator" where
  "demo_aggregator =
     \<lparr>fa_kinds = [\<lparr>sk_kind = 1, sk_feedbacks = [(FsLocal (ActorService 2), feedback_simple 1 10 1000 2000, 5)],
        sk_updated = False, sk_last_ts = None\<rparr>], fa_queue = []\<rparr>"

lemma feedback_aggregation_witness:
  "wf_aggregator demo_aggregator \<and>
   (\<exists>g. fa_queue (fa_on_feedback (FsLocal (ActorService 3)) 7 (feedback_simple 1 30 1000 2000) demo_aggregator) = [g] \<and>
      fb_count g = 2 \<and> fb_sum g = 40 \<and> fb_max g = 30)"
proof -
  let ?fb = "feedback_simple 1 30 1000 2000"
  have wf: "wf_aggregator demo_aggregator"
    by (simp add: wf_aggregator_def wf_single_def demo_aggregator_def feedback_simple_def)
  have "(reports demo_aggregator (fb_kind ?fb))(FsLocal (ActorService 3) \<mapsto> (?fb, 7)) =
    [FsLocal (ActorService 2) \<mapsto> (feedback_simple 1 10 1000 2000, 5), FsLocal (ActorService 3) \<mapsto> (?fb, 7)]"
    by (simp add: reports_def demo_aggregator_def feedback_simple_def)
  from feedback_aggregation [OF wf this [symmetric]] wf show ?thesis
    by (auto simp: feedback_simple_def combines_def demo_aggregator_def)
qed

lemma reports_member:
  "distinct (map sk_kind (fa_kinds a)) \<Longrightarrow> k \<in> set (fa_kinds a) \<Longrightarrow> reports a (sk_kind k) = map_of (sk_feedbacks k)"
  using reports_nth [of a] by (auto simp: in_set_conv_nth)

lemma reports_absent: "c \<notin> sk_kind ` set (fa_kinds a) \<Longrightarrow> reports a c = Map.empty"
  using position_None [of "\<lambda>k. sk_kind k = c" "fa_kinds a"] by (auto simp: reports_def split: option.splits)

lemma drain_kinds_idle:
  "\<forall>k\<in>set ks. \<not> sk_updated k \<Longrightarrow>
     drain_kinds now ks queue = Some (map (\<lambda>k. k\<lparr>sk_feedbacks := filter (fb_live now) (sk_feedbacks k)\<rparr>) ks, queue)"
  by (induction ks) (simp_all add: drain_kind_run sk_process_idle)

lemma wf_single_filter: "wf_single k \<Longrightarrow> wf_single (k\<lparr>sk_feedbacks := filter P (sk_feedbacks k)\<rparr>)"
  by (auto simp: wf_single_def wf_hm_filter)

text \<open>A tick queues nothing: every feedback has been reported when it came. It forgets the reports that timed out.\<close>

lemma fa_on_tick_run:
  assumes "wf_aggregator a"
  shows "\<exists>a'. fa_on_tick now a = Some a' \<and> wf_aggregator a' \<and> fa_queue a' = fa_queue a \<and>
    reports a' = (\<lambda>c. live_reports now (reports a c))"
proof -
  let ?f = "\<lambda>k. k\<lparr>sk_feedbacks := filter (fb_live now) (sk_feedbacks k)\<rparr>"
  let ?a = "a\<lparr>fa_kinds := filter (\<lambda>k. sk_feedbacks k \<noteq> []) (map ?f (fa_kinds a)), fa_queue := fa_queue a\<rparr>"
  have wf: "distinct (map sk_kind (fa_kinds a))" "\<forall>k\<in>set (fa_kinds a). wf_single k" using assms by (auto simp: wf_aggregator_def)
  have run: "fa_on_tick now a = Some ?a"
    using wf(2) by (simp add: fa_on_tick_def drain_kinds_idle wf_single_def)
  have "distinct (map sk_kind (map ?f (fa_kinds a)))" using wf(1) by (simp add: comp_def)
  then have dist: "distinct (map sk_kind (fa_kinds ?a))" by (simp add: distinct_map_filter)
  have wf': "wf_aggregator ?a"
    using dist wf(2) by (auto simp: wf_aggregator_def wf_single_filter)
  have "reports ?a c = live_reports now (reports a c)" for c
  proof (cases "c \<in> sk_kind ` set (fa_kinds a)")
    case True
    then obtain k where k: "k \<in> set (fa_kinds a)" "sk_kind k = c" by blast
    then have r: "reports a c = map_of (sk_feedbacks k)" using reports_member [OF wf(1)] by blast
    have m: "map_of (filter (fb_live now) (sk_feedbacks k)) = live_reports now (reports a c)"
      using wf(2) k(1) by (simp add: r live_reports_filter wf_single_def)
    show ?thesis
    proof (cases "filter (fb_live now) (sk_feedbacks k) = []")
      case True
      have "c \<notin> sk_kind ` set (fa_kinds ?a)"
        using True k wf(1) by (auto simp: distinct_map dest: inj_onD)
      then show ?thesis using m by (simp add: reports_absent True)
    next
      case False
      then have "?f k \<in> set (fa_kinds ?a)" using k(1) by auto
      then show ?thesis using reports_member [OF dist] k(2) m by fastforce
    qed
  next
    case False
    then have "c \<notin> sk_kind ` set (fa_kinds ?a)" by auto
    then show ?thesis using False by (simp add: reports_absent live_reports_def)
  qed
  then show ?thesis using run wf' by (auto simp: fun_eq_iff)
qed

end
