(* ===== verification/Pubsub_Relay.thy ===== *)
theory Pubsub_Relay
  imports Pubsub_Feedback
begin

text \<open>
  Relays of the publish/subscribe feature: the consumers of a relay
  (\<^verbatim>\<open>packages/network/src/features/pubsub/controller/consumers.rs\<close>), the relay at the source node (\<^verbatim>\<open>local_relay.rs\<close>), the
  relay at every other node with its binding state machine (\<^verbatim>\<open>remote_relay.rs\<close>), the \<^verbatim>\<open>GenericRelay\<close> interface over both
  (\<^verbatim>\<open>controller.rs\<close>), and the route entry that a worker keeps for a relay (\<^verbatim>\<open>worker.rs\<close>).

  The lemmas show that the controls a relay sends to the workers keep the workers' entry equal to the relay's
  consumers, and its trusted source equal to the upstream neighbour it is bound to.
\<close>

definition RELAY_TIMEOUT :: time where "RELAY_TIMEOUT = 10000"
definition RELAY_STICKY_MS :: time where "RELAY_STICKY_MS = 5 * 60 * 1000"

subsection \<open>Consumers\<close>

record relay_remote =
  rr_uuid :: u64
  rr_last_sub :: time

record 'u consumers =
  co_remotes :: "(net_pair \<times> relay_remote) list"
  co_locals :: "'u feature_actor list"
  co_queue :: "'u relay_worker_control list"

definition co_default :: "'u consumers" where
  "co_default = \<lparr>co_remotes = [], co_locals = [], co_queue = []\<rparr>"

definition co_push :: "'u relay_worker_control list \<Rightarrow> 'u consumers \<Rightarrow> 'u consumers" where
  "co_push ctls c = c\<lparr>co_queue := co_queue c @ ctls\<rparr>"

definition co_drop_remote :: "net_pair \<Rightarrow> 'u consumers \<Rightarrow> 'u consumers" where
  "co_drop_remote remote c = co_push [RouteDelRemote remote] (c\<lparr>co_remotes := hm_remove remote (co_remotes c)\<rparr>)"

definition co_on_tick :: "time \<Rightarrow> 'u consumers \<Rightarrow> 'u consumers" where
  "co_on_tick now c =
     (let timeout = map fst (filter (\<lambda>(_, slot). now \<ge> rr_last_sub slot + RELAY_TIMEOUT) (co_remotes c))
      in fold co_drop_remote timeout c)"

definition co_on_local_sub :: "'u feature_actor \<Rightarrow> 'u consumers \<Rightarrow> 'u consumers" where
  "co_on_local_sub actor c =
     (if actor \<in> set (co_locals c) then c
      else co_push [RouteSetLocal actor] (c\<lparr>co_locals := co_locals c @ [actor]\<rparr>))"

definition co_on_local_unsub :: "'u feature_actor \<Rightarrow> 'u consumers \<Rightarrow> 'u consumers" where
  "co_on_local_unsub actor c =
     (case position (\<lambda>a. a = actor) (co_locals c) of
        Some pos \<Rightarrow> co_push [RouteDelLocal actor] (c\<lparr>co_locals := swap_remove pos (co_locals c)\<rparr>)
      | None \<Rightarrow> c)"

fun co_on_remote :: "time \<Rightarrow> net_pair \<Rightarrow> relay_control \<Rightarrow> 'u consumers \<Rightarrow> 'u consumers" where
  "co_on_remote now remote (RcSub uuid) c =
     (case map_of (co_remotes c) remote of
        Some slot \<Rightarrow>
          (if uuid = rr_uuid slot
           then co_push [SendSubOk uuid remote] (c\<lparr>co_remotes := hm_insert remote (slot\<lparr>rr_last_sub := now\<rparr>) (co_remotes c)\<rparr>)
           else c)
      | None \<Rightarrow>
          co_push [SendSubOk uuid remote, RouteSetRemote remote uuid]
            (c\<lparr>co_remotes := hm_insert remote \<lparr>rr_uuid = uuid, rr_last_sub = now\<rparr> (co_remotes c)\<rparr>))"
| "co_on_remote now remote (RcUnsub uuid) c =
     (case map_of (co_remotes c) remote of
        Some slot \<Rightarrow>
          (if rr_uuid slot = uuid then co_drop_remote remote (co_push [SendUnsubOk uuid remote] c) else c)
      | None \<Rightarrow> c)"
| "co_on_remote now remote _ c = c"

definition co_conn_disconnected :: "net_pair \<Rightarrow> 'u consumers \<Rightarrow> 'u consumers" where
  "co_conn_disconnected remote c = (if map_of (co_remotes c) remote \<noteq> None then co_drop_remote remote c else c)"

definition co_should_clear :: "'u consumers \<Rightarrow> bool" where
  "co_should_clear c \<longleftrightarrow> co_locals c = [] \<and> co_remotes c = []"

definition co_relay_dests :: "'u consumers \<Rightarrow> 'u feature_actor list \<times> bool" where
  "co_relay_dests c = (co_locals c, co_remotes c \<noteq> [])"

definition co_pop_output :: "'u consumers \<Rightarrow> 'u relay_worker_control option \<times> 'u consumers" where
  "co_pop_output c = (case co_queue c of [] \<Rightarrow> (None, c) | x # xs \<Rightarrow> (Some x, c\<lparr>co_queue := xs\<rparr>))"

subsection \<open>The relay at the source\<close>

datatype 'u relay_output =
    RoToWorker "'u relay_worker_control"
  | RoRouteChanged "'u feature_actor"
  | RoFeedback "'u feature_actor list" feedback

record 'u local_relay =
  lr_consumers :: "'u consumers"
  lr_feedbacks :: "'u aggregator"
  lr_publishers :: "'u feature_actor list"

definition lr_default :: "'u local_relay" where
  "lr_default = \<lparr>lr_consumers = co_default, lr_feedbacks = fa_default, lr_publishers = []\<rparr>"

definition lr_on_tick :: "time \<Rightarrow> 'u local_relay \<Rightarrow> 'u local_relay run" where
  "lr_on_tick now l =
     do {
       f \<leftarrow> fa_on_tick now (lr_feedbacks l);
       Some (l\<lparr>lr_feedbacks := f, lr_consumers := co_on_tick now (lr_consumers l)\<rparr>)
     }"

definition lr_on_pub_start :: "'u feature_actor \<Rightarrow> 'u local_relay \<Rightarrow> 'u local_relay" where
  "lr_on_pub_start actor l =
     (if actor \<notin> set (lr_publishers l) then l\<lparr>lr_publishers := lr_publishers l @ [actor]\<rparr> else l)"

definition lr_on_pub_stop :: "'u feature_actor \<Rightarrow> 'u local_relay \<Rightarrow> 'u local_relay" where
  "lr_on_pub_stop actor l =
     (case position (\<lambda>a. a = actor) (lr_publishers l) of
        Some pos \<Rightarrow> l\<lparr>lr_publishers := swap_remove pos (lr_publishers l)\<rparr>
      | None \<Rightarrow> l)"

definition lr_on_local_sub :: "'u feature_actor \<Rightarrow> 'u local_relay \<Rightarrow> 'u local_relay" where
  "lr_on_local_sub actor l = l\<lparr>lr_consumers := co_on_local_sub actor (lr_consumers l)\<rparr>"

definition lr_on_local_feedback :: "time \<Rightarrow> 'u feature_actor \<Rightarrow> feedback \<Rightarrow> 'u local_relay \<Rightarrow> 'u local_relay" where
  "lr_on_local_feedback now actor fb l = l\<lparr>lr_feedbacks := fa_on_local_feedback now actor fb (lr_feedbacks l)\<rparr>"

definition lr_on_local_unsub :: "'u feature_actor \<Rightarrow> 'u local_relay \<Rightarrow> 'u local_relay" where
  "lr_on_local_unsub actor l = l\<lparr>lr_consumers := co_on_local_unsub actor (lr_consumers l)\<rparr>"

definition lr_on_remote :: "time \<Rightarrow> net_pair \<Rightarrow> relay_control \<Rightarrow> 'u local_relay \<Rightarrow> 'u local_relay" where
  "lr_on_remote now remote control l =
     (case control of
        RcFeedback fb \<Rightarrow> l\<lparr>lr_feedbacks := fa_on_remote_feedback now remote fb (lr_feedbacks l)\<rparr>
      | _ \<Rightarrow> l\<lparr>lr_consumers := co_on_remote now remote control (lr_consumers l)\<rparr>)"

definition lr_conn_disconnected :: "net_pair \<Rightarrow> 'u local_relay \<Rightarrow> 'u local_relay" where
  "lr_conn_disconnected remote l = l\<lparr>lr_consumers := co_conn_disconnected remote (lr_consumers l)\<rparr>"

definition lr_should_clear :: "'u local_relay \<Rightarrow> bool" where
  "lr_should_clear l \<longleftrightarrow> co_should_clear (lr_consumers l) \<and> lr_publishers l = []"

definition lr_pop_output :: "'u local_relay \<Rightarrow> 'u relay_output option \<times> 'u local_relay" where
  "lr_pop_output l =
     (case fa_pop_output (lr_feedbacks l) of
        (Some fb, f) \<Rightarrow> (Some (RoFeedback (lr_publishers l) fb), l\<lparr>lr_feedbacks := f\<rparr>)
      | (None, _) \<Rightarrow>
          (let (out, c) = co_pop_output (lr_consumers l) in (map_option RoToWorker out, l\<lparr>lr_consumers := c\<rparr>)))"

subsection \<open>The relay at the other nodes\<close>

datatype 'u relay_state =
    RsNew
  | RsBinding "'u consumers" "'u aggregator"
  | RsBound "'u consumers" "'u aggregator" net_pair time
  | RsUnbinding net_pair time
  | RsUnbound

record 'u remote_relay =
  re_uuid :: u64
  re_state :: "'u relay_state"
  re_queue :: "'u relay_output list"

definition re_new :: "u64 \<Rightarrow> 'u remote_relay" where
  "re_new uuid = \<lparr>re_uuid = uuid, re_state = RsNew, re_queue = []\<rparr>"

definition re_push :: "'u relay_output list \<Rightarrow> 'u remote_relay \<Rightarrow> 'u remote_relay" where
  "re_push outs r = r\<lparr>re_queue := re_queue r @ outs\<rparr>"

text \<open>\<^verbatim>\<open>pop_consumers_out\<close> and \<^verbatim>\<open>pop_feedbacks_out\<close>: the \<^verbatim>\<open>while let\<close> loops move a whole queue.\<close>

definition pop_consumers_out :: "'u consumers \<Rightarrow> 'u relay_output list \<Rightarrow> 'u consumers \<times> 'u relay_output list" where
  "pop_consumers_out c queue = (c\<lparr>co_queue := []\<rparr>, queue @ map RoToWorker (co_queue c))"

definition pop_feedbacks_out :: "net_pair \<Rightarrow> 'u aggregator \<Rightarrow> 'u relay_output list \<Rightarrow> 'u aggregator \<times> 'u relay_output list" where
  "pop_feedbacks_out remote f queue = (f\<lparr>fa_queue := []\<rparr>, queue @ map (\<lambda>fb. RoToWorker (SendFeedback fb remote)) (fa_queue f))"

text \<open>The three lines that end a bound relay without consumers.\<close>

definition re_unbind :: "time \<Rightarrow> net_pair \<Rightarrow> 'u remote_relay \<Rightarrow> 'u remote_relay" where
  "re_unbind now next r =
     re_push [RoToWorker (SendUnsub (re_uuid r) next), RoToWorker (RouteDelSource next)] (r\<lparr>re_state := RsUnbinding next now\<rparr>)"

definition re_on_tick :: "time \<Rightarrow> 'u remote_relay \<Rightarrow> 'u remote_relay run" where
  "re_on_tick now r =
     (case re_state r of
        RsBound c f next sticky_session_at \<Rightarrow>
          (let r1 = re_push [RoToWorker (SendSub (re_uuid r)
                      (if now \<ge> sticky_session_at + RELAY_STICKY_MS then None else Some next))] r
           in do {
             f1 \<leftarrow> fa_on_tick now f;
             let (c2, q2) = pop_consumers_out (co_on_tick now c) (re_queue r1);
             let (f2, q3) = pop_feedbacks_out next f1 q2;
             let r2 = r1\<lparr>re_state := RsBound c2 f2 next sticky_session_at, re_queue := q3\<rparr>;
             Some (if co_should_clear c2 then re_unbind now next r2 else r2)
           })
      | RsBinding c f \<Rightarrow>
          (let r1 = re_push [RoToWorker (SendSub (re_uuid r) None)] r;
               (c2, q2) = pop_consumers_out (co_on_tick now c) (re_queue r1)
           in Some (r1\<lparr>re_queue := q2, re_state := (if co_should_clear c2 then RsUnbound else RsBinding c2 f)\<rparr>))
      | RsUnbinding next started_at \<Rightarrow>
          Some (if now \<ge> started_at + RELAY_TIMEOUT then r\<lparr>re_state := RsUnbound\<rparr>
                else re_push [RoToWorker (SendUnsub (re_uuid r) next)] r)
      | _ \<Rightarrow> Some r)"

definition re_conn_disconnected :: "time \<Rightarrow> net_pair \<Rightarrow> 'u remote_relay \<Rightarrow> 'u remote_relay" where
  "re_conn_disconnected now remote r =
     (case re_state r of
        RsBound c f next sticky \<Rightarrow>
          (let (c1, q1) = pop_consumers_out (co_conn_disconnected remote c) (re_queue r);
               r1 = r\<lparr>re_queue := q1, re_state := RsBound c1 f next sticky\<rparr>
           in if next = remote then re_push [RoToWorker (SendSub (re_uuid r) None)] (r1\<lparr>re_state := RsBinding c1 f\<rparr>)
              else if co_should_clear c1 then re_unbind now next r1
              else r1)
      | RsBinding c f \<Rightarrow>
          (let (c1, q1) = pop_consumers_out (co_conn_disconnected remote c) (re_queue r)
           in r\<lparr>re_queue := q1, re_state := (if co_should_clear c1 then RsUnbound else RsBinding c1 f)\<rparr>)
      | _ \<Rightarrow> r)"

definition re_on_pub_start :: "'u feature_actor \<Rightarrow> 'u remote_relay \<Rightarrow> 'u remote_relay run" where
  "re_on_pub_start actor r = None"

definition re_on_pub_stop :: "'u feature_actor \<Rightarrow> 'u remote_relay \<Rightarrow> 'u remote_relay run" where
  "re_on_pub_stop actor r = None"

definition re_on_local_sub :: "'u feature_actor \<Rightarrow> 'u remote_relay \<Rightarrow> 'u remote_relay" where
  "re_on_local_sub actor r =
     (let fresh = (\<lambda>target.
            let (c, q) = pop_consumers_out (co_on_local_sub actor co_default) (re_queue r)
            in re_push [RoToWorker (SendSub (re_uuid r) target)] (r\<lparr>re_queue := q, re_state := RsBinding c fa_default\<rparr>))
      in case re_state r of
           RsNew \<Rightarrow> fresh None
         | RsUnbound \<Rightarrow> fresh None
         | RsUnbinding next _ \<Rightarrow> fresh (Some next)
         | RsBinding c f \<Rightarrow>
             (let (c1, q1) = pop_consumers_out (co_on_local_sub actor c) (re_queue r)
              in r\<lparr>re_queue := q1, re_state := RsBinding c1 f\<rparr>)
         | RsBound c f next sticky \<Rightarrow>
             (let (c1, q1) = pop_consumers_out (co_on_local_sub actor c) (re_queue r)
              in r\<lparr>re_queue := q1, re_state := RsBound c1 f next sticky\<rparr>))"

definition re_on_local_feedback :: "time \<Rightarrow> 'u feature_actor \<Rightarrow> feedback \<Rightarrow> 'u remote_relay \<Rightarrow> 'u remote_relay" where
  "re_on_local_feedback now actor fb r =
     (case re_state r of
        RsBinding c f \<Rightarrow> r\<lparr>re_state := RsBinding c (fa_on_local_feedback now actor fb f)\<rparr>
      | RsBound c f next sticky \<Rightarrow>
          (let (f1, q1) = pop_feedbacks_out next (fa_on_local_feedback now actor fb f) (re_queue r)
           in r\<lparr>re_queue := q1, re_state := RsBound c f1 next sticky\<rparr>)
      | _ \<Rightarrow> r)"

definition re_on_local_unsub :: "time \<Rightarrow> 'u feature_actor \<Rightarrow> 'u remote_relay \<Rightarrow> 'u remote_relay" where
  "re_on_local_unsub now actor r =
     (case re_state r of
        RsBinding c f \<Rightarrow>
          (let (c1, q1) = pop_consumers_out (co_on_local_unsub actor c) (re_queue r)
           in r\<lparr>re_queue := q1, re_state := (if co_should_clear c1 then RsUnbound else RsBinding c1 f)\<rparr>)
      | RsBound c f next sticky \<Rightarrow>
          (let (c1, q1) = pop_consumers_out (co_on_local_unsub actor c) (re_queue r);
               r1 = r\<lparr>re_queue := q1, re_state := RsBound c1 f next sticky\<rparr>
           in if co_should_clear c1 then re_unbind now next r1 else r1)
      | _ \<Rightarrow> r)"

text \<open>The arms of \<^verbatim>\<open>on_remote\<close>: \<^verbatim>\<open>SubOK\<close>, and the default arm for the controls of downstream neighbours.\<close>

definition re_on_sub_ok :: "time \<Rightarrow> net_pair \<Rightarrow> 'u remote_relay \<Rightarrow> 'u remote_relay" where
  "re_on_sub_ok now remote r =
     (case re_state r of
        RsBinding c f \<Rightarrow> re_push [RoToWorker (RouteSetSource remote)] (r\<lparr>re_state := RsBound c f remote now\<rparr>)
      | RsBound c f next sticky \<Rightarrow>
          (if next = remote then r\<lparr>re_state := RsBound c f next now\<rparr>
           else
             (let (locals, has_remote) = co_relay_dests c
              in re_push ([RoToWorker (SendUnsub (re_uuid r) next)] @ (if has_remote then [RoToWorker SendRouteChanged] else []) @
                          [RoToWorker (RouteSetSource remote)] @ map RoRouteChanged locals)
                   (r\<lparr>re_state := RsBound c f remote sticky\<rparr>)))
      | _ \<Rightarrow> r)"

definition re_on_route_changed :: "'u remote_relay \<Rightarrow> 'u remote_relay" where
  "re_on_route_changed r =
     (case re_state r of
        RsBound c f next sticky \<Rightarrow>
          (let (locals, has_remote) = co_relay_dests c
           in re_push ((if has_remote then [RoToWorker SendRouteChanged] else []) @ map RoRouteChanged locals) r)
      | _ \<Rightarrow> r)"

definition re_on_downstream :: "time \<Rightarrow> net_pair \<Rightarrow> relay_control \<Rightarrow> 'u remote_relay \<Rightarrow> 'u remote_relay" where
  "re_on_downstream now remote control r =
     (let fresh = (\<lambda>target.
            let (c, q) = pop_consumers_out (co_on_remote now remote control co_default) (re_queue r)
            in re_push [RoToWorker (SendSub (re_uuid r) target)] (r\<lparr>re_queue := q, re_state := RsBinding c fa_default\<rparr>))
      in case re_state r of
           RsNew \<Rightarrow> fresh None
         | RsUnbound \<Rightarrow> fresh None
         | RsUnbinding next _ \<Rightarrow> fresh (Some next)
         | RsBinding c f \<Rightarrow>
             (let (c1, q1) = pop_consumers_out (co_on_remote now remote control c) (re_queue r)
              in r\<lparr>re_queue := q1, re_state := (if co_should_clear c1 then RsUnbound else RsBinding c1 f)\<rparr>)
         | RsBound c f next sticky \<Rightarrow>
             (let (c1, q1) = pop_consumers_out (co_on_remote now remote control c) (re_queue r);
                  r1 = r\<lparr>re_queue := q1, re_state := RsBound c1 f next sticky\<rparr>
              in if co_should_clear c1 then re_unbind now next r1 else r1))"

definition re_on_remote :: "time \<Rightarrow> net_pair \<Rightarrow> relay_control \<Rightarrow> 'u remote_relay \<Rightarrow> 'u remote_relay" where
  "re_on_remote now remote control r =
     (case control of
        RcSubOk uuid \<Rightarrow> if uuid \<noteq> re_uuid r then r else re_on_sub_ok now remote r
      | RcUnsubOk uuid \<Rightarrow>
          if uuid \<noteq> re_uuid r then r
          else (case re_state r of RsUnbinding _ _ \<Rightarrow> r\<lparr>re_state := RsUnbound\<rparr> | _ \<Rightarrow> r)
      | RcRouteChanged uuid \<Rightarrow> if uuid \<noteq> re_uuid r then r else re_on_route_changed r
      | RcFeedback fb \<Rightarrow>
          (case re_state r of
             RsBinding c f \<Rightarrow> r\<lparr>re_state := RsBinding c (fa_on_remote_feedback now remote fb f)\<rparr>
           | RsBound c f next sticky \<Rightarrow>
               (let (f1, q1) = pop_feedbacks_out next (fa_on_remote_feedback now remote fb f) (re_queue r)
                in r\<lparr>re_queue := q1, re_state := RsBound c f1 next sticky\<rparr>)
           | _ \<Rightarrow> r)
      | _ \<Rightarrow> re_on_downstream now remote control r)"

definition re_pop_output :: "'u remote_relay \<Rightarrow> 'u relay_output option \<times> 'u remote_relay" where
  "re_pop_output r = (case re_queue r of [] \<Rightarrow> (None, r) | x # xs \<Rightarrow> (Some x, r\<lparr>re_queue := xs\<rparr>))"

definition re_relay_dests :: "'u remote_relay \<Rightarrow> ('u feature_actor list \<times> bool) option" where
  "re_relay_dests r =
     (case re_state r of
        RsBound c _ _ _ \<Rightarrow> Some (co_relay_dests c)
      | RsBinding c _ \<Rightarrow> Some (co_relay_dests c)
      | _ \<Rightarrow> None)"

definition re_should_clear :: "'u remote_relay \<Rightarrow> bool" where
  "re_should_clear r \<longleftrightarrow> re_state r = RsUnbound"

subsection \<open>The common interface\<close>

text \<open>\<^verbatim>\<open>Box<dyn GenericRelay>\<close>: a call dispatches on the relay's own type.\<close>

datatype 'u relay = LocalR "'u local_relay" | RemoteR "'u remote_relay"

fun relay_on_tick :: "time \<Rightarrow> 'u relay \<Rightarrow> 'u relay run" where
  "relay_on_tick now (LocalR l) = map_option LocalR (lr_on_tick now l)"
| "relay_on_tick now (RemoteR r) = map_option RemoteR (re_on_tick now r)"

fun relay_on_pub_start :: "'u feature_actor \<Rightarrow> 'u relay \<Rightarrow> 'u relay run" where
  "relay_on_pub_start actor (LocalR l) = Some (LocalR (lr_on_pub_start actor l))"
| "relay_on_pub_start actor (RemoteR r) = map_option RemoteR (re_on_pub_start actor r)"

fun relay_on_pub_stop :: "'u feature_actor \<Rightarrow> 'u relay \<Rightarrow> 'u relay run" where
  "relay_on_pub_stop actor (LocalR l) = Some (LocalR (lr_on_pub_stop actor l))"
| "relay_on_pub_stop actor (RemoteR r) = map_option RemoteR (re_on_pub_stop actor r)"

fun relay_on_local_sub :: "'u feature_actor \<Rightarrow> 'u relay \<Rightarrow> 'u relay" where
  "relay_on_local_sub actor (LocalR l) = LocalR (lr_on_local_sub actor l)"
| "relay_on_local_sub actor (RemoteR r) = RemoteR (re_on_local_sub actor r)"

fun relay_on_local_feedback :: "time \<Rightarrow> 'u feature_actor \<Rightarrow> feedback \<Rightarrow> 'u relay \<Rightarrow> 'u relay" where
  "relay_on_local_feedback now actor fb (LocalR l) = LocalR (lr_on_local_feedback now actor fb l)"
| "relay_on_local_feedback now actor fb (RemoteR r) = RemoteR (re_on_local_feedback now actor fb r)"

fun relay_on_local_unsub :: "time \<Rightarrow> 'u feature_actor \<Rightarrow> 'u relay \<Rightarrow> 'u relay" where
  "relay_on_local_unsub now actor (LocalR l) = LocalR (lr_on_local_unsub actor l)"
| "relay_on_local_unsub now actor (RemoteR r) = RemoteR (re_on_local_unsub now actor r)"

fun relay_on_remote :: "time \<Rightarrow> net_pair \<Rightarrow> relay_control \<Rightarrow> 'u relay \<Rightarrow> 'u relay" where
  "relay_on_remote now remote control (LocalR l) = LocalR (lr_on_remote now remote control l)"
| "relay_on_remote now remote control (RemoteR r) = RemoteR (re_on_remote now remote control r)"

fun relay_conn_disconnected :: "time \<Rightarrow> net_pair \<Rightarrow> 'u relay \<Rightarrow> 'u relay" where
  "relay_conn_disconnected now remote (LocalR l) = LocalR (lr_conn_disconnected remote l)"
| "relay_conn_disconnected now remote (RemoteR r) = RemoteR (re_conn_disconnected now remote r)"

fun relay_should_clear :: "'u relay \<Rightarrow> bool" where
  "relay_should_clear (LocalR l) = lr_should_clear l"
| "relay_should_clear (RemoteR r) = re_should_clear r"

fun relay_dests :: "'u relay \<Rightarrow> ('u feature_actor list \<times> bool) option" where
  "relay_dests (LocalR l) = Some (co_relay_dests (lr_consumers l))"
| "relay_dests (RemoteR r) = re_relay_dests r"

fun relay_pop_output :: "'u relay \<Rightarrow> 'u relay_output option \<times> 'u relay" where
  "relay_pop_output (LocalR l) = (let (out, l') = lr_pop_output l in (out, LocalR l'))"
| "relay_pop_output (RemoteR r) = (let (out, r') = re_pop_output r in (out, RemoteR r'))"

subsection \<open>A worker's route entry\<close>

record 'u worker_relay =
  wr_source :: "net_pair option"
  wr_locals :: "'u feature_actor list"
  wr_remotes :: "net_pair list"
  wr_remotes_uuid :: "(net_pair \<times> u64) list"

definition wr_is_empty :: "'u worker_relay \<Rightarrow> bool" where
  "wr_is_empty w \<longleftrightarrow> wr_locals w = [] \<and> wr_remotes w = []"

definition wr_new :: "'u worker_relay" where
  "wr_new = \<lparr>wr_source = None, wr_locals = [], wr_remotes = [], wr_remotes_uuid = []\<rparr>"

text \<open>\<^verbatim>\<open>entry(relay_id).or_insert(..)\<close>, and the removal of an entry that has become empty.\<close>

definition wr_or_new :: "'u worker_relay option \<Rightarrow> 'u worker_relay" where
  "wr_or_new e = (case e of Some w \<Rightarrow> w | None \<Rightarrow> wr_new)"

definition wr_keep :: "'u worker_relay \<Rightarrow> 'u worker_relay option" where
  "wr_keep w = (if wr_is_empty w then None else Some w)"

definition remove_at_position :: "'a \<Rightarrow> 'a list \<Rightarrow> 'a list" where
  "remove_at_position a xs = (case position (\<lambda>x. x = a) xs of Some pos \<Rightarrow> swap_remove pos xs | None \<Rightarrow> xs)"

fun route_step :: "'u relay_worker_control \<Rightarrow> 'u worker_relay option \<Rightarrow> 'u worker_relay option" where
  "route_step (RouteSetSource source) e = Some ((wr_or_new e)\<lparr>wr_source := Some source\<rparr>)"
| "route_step (RouteDelSource source) e =
     map_option (\<lambda>w. if wr_source w = Some source then w\<lparr>wr_source := None\<rparr> else w) e"
| "route_step (RouteSetLocal actor) e = Some (wr_or_new e\<lparr>wr_locals := wr_locals (wr_or_new e) @ [actor]\<rparr>)"
| "route_step (RouteDelLocal actor) e =
     Option.bind e (\<lambda>w. wr_keep (w\<lparr>wr_locals := remove_at_position actor (wr_locals w)\<rparr>))"
| "route_step (RouteSetRemote remote uuid) e =
     (let w = wr_or_new e in
      Some (w\<lparr>wr_remotes := wr_remotes w @ [remote], wr_remotes_uuid := hm_insert remote uuid (wr_remotes_uuid w)\<rparr>))"
| "route_step (RouteDelRemote remote) e =
     Option.bind e (\<lambda>w. wr_keep (w\<lparr>wr_remotes := remove_at_position remote (wr_remotes w)\<rparr>))"
| "route_step _ e = e"

subsection \<open>Workers follow the consumers\<close>

definition w_locals :: "'u worker_relay option \<Rightarrow> 'u feature_actor list" where
  "w_locals e = (case e of Some w \<Rightarrow> wr_locals w | None \<Rightarrow> [])"

definition w_remotes :: "'u worker_relay option \<Rightarrow> net_pair list" where
  "w_remotes e = (case e of Some w \<Rightarrow> wr_remotes w | None \<Rightarrow> [])"

definition w_source :: "'u worker_relay option \<Rightarrow> net_pair option" where
  "w_source e = Option.bind e wr_source"

lemmas w_defs = w_locals_def w_remotes_def w_source_def

definition serves :: "'u worker_relay option \<Rightarrow> 'u consumers \<Rightarrow> bool" where
  "serves e c \<longleftrightarrow> mset (w_locals e) = mset (co_locals c) \<and> mset (w_remotes e) = mset (map fst (co_remotes c))"

definition wf_consumers :: "'u consumers \<Rightarrow> bool" where
  "wf_consumers c \<longleftrightarrow> distinct (co_locals c) \<and> wf_map (co_remotes c)"

text \<open>An update of the consumers queues controls that bring a serving entry along, without touching its source.\<close>

definition co_step :: "'u consumers \<Rightarrow> 'u consumers \<Rightarrow> bool" where
  "co_step c c' \<longleftrightarrow> (wf_consumers c \<longrightarrow> wf_consumers c' \<and>
     (\<exists>outs. co_queue c' = co_queue c @ outs \<and>
       (\<forall>e. serves e c \<longrightarrow> serves (fold route_step outs e) c' \<and>
          (co_should_clear c' \<or> w_source (fold route_step outs e) = w_source e))))"

lemma serves_queue [simp]: "serves e (c\<lparr>co_queue := q\<rparr>) = serves e c"
  by (simp add: serves_def)

lemma should_clear_queue [simp]: "co_should_clear (c\<lparr>co_queue := q\<rparr>) = co_should_clear c"
  by (simp add: co_should_clear_def)

lemma wf_consumers_queue [simp]: "wf_consumers (c\<lparr>co_queue := q\<rparr>) = wf_consumers c"
  by (simp add: wf_consumers_def)

lemma wf_co_default [simp]: "wf_consumers co_default"
  by (simp add: wf_consumers_def co_default_def)

lemma serves_default: "serves e co_default \<longleftrightarrow> w_locals e = [] \<and> w_remotes e = []"
  by (simp add: serves_def co_default_def)

lemma serves_clear: "co_should_clear c \<Longrightarrow> serves e c \<longleftrightarrow> serves e co_default"
  by (simp add: serves_def co_should_clear_def co_default_def)

lemma co_step_refl: "co_step c c"
  by (auto simp: co_step_def)

lemma mset_remove_at: "mset (remove_at_position a xs) = mset xs - {#a#}"
proof (cases "position (\<lambda>x. x = a) xs")
  case None
  then have "a \<notin># mset xs" by (auto simp: position_None)
  then show ?thesis using None by (simp add: remove_at_position_def diff_single_trivial)
qed (simp add: remove_at_position_def mset_swap_remove_position)

lemma mset_keys_remove: "wf_map m \<Longrightarrow> mset (map fst (hm_remove k m)) = mset (map fst m) - {#k#}"
proof (induction m)
  case (Cons x m)
  show ?case
  proof (cases "fst x = k")
    case True
    then have "hm_remove k m = m" using Cons.prems by (auto intro!: delete_idem)
    then show ?thesis using True by (cases x) simp
  next
    case False
    then show ?thesis using Cons by (cases x) simp
  qed
qed simp

lemma keys_insert_new: "map_of m k = None \<Longrightarrow> map fst (hm_insert k v m) = map fst m @ [k]"
  by (induction m) (auto split: if_splits)

lemma keys_insert_old: "map_of m k \<noteq> None \<Longrightarrow> map fst (hm_insert k v m) = map fst m"
  by (induction m) (auto split: if_splits)

lemma co_step_drop_remote: "co_step c (co_drop_remote remote c)"
proof -
  have "serves (route_step (RouteDelRemote remote) e) (co_drop_remote remote c) \<and>
      (co_should_clear (co_drop_remote remote c) \<or> w_source (route_step (RouteDelRemote remote) e) = w_source e)"
    if "serves e c" "wf_consumers c" for e
  proof -
    have m: "mset (map fst (hm_remove remote (co_remotes c))) = mset (w_remotes e) - {#remote#}"
      using that mset_keys_remove [of "co_remotes c"] by (simp add: serves_def wf_consumers_def)
    show ?thesis
    proof (cases e)
      case None
      then show ?thesis using that m by (simp add: serves_def co_drop_remote_def co_push_def w_defs)
    next
      case (Some w)
      let ?w = "w\<lparr>wr_remotes := remove_at_position remote (wr_remotes w)\<rparr>"
      have r: "mset (wr_remotes ?w) = mset (map fst (hm_remove remote (co_remotes c)))"
        using m by (simp add: Some w_defs mset_remove_at)
      have l: "mset (wr_locals w) = mset (co_locals c)" using that(1) by (simp add: serves_def Some w_defs)
      show ?thesis
      proof (cases "wr_is_empty ?w")
        case True
        then have "hm_remove remote (co_remotes c) = []" "co_locals c = []"
          using r l by (auto simp: wr_is_empty_def)
        then show ?thesis
          using True by (simp add: Some wr_keep_def serves_def w_defs co_drop_remote_def co_push_def co_should_clear_def)
      next
        case False
        then show ?thesis using r l by (simp add: Some wr_keep_def serves_def w_defs co_drop_remote_def co_push_def)
      qed
    qed
  qed
  then show ?thesis
    by (auto simp: co_step_def co_drop_remote_def co_push_def wf_consumers_def wf_hm_remove)
qed

lemma co_step_trans:
  assumes "co_step c c'" "co_step c' c''" "co_should_clear c' \<Longrightarrow> co_should_clear c''"
  shows "co_step c c''"
  unfolding co_step_def
proof
  assume "wf_consumers c"
  then obtain outs where 1: "wf_consumers c'" "co_queue c' = co_queue c @ outs"
      "\<And>e. serves e c \<Longrightarrow> serves (fold route_step outs e) c' \<and>
         (co_should_clear c' \<or> w_source (fold route_step outs e) = w_source e)"
    using assms(1) by (auto simp: co_step_def)
  obtain outs' where 2: "wf_consumers c''" "co_queue c'' = co_queue c' @ outs'"
      "\<And>e. serves e c' \<Longrightarrow> serves (fold route_step outs' e) c'' \<and>
         (co_should_clear c'' \<or> w_source (fold route_step outs' e) = w_source e)"
    using assms(2) 1(1) by (auto simp: co_step_def)
  show "wf_consumers c'' \<and> (\<exists>outs. co_queue c'' = co_queue c @ outs \<and> (\<forall>e. serves e c \<longrightarrow>
      serves (fold route_step outs e) c'' \<and> (co_should_clear c'' \<or> w_source (fold route_step outs e) = w_source e)))"
  proof (intro conjI exI [of _ "outs @ outs'"] allI impI)
    fix e
    assume e: "serves e c"
    then have "serves (fold route_step outs e) c'" using 1(3) by blast
    from 1(3) [OF e] 2(3) [OF this]
    show "serves (fold route_step (outs @ outs') e) c''"
      "co_should_clear c'' \<or> w_source (fold route_step (outs @ outs') e) = w_source e"
      using assms(3) by auto
  qed (use 1 2 in auto)
qed

lemma clear_drop_remote: "co_should_clear c \<Longrightarrow> co_should_clear (co_drop_remote remote c)"
  by (simp add: co_should_clear_def co_drop_remote_def co_push_def)

lemma clear_drops: "co_should_clear c \<Longrightarrow> co_should_clear (fold co_drop_remote rs c)"
  by (induction rs arbitrary: c) (auto intro: clear_drop_remote)

lemma co_step_drops: "co_step c (fold co_drop_remote rs c)"
proof (induction rs arbitrary: c)
  case (Cons x rs)
  have "co_step c (fold co_drop_remote rs (co_drop_remote x c))"
    by (rule co_step_trans [OF co_step_drop_remote Cons clear_drops])
  then show ?case by simp
qed (simp add: co_step_refl)

lemma co_step_tick: "co_step c (co_on_tick now c)"
  by (simp add: co_on_tick_def co_step_drops)

text \<open>Controls that no entry reacts to.\<close>

lemma co_step_push: "(\<And>x e. x \<in> set ctls \<Longrightarrow> route_step x e = e) \<Longrightarrow> co_step c (co_push ctls c)"
proof -
  assume "\<And>x e. x \<in> set ctls \<Longrightarrow> route_step x e = e"
  then have "fold route_step ctls e = e" for e by (induction ctls arbitrary: e) auto
  then show ?thesis by (auto simp: co_step_def co_push_def)
qed

lemma co_step_local_sub: "co_step c (co_on_local_sub actor c)"
proof (cases "actor \<in> set (co_locals c)")
  case False
  have "serves (route_step (RouteSetLocal actor) e) (co_on_local_sub actor c) \<and> w_source (route_step (RouteSetLocal actor) e) = w_source e"
    if "serves e c" for e
    using that False by (cases e) (auto simp: serves_def co_on_local_sub_def co_push_def w_defs wr_or_new_def wr_new_def)
  then show ?thesis using False by (auto simp: co_step_def co_on_local_sub_def co_push_def wf_consumers_def)
qed (simp add: co_on_local_sub_def co_step_refl)

lemma co_step_local_unsub: "co_step c (co_on_local_unsub actor c)"
proof (cases "position (\<lambda>a. a = actor) (co_locals c)")
  case (Some pos)
  let ?c = "co_on_local_unsub actor c"
  have m: "mset (co_locals ?c) = mset (co_locals c) - {#actor#}" "co_remotes ?c = co_remotes c"
    using mset_swap_remove_position [OF Some] by (simp_all add: co_on_local_unsub_def co_push_def Some)
  have "serves (route_step (RouteDelLocal actor) e) ?c \<and> (co_should_clear ?c \<or> w_source (route_step (RouteDelLocal actor) e) = w_source e)"
    if s: "serves e c" for e
  proof (cases e)
    case None
    then show ?thesis using s m by (simp add: serves_def w_defs)
  next
    case w: (Some w)
    let ?w = "w\<lparr>wr_locals := remove_at_position actor (wr_locals w)\<rparr>"
    have l: "mset (wr_locals ?w) = mset (co_locals ?c)" and r: "mset (wr_remotes w) = mset (map fst (co_remotes c))"
      using s m by (simp_all add: serves_def w w_defs mset_remove_at)
    show ?thesis
    proof (cases "wr_is_empty ?w")
      case True
      then have "co_locals ?c = []" "co_remotes ?c = []" using l r m(2) by (auto simp: wr_is_empty_def)
      then show ?thesis using True by (simp add: w wr_keep_def serves_def w_defs co_should_clear_def)
    next
      case False
      then show ?thesis using l r m(2) by (simp add: w wr_keep_def serves_def w_defs)
    qed
  qed
  then show ?thesis
    using set_swap_remove(1) [OF _ Some] Some by (auto simp: co_step_def co_on_local_unsub_def co_push_def wf_consumers_def)
qed (simp add: co_on_local_unsub_def co_step_refl)

lemma co_step_sub: "co_step c (co_on_remote now remote (RcSub uuid) c)"
proof (cases "map_of (co_remotes c) remote")
  case None
  have k: "map fst (hm_insert remote x (co_remotes c)) = map fst (co_remotes c) @ [remote]" for x
    by (rule keys_insert_new [OF None])
  have "serves (fold route_step [SendSubOk uuid remote, RouteSetRemote remote uuid] e) (co_on_remote now remote (RcSub uuid) c) \<and>
      w_source (fold route_step [SendSubOk uuid remote, RouteSetRemote remote uuid] e) = w_source e" if "serves e c" for e
    using that k by (cases e) (auto simp: serves_def None co_push_def w_defs wr_or_new_def wr_new_def Let_def)
  then show ?thesis using None by (auto simp: co_step_def co_push_def wf_consumers_def wf_hm_insert)
next
  case (Some slot)
  have "map fst (hm_insert remote x (co_remotes c)) = map fst (co_remotes c)" for x
    by (rule keys_insert_old) (simp add: Some)
  then have "image_mset fst (mset (hm_insert remote x (co_remotes c))) = image_mset fst (mset (co_remotes c))" for x
    by (metis mset_map)
  then show ?thesis
    by (auto simp: Some co_step_def co_push_def wf_consumers_def wf_hm_insert serves_def)
qed

lemma co_step_remote: "co_step c (co_on_remote now remote control c)"
proof (cases control)
  case (RcUnsub uuid)
  have 1: "co_step c (co_push [SendUnsubOk uuid remote] c)" by (rule co_step_push) simp
  have "co_step c (co_drop_remote remote (co_push [SendUnsubOk uuid remote] c))"
    using co_step_trans [OF 1 co_step_drop_remote] clear_drop_remote by blast
  then show ?thesis using RcUnsub by (auto simp: co_step_refl split: option.splits)
qed (use co_step_sub co_step_refl in auto)

lemma co_step_disconnected: "co_step c (co_conn_disconnected remote c)"
  by (simp add: co_conn_disconnected_def co_step_refl co_step_drop_remote)

lemmas co_steps = co_step_tick co_step_local_sub co_step_local_unsub co_step_remote co_step_disconnected

subsection \<open>Workers follow the relay\<close>

fun out_step :: "'u relay_output \<Rightarrow> 'u worker_relay option \<Rightarrow> 'u worker_relay option" where
  "out_step (RoToWorker ctl) e = route_step ctl e"
| "out_step _ e = e"

text \<open>The consumers of a relay, and the pair it trusts as its source.\<close>

fun state_consumers :: "'u relay_state \<Rightarrow> 'u consumers" where
  "state_consumers (RsBinding c _) = c"
| "state_consumers (RsBound c _ _ _) = c"
| "state_consumers _ = co_default"

fun state_source :: "'u relay_state \<Rightarrow> net_pair option" where
  "state_source (RsBound _ _ next _) = Some next"
| "state_source _ = None"

definition carries :: "'u worker_relay option \<Rightarrow> 'u relay_state \<Rightarrow> bool" where
  "carries e st \<longleftrightarrow> serves e (state_consumers st) \<and> (state_source st \<noteq> None \<longrightarrow> w_source e = state_source st)"

definition wf_state :: "'u relay_state \<Rightarrow> bool" where
  "wf_state st \<longleftrightarrow> wf_consumers (state_consumers st) \<and> co_queue (state_consumers st) = []"

definition re_step :: "'u remote_relay \<Rightarrow> 'u remote_relay \<Rightarrow> bool" where
  "re_step r r' \<longleftrightarrow> (wf_state (re_state r) \<longrightarrow> wf_state (re_state r') \<and>
     (\<exists>outs. re_queue r' = re_queue r @ outs \<and> (\<forall>e. carries e (re_state r) \<longrightarrow> carries (fold out_step outs e) (re_state r'))))"

lemma fold_out_step: "fold out_step (map RoToWorker ctls) e = fold route_step ctls e"
  by (induction ctls arbitrary: e) auto

lemma fold_out_feedback: "fold out_step (map (\<lambda>fb. RoToWorker (SendFeedback fb p)) fbs) e = e"
  by (induction fbs) auto

lemma fold_out_route_changed: "fold out_step (map RoRouteChanged actors) e = e"
  by (induction actors) auto

lemma serves_del_source: "serves (route_step (RouteDelSource p) e) c = serves e c"
  by (cases e) (auto simp: serves_def w_defs)

lemma serves_set_source: "serves (route_step (RouteSetSource p) e) c = serves e c"
  by (cases e) (auto simp: serves_def w_defs wr_or_new_def wr_new_def)

lemma source_set_source: "w_source (route_step (RouteSetSource p) e) = Some p"
  by (simp add: w_defs)

lemma co_default_queue [simp]: "co_queue co_default = []"
  by (simp add: co_default_def)

declare route_step.simps(1,2) [simp del]

lemma re_stepI:
  assumes "wf_state (re_state r) \<Longrightarrow> wf_state (re_state r') \<and> re_queue r' = re_queue r @ outs \<and>
      (\<forall>e. carries e (re_state r) \<longrightarrow> carries (fold out_step outs e) (re_state r'))"
  shows "re_step r r'"
  using assms by (auto simp: re_step_def)

lemma re_step_refl: "re_step r r"
  by (auto simp: re_step_def)

text \<open>The effect of an update of the consumers of a relay, as the relay hands it on.\<close>

lemma co_step_effect:
  assumes "co_step c c1" "wf_consumers c" "co_queue c = []"
  shows "wf_consumers c1" "serves e c \<Longrightarrow> serves (fold route_step (co_queue c1) e) c1"
    "serves e c \<Longrightarrow> \<not> co_should_clear c1 \<Longrightarrow> w_source (fold route_step (co_queue c1) e) = w_source e"
  using assms by (auto simp: co_step_def)

lemma re_upd_order: "r\<lparr>re_queue := q, re_state := st\<rparr> = r\<lparr>re_state := st, re_queue := q\<rparr>"
  by simp

lemmas relay_defs = re_upd_order re_push_def re_unbind_def pop_consumers_out_def pop_feedbacks_out_def Let_def
lemmas carry_simps = carries_def wf_state_def fold_out_step fold_out_feedback fold_out_route_changed
  serves_del_source serves_set_source source_set_source

text \<open>The ways in which the handlers go on with updated consumers; \<open>pre\<close> and \<open>post\<close> are outputs that no entry reacts to.\<close>

definition neutral :: "'u relay_output list \<Rightarrow> bool" where
  "neutral outs \<longleftrightarrow> (\<forall>e. fold out_step outs e = e)"

lemma neutral_simps [simp]:
  "neutral []" "neutral (RoToWorker (SendSub uuid target) # outs) = neutral outs"
  "neutral (RoToWorker (SendUnsub uuid p) # outs) = neutral outs" "neutral (RoToWorker SendRouteChanged # outs) = neutral outs"
  "neutral (map (\<lambda>fb. RoToWorker (SendFeedback fb p)) fbs)" "neutral (map RoRouteChanged actors)"
  by (simp_all add: neutral_def fold_out_feedback fold_out_route_changed)

lemma re_step_neutral: "neutral outs \<Longrightarrow> re_step r (re_push outs r)"
  by (rule re_stepI [where outs = outs]) (simp add: re_push_def neutral_def)

lemma re_step_bound:
  assumes "re_state r = RsBound c f next sticky" "co_step c c1" "neutral pre" "neutral post"
  shows "re_step r (let r1 = r\<lparr>re_queue := re_queue r @ pre @ map RoToWorker (co_queue c1) @ post,
      re_state := RsBound (c1\<lparr>co_queue := []\<rparr>) f' next sticky\<rparr>
    in if co_should_clear c1 then re_unbind now next r1 else r1)"
proof (cases "co_should_clear c1")
  case True
  note eff = co_step_effect [OF assms(2)]
  show ?thesis
    by (rule re_stepI [where outs = "pre @ map RoToWorker (co_queue c1) @ post @ map RoToWorker [SendUnsub (re_uuid r) next, RouteDelSource next]"])
       (use True eff serves_clear [OF True] assms(3,4) in \<open>auto simp: assms(1) carry_simps relay_defs neutral_def\<close>)
next
  case False
  note eff = co_step_effect [OF assms(2)]
  show ?thesis
    by (rule re_stepI [where outs = "pre @ map RoToWorker (co_queue c1) @ post"])
       (use False eff assms(3,4) in \<open>auto simp: assms(1) carry_simps relay_defs neutral_def\<close>)
qed

lemma re_step_binding:
  assumes "re_state r = RsBinding c f" "co_step c c1" "neutral pre"
  shows "re_step r (r\<lparr>re_queue := re_queue r @ pre @ map RoToWorker (co_queue c1),
    re_state := (if co_should_clear c1 then RsUnbound else RsBinding (c1\<lparr>co_queue := []\<rparr>) f)\<rparr>)"
  using co_step_effect [OF assms(2)] serves_clear [of c1] assms(3)
  by (intro re_stepI [where outs = "pre @ map RoToWorker (co_queue c1)"]) (auto simp: assms(1) carry_simps neutral_def)

text \<open>The consumers are kept in a state that trusts no source.\<close>

lemma re_step_rebind:
  assumes "co_step (state_consumers (re_state r)) c1" "neutral post"
  shows "re_step r (r\<lparr>re_queue := re_queue r @ map RoToWorker (co_queue c1) @ post, re_state := RsBinding (c1\<lparr>co_queue := []\<rparr>) f\<rparr>)"
  using co_step_effect [OF assms(1)] assms(2)
  by (intro re_stepI [where outs = "map RoToWorker (co_queue c1) @ post"]) (auto simp: carry_simps neutral_def)

lemma re_step_fresh:
  assumes "state_consumers (re_state r) = co_default" "co_step co_default c1"
  shows "re_step r (re_push [RoToWorker (SendSub uuid target)]
    (r\<lparr>re_queue := re_queue r @ map RoToWorker (co_queue c1), re_state := RsBinding (c1\<lparr>co_queue := []\<rparr>) fa_default\<rparr>))"
  using re_step_rebind [of r c1 "[RoToWorker (SendSub uuid target)]" fa_default] assms by (simp add: relay_defs)

text \<open>A new source for the same consumers.\<close>

lemma re_step_source:
  assumes "state_consumers (re_state r) = c" "neutral pre" "neutral post"
  shows "re_step r (re_push (pre @ [RoToWorker (RouteSetSource p)] @ post) (r\<lparr>re_state := RsBound c f p sticky\<rparr>))"
  using assms by (intro re_stepI [where outs = "pre @ [RoToWorker (RouteSetSource p)] @ post"])
    (auto simp: carry_simps neutral_def re_push_def)

subsection \<open>Every handler of a remote relay\<close>

lemma re_step_tick: "\<exists>r'. re_on_tick now r = Some r' \<and> re_step r r'"
proof (cases "re_state r")
  case (RsBound c f nx sticky)
  obtain f1 where "fa_on_tick now f = Some f1"
    using drain_kinds_run [of now "fa_kinds f" "fa_queue f"] by (auto simp: fa_on_tick_def)
  moreover have "re_step r (let r1 = r\<lparr>re_queue := re_queue r @ [RoToWorker (SendSub (re_uuid r) t)] @
        map RoToWorker (co_queue (co_on_tick now c)) @ map (\<lambda>fb. RoToWorker (SendFeedback fb nx)) (fa_queue f1),
      re_state := RsBound (co_on_tick now c\<lparr>co_queue := []\<rparr>) (f1\<lparr>fa_queue := []\<rparr>) nx sticky\<rparr>
      in if co_should_clear (co_on_tick now c) then re_unbind now nx r1 else r1)" for t
    by (rule re_step_bound [OF RsBound co_step_tick]) simp_all
  ultimately show ?thesis
    by (cases "co_should_clear (co_on_tick now c)"; cases "sticky + RELAY_STICKY_MS \<le> now")
       (simp_all add: re_on_tick_def RsBound relay_defs)
next
  case (RsBinding c f)
  then show ?thesis
    using re_step_binding [OF RsBinding co_step_tick [of c now], where pre = "[RoToWorker (SendSub (re_uuid r) None)]"]
    by (simp add: re_on_tick_def relay_defs)
next
  case (RsUnbinding nx started_at)
  have "re_step r (r\<lparr>re_state := RsUnbound\<rparr>)"
    by (rule re_stepI [where outs = "[]"]) (simp add: RsUnbinding carry_simps)
  then show ?thesis by (simp add: re_on_tick_def RsUnbinding re_step_neutral)
qed (simp_all add: re_on_tick_def re_step_refl)

lemma re_step_disconnected: "re_step r (re_conn_disconnected now remote r)"
proof (cases "re_state r")
  case (RsBound c f nx sticky)
  let ?c = "co_conn_disconnected remote c"
  have 1: "re_step r (r\<lparr>re_queue := re_queue r @ map RoToWorker (co_queue ?c) @ [RoToWorker (SendSub (re_uuid r) None)],
      re_state := RsBinding (?c\<lparr>co_queue := []\<rparr>) f\<rparr>)"
    using RsBound co_step_disconnected by (intro re_step_rebind) simp_all
  show ?thesis
    using 1 re_step_bound [OF RsBound co_step_disconnected, of "[]" "[]" remote f now]
    by (auto simp: re_conn_disconnected_def RsBound relay_defs)
next
  case (RsBinding c f)
  then show ?thesis
    using re_step_binding [OF RsBinding co_step_disconnected, of "[]"] by (simp add: re_conn_disconnected_def relay_defs)
qed (simp_all add: re_conn_disconnected_def re_step_refl)

lemma re_step_local_sub: "re_step r (re_on_local_sub actor r)"
proof -
  have keep: "\<not> co_should_clear (co_on_local_sub actor c)" for c :: "'a consumers"
    by (auto simp: co_should_clear_def co_on_local_sub_def co_push_def)
  show ?thesis
    using re_step_fresh [OF _ co_step_local_sub, of r _ _ actor] re_step_binding [OF _ co_step_local_sub, of r _ _ "[]" actor]
      re_step_bound [OF _ co_step_local_sub, of r _ _ _ _ "[]" "[]" actor]
    by (cases "re_state r") (auto simp: re_on_local_sub_def relay_defs keep)
qed

lemma re_step_feedback:
  "re_state r = RsBinding c f \<Longrightarrow> re_step r (r\<lparr>re_state := RsBinding c f'\<rparr>)"
  "re_state r = RsBound c f nx sticky \<Longrightarrow> re_step r (r\<lparr>re_queue := re_queue r @ map (\<lambda>fb. RoToWorker (SendFeedback fb nx)) fbs,
     re_state := RsBound c f' nx sticky\<rparr>)"
  by (intro re_stepI [where outs = "[]"]; simp add: carry_simps)
     (intro re_stepI [where outs = "map (\<lambda>fb. RoToWorker (SendFeedback fb nx)) fbs"]; simp add: carry_simps)

lemma re_step_local_feedback: "re_step r (re_on_local_feedback now actor fb r)"
  by (cases "re_state r") (simp_all add: re_on_local_feedback_def relay_defs re_step_refl re_step_feedback [unfolded re_upd_order])

lemma re_step_local_unsub: "re_step r (re_on_local_unsub now actor r)"
  using re_step_binding [OF _ co_step_local_unsub, of r _ _ "[]" actor]
    re_step_bound [OF _ co_step_local_unsub, of r _ _ _ _ "[]" "[]" actor _ now]
  by (cases "re_state r") (auto simp: re_on_local_unsub_def relay_defs re_step_refl)

lemma re_step_sub_ok: "re_step r (re_on_sub_ok now remote r)"
proof (cases "re_state r")
  case (RsBinding c f)
  then show ?thesis using re_step_source [of r c "[]" "[]" remote f now] by (simp add: re_on_sub_ok_def)
next
  case (RsBound c f nx sticky)
  have same: "re_step r (r\<lparr>re_state := RsBound c f nx now\<rparr>)"
    by (rule re_stepI [where outs = "[]"]) (simp add: RsBound carry_simps)
  let ?pre = "[RoToWorker (SendUnsub (re_uuid r) nx)] @ (if co_remotes c \<noteq> [] then [RoToWorker SendRouteChanged] else [])"
  have "neutral ?pre" by simp
  then have "re_step r (re_push (?pre @ [RoToWorker (RouteSetSource remote)] @ map RoRouteChanged (co_locals c))
      (r\<lparr>re_state := RsBound c f remote sticky\<rparr>))"
    using re_step_source [of r c ?pre "map RoRouteChanged (co_locals c)"] RsBound by simp
  then show ?thesis using same by (auto simp: re_on_sub_ok_def RsBound co_relay_dests_def)
qed (simp_all add: re_on_sub_ok_def re_step_refl)

lemma re_step_downstream: "re_step r (re_on_downstream now remote control r)"
  using re_step_fresh [OF _ co_step_remote, of r _ _ now remote control]
    re_step_binding [OF _ co_step_remote, of r _ _ "[]" now remote control]
    re_step_bound [OF _ co_step_remote, of r _ _ _ _ "[]" "[]" now remote control _ now]
  by (cases "re_state r") (auto simp: re_on_downstream_def relay_defs)

lemma re_step_remote: "re_step r (re_on_remote now remote control r)"
proof (cases control)
  case (RcUnsubOk uuid)
  have "re_step r (r\<lparr>re_state := RsUnbound\<rparr>)" if "re_state r = RsUnbinding nx t" for nx t
    by (rule re_stepI [where outs = "[]"]) (simp add: that carry_simps)
  then show ?thesis using RcUnsubOk by (auto simp: re_on_remote_def re_step_refl split: relay_state.splits)
next
  case (RcRouteChanged uuid)
  show ?thesis
  proof (cases "re_state r")
    case (RsBound c f nx sticky)
    have "neutral ((if co_remotes c \<noteq> [] then [RoToWorker SendRouteChanged] else []) @ map RoRouteChanged (co_locals c))" by simp
    from re_step_neutral [OF this, of r] show ?thesis
      by (simp add: re_on_remote_def re_on_route_changed_def RcRouteChanged RsBound co_relay_dests_def re_step_refl)
  qed (simp_all add: re_on_remote_def re_on_route_changed_def RcRouteChanged re_step_refl)
next
  case (RcFeedback fb)
  then show ?thesis
    by (cases "re_state r") (simp_all add: re_on_remote_def relay_defs re_step_refl re_step_feedback [unfolded re_upd_order])
qed (auto simp: re_on_remote_def re_step_refl re_step_sub_ok re_step_downstream)

subsection \<open>Both kinds of relay\<close>

fun relay_pending :: "'u relay \<Rightarrow> 'u relay_output list" where
  "relay_pending (LocalR l) = map (RoFeedback (lr_publishers l)) (fa_queue (lr_feedbacks l)) @ map RoToWorker (co_queue (lr_consumers l))"
| "relay_pending (RemoteR r) = re_queue r"

fun relay_carries :: "'u worker_relay option \<Rightarrow> 'u relay \<Rightarrow> bool" where
  "relay_carries e (LocalR l) = serves e (lr_consumers l)"
| "relay_carries e (RemoteR r) = carries e (re_state r)"

fun wf_relay :: "'u relay \<Rightarrow> bool" where
  "wf_relay (LocalR l) = wf_consumers (lr_consumers l)"
| "wf_relay (RemoteR r) = wf_state (re_state r)"

fun is_local_relay :: "'u relay \<Rightarrow> bool" where
  "is_local_relay (LocalR _) = True"
| "is_local_relay (RemoteR _) = False"

text \<open>An operation on a relay whose outputs have all been taken: what it queues carries the workers along.\<close>

definition relay_step :: "'u relay \<Rightarrow> 'u relay \<Rightarrow> bool" where
  "relay_step r r' \<longleftrightarrow> is_local_relay r' = is_local_relay r \<and> (wf_relay r \<and> relay_pending r = [] \<longrightarrow> wf_relay r' \<and>
     (\<forall>e. relay_carries e r \<longrightarrow> relay_carries (fold out_step (relay_pending r') e) r'))"

lemma fold_out_reports: "fold out_step (map (RoFeedback ps) fbs) e = e"
  by (induction fbs) auto

lemma relay_step_local:
  assumes "co_step (lr_consumers l) (lr_consumers l')"
  shows "relay_step (LocalR l) (LocalR l')"
  using assms by (auto simp: relay_step_def co_step_def fold_out_reports fold_out_step)

lemma relay_step_remote: "re_step r r' \<Longrightarrow> relay_step (RemoteR r) (RemoteR r')"
  by (auto simp: relay_step_def re_step_def)

lemma relay_step_local_sub: "relay_step r (relay_on_local_sub actor r)"
  by (cases r) (simp_all add: relay_step_local relay_step_remote lr_on_local_sub_def co_step_local_sub re_step_local_sub)

lemma relay_step_local_feedback: "relay_step r (relay_on_local_feedback now actor fb r)"
  by (cases r) (simp_all add: relay_step_local relay_step_remote lr_on_local_feedback_def co_step_refl re_step_local_feedback)

lemma relay_step_local_unsub: "relay_step r (relay_on_local_unsub now actor r)"
  by (cases r) (simp_all add: relay_step_local relay_step_remote lr_on_local_unsub_def co_step_local_unsub re_step_local_unsub)

lemma relay_step_control: "relay_step r (relay_on_remote now remote control r)"
proof (cases r)
  case (LocalR l)
  have "co_step (lr_consumers l) (lr_consumers (lr_on_remote now remote control l))"
    using co_step_remote [of "lr_consumers l" now remote control]
    by (cases control) (simp_all add: lr_on_remote_def co_step_refl del: co_on_remote.simps)
  then show ?thesis by (simp add: LocalR relay_step_local)
qed (simp add: relay_step_remote re_step_remote)

lemma relay_step_disconnected: "relay_step r (relay_conn_disconnected now remote r)"
  by (cases r) (simp_all add: relay_step_local relay_step_remote lr_conn_disconnected_def co_step_disconnected re_step_disconnected)

lemma relay_tick_run: "\<exists>r'. relay_on_tick now r = Some r' \<and> relay_step r r'"
proof (cases r)
  case (LocalR l)
  obtain f where "fa_on_tick now (lr_feedbacks l) = Some f"
    using drain_kinds_run [of now "fa_kinds (lr_feedbacks l)" "fa_queue (lr_feedbacks l)"] by (auto simp: fa_on_tick_def)
  then show ?thesis by (simp add: LocalR lr_on_tick_def relay_step_local co_step_tick)
next
  case (RemoteR r')
  then show ?thesis using re_step_tick [of now r'] relay_step_remote by auto
qed

lemma relay_publish_run:
  assumes "is_local_relay r"
  shows "\<exists>r'. relay_on_pub_start actor r = Some r' \<and> relay_step r r'" "\<exists>r'. relay_on_pub_stop actor r = Some r' \<and> relay_step r r'"
  using assms
  by (cases r; auto simp: lr_on_pub_start_def lr_on_pub_stop_def split: option.split intro!: relay_step_local co_step_refl)+

lemma relay_clear_carries: "relay_should_clear r \<Longrightarrow> relay_carries e r \<longleftrightarrow> serves e co_default"
  by (cases r) (auto simp: lr_should_clear_def re_should_clear_def serves_clear carries_def)

subsection \<open>Taking a relay's outputs\<close>

lemma relay_pop_run:
  "relay_pending r = [] \<Longrightarrow> relay_pop_output r = (None, r)"
  "relay_pending r = x # xs \<Longrightarrow> \<exists>r'. relay_pop_output r = (Some x, r') \<and> relay_pending r' = xs \<and> wf_relay r' = wf_relay r \<and>
     is_local_relay r' = is_local_relay r \<and> (\<forall>e. relay_carries e r' = relay_carries e r)"
proof -
  show "relay_pop_output r = (None, r)" if "relay_pending r = []"
    using that by (cases r) (auto simp: lr_pop_output_def fa_pop_output_def co_pop_output_def re_pop_output_def)
  show "\<exists>r'. relay_pop_output r = (Some x, r') \<and> relay_pending r' = xs \<and> wf_relay r' = wf_relay r \<and>
     is_local_relay r' = is_local_relay r \<and> (\<forall>e. relay_carries e r' = relay_carries e r)" if pending: "relay_pending r = x # xs"
  proof (cases r)
    case (LocalR l)
    show ?thesis
    proof (cases "fa_queue (lr_feedbacks l)")
      case Nil
      then obtain ctl ctls where "co_queue (lr_consumers l) = ctl # ctls" "x = RoToWorker ctl" "xs = map RoToWorker ctls"
        using pending LocalR by auto
      then show ?thesis using Nil by (auto simp: LocalR lr_pop_output_def fa_pop_output_def co_pop_output_def)
    next
      case (Cons fb fbs)
      then show ?thesis using pending by (auto simp: LocalR lr_pop_output_def fa_pop_output_def)
    qed
  next
    case (RemoteR r')
    then show ?thesis using pending by (simp add: re_pop_output_def)
  qed
qed

text \<open>
  A repeated \<^verbatim>\<open>Unsub\<close> is never acknowledged and subscribes anew. A neighbour that misses the \<^verbatim>\<open>UnsubOK\<close> repeats its
  \<^verbatim>\<open>Unsub\<close>; a relay that has meanwhile begun to unbind, having lost its last consumer, answers nothing, and instead goes back to
  binding without any consumer and sends a \<^verbatim>\<open>Sub\<close> upstream.
\<close>

theorem repeated_unsub_rebinds:
  assumes "re_state r = RsUnbinding nx started" "re_queue r = []"
  shows "re_on_remote now remote (RcUnsub uuid) r =
    r\<lparr>re_state := RsBinding co_default fa_default, re_queue := [RoToWorker (SendSub (re_uuid r) (Some nx))]\<rparr>"
  using assms by (simp add: re_on_remote_def re_on_downstream_def co_default_def relay_defs)

definition demo_pair1 :: net_pair where
  "demo_pair1 = \<lparr>np_local = SocketV4 1 1000, np_remote = SocketV4 2 1000\<rparr>"

lemma repeated_unsub_rebinds_witness:
  "re_state (re_on_remote 9 demo_pair1 (RcUnsub 4)
     (\<lparr>re_uuid = 7, re_state = RsUnbinding demo_pair1 5, re_queue = []\<rparr> :: unit remote_relay)) = RsBinding co_default fa_default"
  by (subst repeated_unsub_rebinds [of _ demo_pair1 5]) simp_all

end
