(* ===== verification/Pubsub_Hint.thy ===== *)
theory Pubsub_Hint
  imports Pubsub_Msg
begin

text \<open>
  Source hints (\<^verbatim>\<open>packages/network/src/features/pubsub/controller/source_hint.rs\<close>): the notification tree by which the nodes
  learn who publishes a channel. One \<^verbatim>\<open>SourceHintLogic\<close> per channel and node keeps the known sources and subscribers and
  tells every local subscriber which sources to follow.

  The lemmas show that replaying those instructions gives every local subscriber exactly the known sources.
\<close>

definition HINT_TIMEOUT_MS :: time where "HINT_TIMEOUT_MS = 10000"

datatype local_cmd = LcRegister | LcUnregister | LcSubscribe | LcUnsubscribe

datatype 'u hint_output =
    SendRemote "net_pair option" source_hint
  | SubscribeSource "'u feature_actor list" node_id
  | UnsubscribeSource "'u feature_actor list" node_id

record 'u hints =
  sh_node :: node_id
  sh_session :: u64
  sh_remote_sources :: "(node_id \<times> time) list"
  sh_remote_subscribers :: "(net_pair \<times> time) list"
  sh_local_sources :: "'u feature_actor list"
  sh_local_subscribers :: "'u feature_actor list"
  sh_next_hop :: "net_pair option"
  sh_queue :: "'u hint_output list"

definition sh_new :: "node_id \<Rightarrow> u64 \<Rightarrow> 'u hints" where
  "sh_new n sess =
     \<lparr>sh_node = n, sh_session = sess, sh_remote_sources = [], sh_remote_subscribers = [], sh_local_sources = [],
      sh_local_subscribers = [], sh_next_hop = None, sh_queue = []\<rparr>"

definition sh_sources :: "'u hints \<Rightarrow> node_id list" where
  "sh_sources s =
     (if sh_local_sources s = [] then map fst (sh_remote_sources s) else map fst (sh_remote_sources s) @ [sh_node s])"

definition sh_push :: "'u hint_output list \<Rightarrow> 'u hints \<Rightarrow> 'u hints" where
  "sh_push outs s = s\<lparr>sh_queue := sh_queue s @ outs\<rparr>"

text \<open>\<^verbatim>\<open>now_ms - last_tick\<close> on \<^verbatim>\<open>u64\<close>, which wraps around in a release build when the clock runs backwards.\<close>

definition elapsed :: "time \<Rightarrow> time \<Rightarrow> time" where
  "elapsed now prev = (if prev \<le> now then now - prev else now + 2 ^ 64 - prev)"

text \<open>A message to the node's subscribers, one copy each.\<close>

definition to_subscribers :: "source_hint \<Rightarrow> 'u hints \<Rightarrow> 'u hint_output list" where
  "to_subscribers h s = map (\<lambda>(remote, _). SendRemote (Some remote) h) (sh_remote_subscribers s)"

definition to_other_subscribers :: "net_pair \<Rightarrow> source_hint \<Rightarrow> 'u hints \<Rightarrow> 'u hint_output list" where
  "to_other_subscribers sender h s =
     map (\<lambda>(remote, _). SendRemote (Some remote) h) (filter (\<lambda>(remote, _). remote \<noteq> sender) (sh_remote_subscribers s))"

definition expire_subscriber :: "net_pair \<Rightarrow> 'u hints \<Rightarrow> 'u hints" where
  "expire_subscriber remote s =
     (let s1 = s\<lparr>sh_remote_subscribers := hm_remove remote (sh_remote_subscribers s)\<rparr>
      in if sh_local_subscribers s1 = [] \<and> sh_remote_subscribers s1 = []
         then sh_push [SendRemote None (HintUnsubscribe (sh_session s1))] s1 else s1)"

definition expire_source :: "node_id \<Rightarrow> 'u hints \<Rightarrow> 'u hints" where
  "expire_source source s =
     (let s1 = s\<lparr>sh_remote_sources := hm_remove source (sh_remote_sources s)\<rparr>
      in if sh_local_subscribers s1 \<noteq> [] then sh_push [UnsubscribeSource (sh_local_subscribers s1) source] s1 else s1)"

definition sh_on_tick :: "time \<Rightarrow> 'u hints \<Rightarrow> 'u hints" where
  "sh_on_tick now s =
     (let timeout_subscribes = map fst (filter (\<lambda>(_, last_tick). elapsed now last_tick \<ge> HINT_TIMEOUT_MS) (sh_remote_subscribers s));
          s1 = fold expire_subscriber timeout_subscribes s;
          timeout_sources = map fst (filter (\<lambda>(_, last_tick). elapsed now last_tick \<ge> HINT_TIMEOUT_MS) (sh_remote_sources s1));
          s2 = fold expire_source timeout_sources s1;
          s3 = (if sh_local_sources s2 \<noteq> []
                then sh_push (SendRemote None (HintRegister (sh_node s2) True) # to_subscribers (HintRegister (sh_node s2) False) s2) s2
                else s2)
      in if sh_local_subscribers s3 \<noteq> [] \<or> sh_remote_subscribers s3 \<noteq> []
         then sh_push [SendRemote None (HintSubscribe (sh_session s3))] s3 else s3)"

fun sh_on_local :: "'u feature_actor \<Rightarrow> local_cmd \<Rightarrow> 'u hints \<Rightarrow> 'u hints" where
  "sh_on_local actor LcRegister s =
     (if actor \<in> set (sh_local_sources s) then s
      else
        (let s1 = s\<lparr>sh_local_sources := sh_local_sources s @ [actor]\<rparr>;
             s2 = (if length (sh_local_sources s1) = 1 \<and> sh_remote_sources s1 = []
                   then sh_push [SendRemote None (HintRegister (sh_node s1) True)] s1 else s1)
         in if length (sh_local_sources s2) = 1
            then sh_push (to_subscribers (HintRegister (sh_node s2) False) s2 @
                   (if sh_local_subscribers s2 \<noteq> [] then [SubscribeSource (sh_local_subscribers s2) (sh_node s2)] else [])) s2
            else s2))"
| "sh_on_local actor LcUnregister s =
     (case position (\<lambda>a. a = actor) (sh_local_sources s) of
        None \<Rightarrow> s
      | Some pos \<Rightarrow>
          (let s1 = s\<lparr>sh_local_sources := swap_remove pos (sh_local_sources s)\<rparr>;
               s2 = (if sh_local_sources s1 = [] \<and> sh_remote_sources s1 = []
                     then sh_push [SendRemote None (HintUnregister (sh_node s1) True)] s1 else s1)
           in if sh_local_sources s2 = []
              then sh_push (to_subscribers (HintUnregister (sh_node s2) False) s2 @
                     (if sh_local_subscribers s2 \<noteq> [] then [UnsubscribeSource (sh_local_subscribers s2) (sh_node s2)] else [])) s2
              else s2))"
| "sh_on_local actor LcSubscribe s =
     (if actor \<in> set (sh_local_subscribers s) then s
      else
        (let s1 = s\<lparr>sh_local_subscribers := sh_local_subscribers s @ [actor]\<rparr>;
             s2 = (if length (sh_local_subscribers s1) = 1 \<and> sh_remote_subscribers s1 = []
                   then sh_push [SendRemote None (HintSubscribe (sh_session s1))] s1 else s1)
         in sh_push (map (\<lambda>(source, _). SubscribeSource [actor] source) (sh_remote_sources s2) @
              (if sh_local_sources s2 \<noteq> [] then [SubscribeSource [actor] (sh_node s2)] else [])) s2))"
| "sh_on_local actor LcUnsubscribe s =
     (case position (\<lambda>a. a = actor) (sh_local_subscribers s) of
        None \<Rightarrow> s
      | Some pos \<Rightarrow>
          (let s1 = s\<lparr>sh_local_subscribers := swap_remove pos (sh_local_subscribers s)\<rparr>;
               s2 = (if sh_local_subscribers s1 = [] \<and> sh_remote_subscribers s1 = []
                     then sh_push [SendRemote None (HintUnsubscribe (sh_session s1))] s1 else s1)
           in sh_push (map (\<lambda>(source, _). UnsubscribeSource [actor] source) (sh_remote_sources s2) @
                (if sh_local_sources s2 \<noteq> [] then [UnsubscribeSource [actor] (sh_node s2)] else [])) s2))"

text \<open>One entry of a \<^verbatim>\<open>Sources\<close> snapshot.\<close>

definition snapshot_source :: "time \<Rightarrow> node_id \<Rightarrow> 'u hints \<Rightarrow> 'u hints" where
  "snapshot_source now source s =
     (if source \<noteq> sh_node s then
        (let s1 = s\<lparr>sh_remote_sources := bt_insert source now (sh_remote_sources s)\<rparr>
         in if map_of (sh_remote_sources s) source = None
            then sh_push (to_subscribers (HintRegister source False) s1 @
                   (if sh_local_subscribers s1 \<noteq> [] then [SubscribeSource (sh_local_subscribers s1) source] else [])) s1
            else s1)
      else s)"

fun sh_on_remote :: "time \<Rightarrow> net_pair \<Rightarrow> source_hint \<Rightarrow> 'u hints \<Rightarrow> 'u hints" where
  "sh_on_remote now remote (HintRegister source to_root) s =
     (if source = sh_node s then s
      else if \<not> to_root \<and> sh_next_hop s \<noteq> Some remote then s
      else
        (let s1 = sh_push ((if to_root then [SendRemote None (HintRegister source True)] else []) @
                           to_other_subscribers remote (HintRegister source False) s) s;
             s2 = s1\<lparr>sh_remote_sources := bt_insert source now (sh_remote_sources s1)\<rparr>
         in if map_of (sh_remote_sources s1) source = None \<and> sh_local_subscribers s2 \<noteq> []
            then sh_push [SubscribeSource (sh_local_subscribers s2) source] s2 else s2))"
| "sh_on_remote now remote (HintUnregister source to_root) s =
     (if source = sh_node s then s
      else if \<not> to_root \<and> sh_next_hop s \<noteq> Some remote then s
      else
        (let s1 = sh_push ((if to_root then [SendRemote None (HintUnregister source True)] else []) @
                           to_other_subscribers remote (HintUnregister source False) s) s;
             s2 = s1\<lparr>sh_remote_sources := hm_remove source (sh_remote_sources s1)\<rparr>
         in if map_of (sh_remote_sources s1) source \<noteq> None \<and> sh_local_subscribers s2 \<noteq> []
            then sh_push [UnsubscribeSource (sh_local_subscribers s2) source] s2 else s2))"
| "sh_on_remote now remote (HintSubscribe sess) s =
     (let s1 = s\<lparr>sh_remote_subscribers := bt_insert remote now (sh_remote_subscribers s)\<rparr>
      in if map_of (sh_remote_subscribers s) remote = None
         then sh_push (SendRemote (Some remote) (HintSubscribeOk sess) #
                (if length (sh_remote_subscribers s1) = 1 \<and> sh_local_subscribers s1 = []
                 then [SendRemote None (HintSubscribe (sh_session s1))] else []) @
                (if sh_sources s1 \<noteq> [] then [SendRemote (Some remote) (HintSources (sh_sources s1))] else [])) s1
         else sh_push [SendRemote (Some remote) (HintSubscribeOk sess)] s1)"
| "sh_on_remote now remote (HintSubscribeOk sess) s =
     (if sess = sh_session s then s\<lparr>sh_next_hop := Some remote\<rparr> else s)"
| "sh_on_remote now remote (HintUnsubscribe sess) s =
     (let s1 = s\<lparr>sh_remote_subscribers := hm_remove remote (sh_remote_subscribers s)\<rparr>
      in if map_of (sh_remote_subscribers s) remote \<noteq> None
         then sh_push (SendRemote (Some remote) (HintUnsubscribeOk sess) #
                (if sh_local_subscribers s1 = [] \<and> sh_remote_subscribers s1 = []
                 then [SendRemote None (HintUnsubscribe (sh_session s1))] else [])) s1
         else sh_push [SendRemote (Some remote) (HintUnsubscribeOk sess)] s1)"
| "sh_on_remote now remote (HintUnsubscribeOk sess) s =
     (if sess = sh_session s then s\<lparr>sh_next_hop := None\<rparr> else s)"
| "sh_on_remote now remote (HintSources sources) s = fold (snapshot_source now) sources s"

definition sh_pop_output :: "'u hints \<Rightarrow> 'u hint_output option \<times> 'u hints" where
  "sh_pop_output s = (case sh_queue s of [] \<Rightarrow> (None, s) | x # xs \<Rightarrow> (Some x, s\<lparr>sh_queue := xs\<rparr>))"

definition sh_should_clear :: "'u hints \<Rightarrow> bool" where
  "sh_should_clear s \<longleftrightarrow>
     sh_local_sources s = [] \<and> sh_remote_sources s = [] \<and> sh_local_subscribers s = [] \<and> sh_remote_subscribers s = []"

subsection \<open>Which sources every local subscriber follows\<close>

definition wf_hints :: "'u hints \<Rightarrow> bool" where
  "wf_hints s \<longleftrightarrow> distinct (sh_local_sources s) \<and> distinct (sh_local_subscribers s) \<and> wf_btree (sh_remote_sources s) \<and>
     wf_btree (sh_remote_subscribers s) \<and> sh_node s \<notin> fst ` set (sh_remote_sources s)"

fun follow :: "('u feature_actor \<times> node_id) set \<Rightarrow> 'u hint_output \<Rightarrow> ('u feature_actor \<times> node_id) set" where
  "follow F (SubscribeSource actors source) = F \<union> set actors \<times> {source}"
| "follow F (UnsubscribeSource actors source) = F - set actors \<times> {source}"
| "follow F (SendRemote _ _) = F"

definition following :: "'u hints \<Rightarrow> ('u feature_actor \<times> node_id) set" where
  "following s = set (sh_local_subscribers s) \<times> set (sh_sources s)"

abbreviation hint_tracks :: "'u hints \<Rightarrow> 'u hints \<Rightarrow> bool" where
  "hint_tracks \<equiv> tracks following sh_queue follow"

interpretation hint_log: delta_log following sh_queue follow sh_pop_output
  by unfold_locales (auto simp: sh_pop_output_def following_def sh_sources_def)

lemma follow_sends [simp]:
  "foldl follow F (to_subscribers h s) = F" "foldl follow F (to_other_subscribers p h s) = F"
proof -
  have "foldl follow F (map (\<lambda>(remote, _). SendRemote (Some remote) h) xs) = F" for xs :: "(net_pair \<times> time) list"
    by (induction xs) (simp_all add: split_beta)
  then show "foldl follow F (to_subscribers h s) = F" "foldl follow F (to_other_subscribers p h s) = F"
    by (simp_all add: to_subscribers_def to_other_subscribers_def)
qed

lemma follow_each_sub [simp]:
  "foldl follow F (map (\<lambda>(source, _). SubscribeSource [a] source) m) = F \<union> {a} \<times> fst ` set m"
proof (induction m arbitrary: F)
  case (Cons x m)
  then show ?case by (cases x) auto
qed simp

lemma follow_each_unsub [simp]:
  "foldl follow F (map (\<lambda>(source, _). UnsubscribeSource [a] source) m) = F - {a} \<times> fst ` set m"
proof (induction m arbitrary: F)
  case (Cons x m)
  then show ?case by (cases x) auto
qed simp

lemma following_alt:
  "following s = set (sh_local_subscribers s) \<times> (fst ` set (sh_remote_sources s) \<union> (if sh_local_sources s = [] then {} else {sh_node s}))"
  by (simp add: following_def sh_sources_def)

lemma hint_tracksI: "sh_queue t = sh_queue s @ outs \<Longrightarrow> foldl follow (following s) outs = following t \<Longrightarrow> hint_tracks s t"
  by (auto simp: tracks_def)

text \<open>Pushing messages for other nodes only, and changing nothing that the local subscribers depend on.\<close>

lemma hint_tracks_push: "(\<And>F. foldl follow F outs = F) \<Longrightarrow> hint_tracks s (sh_push outs s)"
  by (rule hint_tracksI [where outs = outs]) (simp_all add: sh_push_def following_def sh_sources_def)

definition hint_ok :: "'u hints \<Rightarrow> 'u hints \<Rightarrow> bool" where
  "hint_ok s t \<longleftrightarrow> (wf_hints s \<longrightarrow> wf_hints t \<and> hint_tracks s t)"

lemma hint_ok_refl: "hint_ok s s"
  by (simp add: hint_ok_def tracks_refl)

lemma hint_ok_trans: "hint_ok s t \<Longrightarrow> hint_ok t u \<Longrightarrow> hint_ok s u"
  by (auto simp: hint_ok_def intro: tracks_trans)

lemma hint_ok_fold: "(\<And>x s. hint_ok s (f x s)) \<Longrightarrow> hint_ok s (fold f xs s)"
  by (induction xs arbitrary: s) (auto intro: hint_ok_refl hint_ok_trans)

lemma sh_push_Nil [simp]: "sh_push [] s = s"
  by (simp add: sh_push_def)

lemma hint_ok_push: "(\<And>F. foldl follow F outs = F) \<Longrightarrow> hint_ok s (sh_push outs s)"
  using hint_tracks_push [of outs s] by (simp add: hint_ok_def sh_push_def wf_hints_def)

lemma following_subscribers [simp]:
  "following (s\<lparr>sh_remote_subscribers := m\<rparr>) = following s" "following (s\<lparr>sh_next_hop := h\<rparr>) = following s"
  "following (sh_push outs s) = following s"
  by (simp_all add: following_def sh_sources_def sh_push_def)

lemma hint_ok_subscribers:
  "(wf_btree (sh_remote_subscribers s) \<Longrightarrow> wf_btree m) \<Longrightarrow> hint_ok s (s\<lparr>sh_remote_subscribers := m\<rparr>)"
  by (auto simp: hint_ok_def wf_hints_def intro!: hint_tracksI [where outs = "[]"])

lemma hint_ok_next_hop: "hint_ok s (s\<lparr>sh_next_hop := h\<rparr>)"
  by (auto simp: hint_ok_def wf_hints_def intro!: hint_tracksI [where outs = "[]"])

lemma hint_ok_then_push: "hint_ok s t \<Longrightarrow> (\<And>F. foldl follow F outs = F) \<Longrightarrow> hint_ok s (sh_push outs t)"
  by (rule hint_ok_trans [OF _ hint_ok_push])

lemma hint_ok_expire_subscriber: "hint_ok s (expire_subscriber remote s)"
proof -
  let ?s = "s\<lparr>sh_remote_subscribers := hm_remove remote (sh_remote_subscribers s)\<rparr>"
  have "hint_ok s ?s" by (rule hint_ok_subscribers) (rule wf_bt_remove)
  moreover from this have "hint_ok s (sh_push [SendRemote None (HintUnsubscribe (sh_session ?s))] ?s)"
    by (rule hint_ok_then_push) simp
  ultimately show ?thesis unfolding expire_subscriber_def Let_def by presburger
qed

text \<open>A remote source that appears or goes away.\<close>

lemma hint_ok_add_told:
  "source \<noteq> sh_node s \<Longrightarrow> hint_ok s (sh_push [SubscribeSource (sh_local_subscribers s) source]
     (s\<lparr>sh_remote_sources := bt_insert source now (sh_remote_sources s)\<rparr>))"
  by (auto simp: hint_ok_def wf_hints_def wf_bt_insert sh_push_def following_alt
      intro!: hint_tracksI [where outs = "[SubscribeSource (sh_local_subscribers s) source]"])

lemma hint_ok_add_silent:
  assumes "source \<noteq> sh_node s" "map_of (sh_remote_sources s) source \<noteq> None \<or> sh_local_subscribers s = []"
  shows "hint_ok s (s\<lparr>sh_remote_sources := bt_insert source now (sh_remote_sources s)\<rparr>)"
proof -
  have "source \<in> fst ` set (sh_remote_sources s) \<or> sh_local_subscribers s = []"
    using assms(2) map_of_eq_None_iff by metis
  then have "following (s\<lparr>sh_remote_sources := bt_insert source now (sh_remote_sources s)\<rparr>) = following s"
    by (auto simp: following_alt insert_absorb)
  then show ?thesis
    using assms(1) by (auto simp: hint_ok_def wf_hints_def wf_bt_insert intro!: hint_tracksI [where outs = "[]"])
qed

lemma keys_remove: "fst ` set (hm_remove k m) = fst ` set m - {k}"
  by (induction m) auto

lemma hint_ok_remove_told:
  "source \<noteq> sh_node s \<Longrightarrow> hint_ok s (sh_push [UnsubscribeSource (sh_local_subscribers s) source]
     (s\<lparr>sh_remote_sources := hm_remove source (sh_remote_sources s)\<rparr>))"
  by (auto simp: hint_ok_def wf_hints_def wf_bt_remove sh_push_def following_alt keys_remove
      intro!: hint_tracksI [where outs = "[UnsubscribeSource (sh_local_subscribers s) source]"])

lemma hint_ok_remove_silent:
  assumes "map_of (sh_remote_sources s) source = None \<or> sh_local_subscribers s = []"
  shows "hint_ok s (s\<lparr>sh_remote_sources := hm_remove source (sh_remote_sources s)\<rparr>)"
proof -
  have "following (s\<lparr>sh_remote_sources := hm_remove source (sh_remote_sources s)\<rparr>) = following s"
    using assms by (auto simp: following_alt hm_remove_empty)
  then show ?thesis
    by (auto simp: hint_ok_def wf_hints_def wf_bt_remove keys_remove intro!: hint_tracksI [where outs = "[]"])
qed

lemma hint_ok_expire_source:
  assumes "source \<noteq> sh_node s"
  shows "hint_ok s (expire_source source s)"
  using hint_ok_remove_told [OF assms] hint_ok_remove_silent [of s source] by (auto simp: expire_source_def Let_def)

lemma hint_ok_snapshot: "hint_ok s (snapshot_source now source s)"
proof (cases "source = sh_node s")
  case False
  let ?s = "s\<lparr>sh_remote_sources := bt_insert source now (sh_remote_sources s)\<rparr>"
  have swap: "sh_push (xs @ ys) t = sh_push ys (sh_push xs t)" for xs ys and t :: "'a hints" by (simp add: sh_push_def)
  have "hint_ok s (sh_push [SubscribeSource (sh_local_subscribers s) source] (sh_push (to_subscribers h ?s) ?s))" for h
  proof -
    have "hint_ok s (sh_push (to_subscribers h ?s) s)" by (rule hint_ok_push) simp
    moreover have "hint_ok (sh_push (to_subscribers h ?s) s) (sh_push [SubscribeSource (sh_local_subscribers s) source] (sh_push (to_subscribers h ?s) ?s))"
      using hint_ok_add_told [of source "sh_push (to_subscribers h ?s) s" now] False by (simp add: sh_push_def)
    ultimately show ?thesis by (rule hint_ok_trans)
  qed
  moreover have "hint_ok s (sh_push (to_subscribers h ?s) ?s)" if "sh_local_subscribers s = []" for h
    using that False by (intro hint_ok_then_push hint_ok_add_silent) auto
  ultimately show ?thesis
    using hint_ok_add_silent [OF False] False by (auto simp: snapshot_source_def Let_def swap)
qed (simp add: snapshot_source_def hint_ok_refl)

lemma expire_subscriber_node [simp]: "sh_node (expire_subscriber remote s) = sh_node s"
  "sh_node (expire_source source s) = sh_node s"
  by (simp_all add: expire_subscriber_def expire_source_def sh_push_def Let_def)

lemma hint_ok_expire_sources: "sh_node s \<notin> set xs \<Longrightarrow> hint_ok s (fold expire_source xs s)"
proof (induction xs arbitrary: s)
  case (Cons x xs)
  then have "hint_ok s (expire_source x s)" "hint_ok (expire_source x s) (fold expire_source xs (expire_source x s))"
    by (auto intro: hint_ok_expire_source)
  then show ?case by (auto intro: hint_ok_trans)
qed (simp add: hint_ok_refl)

lemma hint_ok_if_push:
  assumes "hint_ok s t" "\<And>F. foldl follow F outs = F"
  shows "hint_ok s (if b then sh_push outs t else t)"
  using hint_ok_then_push [OF assms] assms(1) by simp

lemma hint_ok_tick: "hint_ok s (sh_on_tick now s)"
  unfolding hint_ok_def
proof
  assume wf: "wf_hints s"
  let ?late = "\<lambda>(_, last_tick). elapsed now last_tick \<ge> HINT_TIMEOUT_MS"
  define s1 where "s1 = fold expire_subscriber (map fst (filter ?late (sh_remote_subscribers s))) s"
  define s2 where "s2 = fold expire_source (map fst (filter ?late (sh_remote_sources s1))) s1"
  have 1: "hint_ok s s1" unfolding s1_def by (intro hint_ok_fold hint_ok_expire_subscriber)
  then have "wf_hints s1" using wf by (simp add: hint_ok_def)
  then have "sh_node s1 \<notin> set (map fst (filter ?late (sh_remote_sources s1)))" by (auto simp: wf_hints_def)
  then have "hint_ok s1 s2" unfolding s2_def by (rule hint_ok_expire_sources)
  with 1 have 2: "hint_ok s s2" by (rule hint_ok_trans)
  have "hint_ok s (sh_on_tick now s)"
    unfolding sh_on_tick_def Let_def s1_def [symmetric] s2_def [symmetric]
    by (intro hint_ok_if_push 2) simp_all
  then show "wf_hints (sh_on_tick now s) \<and> hint_tracks s (sh_on_tick now s)" using wf by (simp add: hint_ok_def)
qed

text \<open>The local commands: the change itself together with what the local subscribers are told about it.\<close>

lemma hint_ok_change:
  assumes "wf_hints t" "sh_queue t = sh_queue s" "\<And>F. foldl follow F pre = F" "foldl follow (following s) told = following t"
  shows "wf_hints (sh_push (pre @ told) t) \<and> hint_tracks s (sh_push (pre @ told) t)"
  using assms by (auto simp: wf_hints_def sh_push_def following_alt intro!: hint_tracksI [where outs = "pre @ told"])

lemma sh_push_push [simp]: "sh_push ys (sh_push xs t) = sh_push (xs @ ys) t"
  by (simp add: sh_push_def)

lemma sh_push_fields [simp]:
  "sh_node (sh_push xs t) = sh_node t" "sh_session (sh_push xs t) = sh_session t" "sh_next_hop (sh_push xs t) = sh_next_hop t"
  "sh_remote_sources (sh_push xs t) = sh_remote_sources t" "sh_local_sources (sh_push xs t) = sh_local_sources t"
  "sh_remote_subscribers (sh_push xs t) = sh_remote_subscribers t" "sh_local_subscribers (sh_push xs t) = sh_local_subscribers t"
  "to_subscribers h (sh_push xs t) = to_subscribers h t"
  by (simp_all add: sh_push_def to_subscribers_def)

lemma to_subscribers_fields [simp]:
  "to_subscribers h (s\<lparr>sh_local_sources := xs\<rparr>) = to_subscribers h s"
  "to_subscribers h (s\<lparr>sh_local_subscribers := xs\<rparr>) = to_subscribers h s"
  "to_subscribers h (s\<lparr>sh_remote_sources := m\<rparr>) = to_subscribers h s"
  by (simp_all add: to_subscribers_def)

lemma hint_ok_register: "hint_ok s (sh_on_local actor LcRegister s)"
proof (cases "actor \<in> set (sh_local_sources s)")
  case False
  let ?s = "s\<lparr>sh_local_sources := sh_local_sources s @ [actor]\<rparr>"
  let ?pre = "(if sh_local_sources s = [] \<and> sh_remote_sources s = [] then [SendRemote None (HintRegister (sh_node s) True)] else []) @
      (if sh_local_sources s = [] then to_subscribers (HintRegister (sh_node s) False) s else [])"
  let ?told = "if sh_local_sources s = [] \<and> sh_local_subscribers s \<noteq> [] then [SubscribeSource (sh_local_subscribers s) (sh_node s)] else []"
  have "sh_on_local actor LcRegister s = sh_push (?pre @ ?told) ?s" using False by (auto simp: Let_def)
  moreover have "wf_hints (sh_push (?pre @ ?told) ?s) \<and> hint_tracks s (sh_push (?pre @ ?told) ?s)" if "wf_hints s"
    by (rule hint_ok_change) (use that False in \<open>auto simp: wf_hints_def following_alt\<close>)
  ultimately show ?thesis by (simp add: hint_ok_def)
qed (simp add: hint_ok_refl)

lemma hint_ok_unregister: "hint_ok s (sh_on_local actor LcUnregister s)"
proof (cases "position (\<lambda>a. a = actor) (sh_local_sources s)")
  case (Some pos)
  let ?l = "swap_remove pos (sh_local_sources s)"
  let ?s = "s\<lparr>sh_local_sources := ?l\<rparr>"
  let ?pre = "(if ?l = [] \<and> sh_remote_sources s = [] then [SendRemote None (HintUnregister (sh_node s) True)] else []) @
      (if ?l = [] then to_subscribers (HintUnregister (sh_node s) False) s else [])"
  let ?told = "if ?l = [] \<and> sh_local_subscribers s \<noteq> [] then [UnsubscribeSource (sh_local_subscribers s) (sh_node s)] else []"
  have eq: "sh_on_local actor LcUnregister s = sh_push (?pre @ ?told) ?s" using Some by (auto simp: Let_def)
  have "wf_hints (sh_push (?pre @ ?told) ?s) \<and> hint_tracks s (sh_push (?pre @ ?told) ?s)" if wf: "wf_hints s"
  proof (rule hint_ok_change)
    have "distinct (sh_local_sources s)" "sh_local_sources s \<noteq> []" using wf Some by (auto simp: wf_hints_def)
    then show "wf_hints ?s" "foldl follow (following s) ?told = following ?s"
      using set_swap_remove [OF _ Some] wf by (auto simp: wf_hints_def following_alt intro: rev_image_eqI)
  qed auto
  then show ?thesis unfolding eq by (simp add: hint_ok_def)
qed (simp add: hint_ok_refl)

lemma hint_ok_subscribe: "hint_ok s (sh_on_local actor LcSubscribe s)"
proof (cases "actor \<in> set (sh_local_subscribers s)")
  case False
  let ?s = "s\<lparr>sh_local_subscribers := sh_local_subscribers s @ [actor]\<rparr>"
  let ?pre = "if sh_local_subscribers s = [] \<and> sh_remote_subscribers s = [] then [SendRemote None (HintSubscribe (sh_session s))] else []"
  let ?told = "map (\<lambda>(source, _). SubscribeSource [actor] source) (sh_remote_sources s) @
      (if sh_local_sources s \<noteq> [] then [SubscribeSource [actor] (sh_node s)] else [])"
  have "sh_on_local actor LcSubscribe s = sh_push (?pre @ ?told) ?s" using False by (auto simp: Let_def)
  moreover have "wf_hints (sh_push (?pre @ ?told) ?s) \<and> hint_tracks s (sh_push (?pre @ ?told) ?s)" if "wf_hints s"
    by (rule hint_ok_change) (use that False in \<open>auto simp: wf_hints_def following_alt\<close>)
  ultimately show ?thesis by (simp add: hint_ok_def)
qed (simp add: hint_ok_refl)

lemma hint_ok_unsubscribe: "hint_ok s (sh_on_local actor LcUnsubscribe s)"
proof (cases "position (\<lambda>a. a = actor) (sh_local_subscribers s)")
  case (Some pos)
  let ?l = "swap_remove pos (sh_local_subscribers s)"
  let ?s = "s\<lparr>sh_local_subscribers := ?l\<rparr>"
  let ?pre = "if ?l = [] \<and> sh_remote_subscribers s = [] then [SendRemote None (HintUnsubscribe (sh_session s))] else []"
  let ?told = "map (\<lambda>(source, _). UnsubscribeSource [actor] source) (sh_remote_sources s) @
      (if sh_local_sources s \<noteq> [] then [UnsubscribeSource [actor] (sh_node s)] else [])"
  have eq: "sh_on_local actor LcUnsubscribe s = sh_push (?pre @ ?told) ?s" using Some by (auto simp: Let_def)
  have "wf_hints (sh_push (?pre @ ?told) ?s) \<and> hint_tracks s (sh_push (?pre @ ?told) ?s)" if wf: "wf_hints s"
  proof (rule hint_ok_change)
    have "distinct (sh_local_subscribers s)" using wf by (simp add: wf_hints_def)
    from set_swap_remove [OF this Some] show "wf_hints ?s" "foldl follow (following s) ?told = following ?s"
      using wf by (auto simp: wf_hints_def following_alt)
  qed auto
  then show ?thesis unfolding eq by (simp add: hint_ok_def)
qed (simp add: hint_ok_refl)

lemma hint_ok_local: "hint_ok s (sh_on_local actor cmd s)"
  by (cases cmd) (simp_all only: hint_ok_register hint_ok_unregister hint_ok_subscribe hint_ok_unsubscribe)

lemma to_other_fields [simp]: "to_other_subscribers p h (sh_push xs t) = to_other_subscribers p h t"
  by (simp add: to_other_subscribers_def sh_push_def)

lemma hint_ok_remote: "hint_ok s (sh_on_remote now remote hint s)"
proof (cases hint)
  case (HintRegister source to_root)
  show ?thesis
  proof (cases "source = sh_node s \<or> \<not> to_root \<and> sh_next_hop s \<noteq> Some remote")
    case True
    then show ?thesis by (auto simp: HintRegister hint_ok_refl)
  next
    case False
    define s1 where "s1 = sh_push ((if to_root then [SendRemote None (HintRegister source True)] else []) @
      to_other_subscribers remote (HintRegister source False) s) s"
    have "hint_ok s s1" unfolding s1_def by (rule hint_ok_push) simp
    moreover have "hint_ok s1 (sh_on_remote now remote hint s)"
    proof -
      have n: "source \<noteq> sh_node s1" using False by (simp add: s1_def)
      have guards: "(source = sh_node s) = False" "(\<not> to_root \<and> sh_next_hop s \<noteq> Some remote) = False" using False by auto
      have eq: "sh_on_remote now remote hint s =
          (let s2 = s1\<lparr>sh_remote_sources := bt_insert source now (sh_remote_sources s1)\<rparr>
           in if map_of (sh_remote_sources s1) source = None \<and> sh_local_subscribers s2 \<noteq> []
              then sh_push [SubscribeSource (sh_local_subscribers s2) source] s2 else s2)"
        unfolding HintRegister sh_on_remote.simps guards if_False s1_def Let_def by (rule refl)
      show ?thesis
        unfolding eq using hint_ok_add_told [OF n, of now] hint_ok_add_silent [OF n, of now] by (simp add: Let_def)
    qed
    ultimately show ?thesis by (rule hint_ok_trans)
  qed
next
  case (HintUnregister source to_root)
  show ?thesis
  proof (cases "source = sh_node s \<or> \<not> to_root \<and> sh_next_hop s \<noteq> Some remote")
    case True
    then show ?thesis by (auto simp: HintUnregister hint_ok_refl)
  next
    case False
    define s1 where "s1 = sh_push ((if to_root then [SendRemote None (HintUnregister source True)] else []) @
      to_other_subscribers remote (HintUnregister source False) s) s"
    have "hint_ok s s1" unfolding s1_def by (rule hint_ok_push) simp
    moreover have "hint_ok s1 (sh_on_remote now remote hint s)"
    proof -
      have n: "source \<noteq> sh_node s1" using False by (simp add: s1_def)
      have guards: "(source = sh_node s) = False" "(\<not> to_root \<and> sh_next_hop s \<noteq> Some remote) = False" using False by auto
      have eq: "sh_on_remote now remote hint s =
          (let s2 = s1\<lparr>sh_remote_sources := hm_remove source (sh_remote_sources s1)\<rparr>
           in if map_of (sh_remote_sources s1) source \<noteq> None \<and> sh_local_subscribers s2 \<noteq> []
              then sh_push [UnsubscribeSource (sh_local_subscribers s2) source] s2 else s2)"
        unfolding HintUnregister sh_on_remote.simps guards if_False s1_def Let_def by (rule refl)
      show ?thesis
        unfolding eq using hint_ok_remove_told [OF n] hint_ok_remove_silent [of s1 source] by (simp add: Let_def)
    qed
    ultimately show ?thesis by (rule hint_ok_trans)
  qed
next
  case (HintSubscribe sess)
  have "hint_ok s (s\<lparr>sh_remote_subscribers := bt_insert remote now (sh_remote_subscribers s)\<rparr>)"
    by (rule hint_ok_subscribers) (rule wf_bt_insert)
  from hint_ok_then_push [OF this] show ?thesis unfolding HintSubscribe sh_on_remote.simps Let_def by auto
next
  case (HintUnsubscribe sess)
  have "hint_ok s (s\<lparr>sh_remote_subscribers := hm_remove remote (sh_remote_subscribers s)\<rparr>)"
    by (rule hint_ok_subscribers) (rule wf_bt_remove)
  from hint_ok_then_push [OF this] show ?thesis unfolding HintUnsubscribe sh_on_remote.simps Let_def by auto
qed (auto simp: hint_ok_refl hint_ok_next_hop intro: hint_ok_fold hint_ok_snapshot)

text \<open>A node's hints with the set of subscriptions that the instructions taken so far amount to.\<close>

inductive hint_run :: "node_id \<Rightarrow> u64 \<Rightarrow> 'u hints \<Rightarrow> ('u feature_actor \<times> node_id) set \<Rightarrow> bool" for n sess where
  hint_new: "hint_run n sess (sh_new n sess) {}"
| hint_tick: "hint_run n sess s F \<Longrightarrow> hint_run n sess (sh_on_tick now s) F"
| hint_local: "hint_run n sess s F \<Longrightarrow> hint_run n sess (sh_on_local actor cmd s) F"
| hint_remote: "hint_run n sess s F \<Longrightarrow> hint_run n sess (sh_on_remote now remote hint s) F"
| hint_pop: "hint_run n sess s F \<Longrightarrow> sh_pop_output s = (Some out, s') \<Longrightarrow> hint_run n sess s' (follow F out)"

lemma wf_hints_queue [simp]: "wf_hints (s\<lparr>sh_queue := q\<rparr>) = wf_hints s"
  by (simp add: wf_hints_def)

lemma hint_run_inv: "hint_run n sess s F \<Longrightarrow> wf_hints s \<and> hint_log.in_sync F s"
proof (induction rule: hint_run.induct)
  case hint_new
  show ?case unfolding hint_log.in_sync_def by (simp add: wf_hints_def sh_new_def following_def)
next
  case (hint_pop s F out s')
  then have "wf_hints s'" by (auto simp: sh_pop_output_def split: list.splits)
  then show ?case using hint_pop hint_log.in_sync_pop by blast
qed (use hint_ok_tick hint_ok_local hint_ok_remote hint_log.in_sync_step in \<open>unfold hint_ok_def, blast+\<close>)

text \<open>
  C31. Local subscribers follow exactly the known sources. Whatever the local applications, the neighbours and the
  clock do, once every instruction has been taken, the subscriptions they amount to pair every local
  subscriber of the channel with every source the node knows (its own included), and with no other.
\<close>

theorem subscribers_follow_sources:
  assumes "hint_run n sess s F" "sh_queue s = []"
  shows "F = set (sh_local_subscribers s) \<times> set (sh_sources s)"
  using hint_run_inv [OF assms(1)] assms(2) unfolding hint_log.in_sync_def by (simp add: following_def)

lemma subscribers_follow_sources_witness:
  "\<exists>s. hint_run 1 7 s {(ActorService 3 :: unit feature_actor, 2)} \<and> sh_queue s = [] \<and>
     set (sh_local_subscribers s) \<times> set (sh_sources s) = {(ActorService 3, 2)}"
proof -
  let ?p = "\<lparr>np_local = SocketV4 1 1, np_remote = SocketV4 2 1\<rparr>"
  let ?a = "ActorService 3 :: unit feature_actor"
  define s1 where "s1 = sh_on_local ?a LcSubscribe (sh_new 1 7)"
  define s2 where "s2 = sh_on_remote 5 ?p (HintSources [2]) s1"
  have 2: "hint_run 1 7 s2 {}" unfolding s2_def s1_def by (intro hint_run.intros)
  have q: "sh_queue s2 = [SendRemote None (HintSubscribe 7), SubscribeSource [?a] 2]"
    by (simp add: s2_def s1_def sh_new_def sh_push_def snapshot_source_def to_subscribers_def)
  have 3: "hint_run 1 7 (s2\<lparr>sh_queue := [SubscribeSource [?a] 2]\<rparr>) {}"
    using hint_pop [OF 2, of "SendRemote None (HintSubscribe 7)"] by (simp add: sh_pop_output_def q)
  have 4: "hint_run 1 7 (s2\<lparr>sh_queue := []\<rparr>) {(?a, 2)}"
    using hint_pop [OF 3, of "SubscribeSource [?a] 2"] by (simp add: sh_pop_output_def)
  from subscribers_follow_sources [OF 4] 4 show ?thesis by (intro exI [of _ "s2\<lparr>sh_queue := []\<rparr>"]) simp
qed

text \<open>
  A source that ends is announced only when it is alone. When the last publisher of a node stops while the node
  knows another source of the channel and has no subscriber below it, nothing is sent to any other node: the rest of the
  network goes on following the source until its entry times out.
\<close>

theorem unregister_not_announced:
  assumes "sh_local_sources s = [actor]" "sh_remote_sources s \<noteq> []" "sh_remote_subscribers s = []"
  shows "\<exists>outs. sh_queue (sh_on_local actor LcUnregister s) = sh_queue s @ outs \<and> (\<forall>d h. SendRemote d h \<notin> set outs) \<and>
    sh_local_sources (sh_on_local actor LcUnregister s) = []"
  using assms by (simp add: swap_remove_def sh_push_def to_subscribers_def Let_def)

lemma unregister_not_announced_witness:
  "\<exists>outs. sh_queue (sh_on_local (ActorService 1) LcUnregister
      (sh_new 1 7\<lparr>sh_local_sources := [ActorService 1 :: unit feature_actor], sh_remote_sources := [(2, 0)]\<rparr>)) = outs \<and>
     (\<forall>d h. SendRemote d h \<notin> set outs)"
  using unregister_not_announced [of "sh_new 1 7\<lparr>sh_local_sources := [ActorService 1 :: unit feature_actor], sh_remote_sources := [(2, 0)]\<rparr>"
      "ActorService 1"]
  by (simp add: sh_new_def)

end
