(* ===== verification/Pubsub_Feature.thy ===== *)
theory Pubsub_Feature
  imports Pubsub_Relay Pubsub_Hint
begin

text \<open>
  The controller half of the publish/subscribe feature (\<^verbatim>\<open>packages/network/src/features/pubsub/controller.rs\<close>): one relay per
  channel and source, one source-hint logic per channel.

  The lemmas show that no input makes it panic or loop, that every relay has the type its identity asks for, and that the
  controls it sends keep the route entries of the workers equal to its relays.
\<close>

record feature_ctx =
  fc_node :: node_id
  fc_session :: u64

type_synonym 'u ps_output = "('u, ps_event, 'u ps_to_worker) feature_output"

record 'u pubsub =
  ps_relays :: "(relay_id \<times> 'u relay) list"
  ps_hints :: "(channel_id \<times> 'u hints) list"
  ps_queue :: "'u ps_output list"
  ps_shutdown :: bool

definition ps_new :: "'u pubsub" where
  "ps_new = \<lparr>ps_relays = [], ps_hints = [], ps_queue = [], ps_shutdown = False\<rparr>"

definition ps_push :: "'u ps_output list \<Rightarrow> 'u pubsub \<Rightarrow> 'u pubsub" where
  "ps_push outs p = p\<lparr>ps_queue := ps_queue p @ outs\<rparr>"

definition new_relay :: "feature_ctx \<Rightarrow> relay_id \<Rightarrow> 'u relay" where
  "new_relay ctx rid = (if fc_node ctx = snd rid then LocalR lr_default else RemoteR (re_new (fc_session ctx)))"

text \<open>\<^verbatim>\<open>get_relay\<close> and \<^verbatim>\<open>get_source_hint\<close>: the creation; the callers then look the entry up.\<close>

definition ensure_relay :: "feature_ctx \<Rightarrow> relay_id \<Rightarrow> bool \<Rightarrow> 'u pubsub \<Rightarrow> 'u pubsub" where
  "ensure_relay ctx rid auto_create p = p\<lparr>ps_relays := hm_ensure auto_create rid (new_relay ctx rid) (ps_relays p)\<rparr>"

definition ensure_hint :: "feature_ctx \<Rightarrow> channel_id \<Rightarrow> bool \<Rightarrow> 'u pubsub \<Rightarrow> 'u pubsub" where
  "ensure_hint ctx channel auto_create p =
     p\<lparr>ps_hints := hm_ensure auto_create channel (sh_new (fc_node ctx) (fc_session ctx)) (ps_hints p)\<rparr>"

definition relay_out :: "relay_id \<Rightarrow> 'u relay_output \<Rightarrow> 'u ps_output list" where
  "relay_out rid out =
     (case out of
        RoToWorker control \<Rightarrow> [OutToWorker True (PwRelayControl rid control)]
      | RoRouteChanged actor \<Rightarrow> [OutEvent actor (fst rid, EvRouteChanged (snd rid))]
      | RoFeedback actors fb \<Rightarrow> map (\<lambda>actor. OutEvent actor (fst rid, EvFeedbackData fb)) actors)"

function pop_single_relay :: "relay_id \<Rightarrow> 'u relay \<Rightarrow> 'u ps_output list \<Rightarrow> 'u relay \<times> 'u ps_output list" where
  "pop_single_relay rid r queue =
     (case relay_pop_output r of
        (Some out, r') \<Rightarrow> pop_single_relay rid r' (queue @ relay_out rid out)
      | (None, r') \<Rightarrow> (r', queue))"
  by pat_completeness auto

termination
proof (relation "measure (\<lambda>(_, r, _). length (relay_pending r))", goal_cases)
  case (2 rid r queue out r')
  show ?case
  proof (cases "relay_pending r")
    case Nil
    then show ?thesis using 2 relay_pop_run(1) [OF Nil] by simp
  next
    case (Cons x xs)
    then show ?thesis using 2 relay_pop_run(2) [OF Cons] by auto
  qed
qed simp

declare pop_single_relay.simps [simp del]

text \<open>A call on a relay followed by \<^verbatim>\<open>pop_single_relay\<close>; \<^verbatim>\<open>expect\<close> panics when there is no such relay.\<close>

definition with_relay :: "relay_id \<Rightarrow> ('u relay \<Rightarrow> 'u relay run) \<Rightarrow> 'u pubsub \<Rightarrow> 'u pubsub run" where
  "with_relay rid f p =
     do {
       r \<leftarrow> map_of (ps_relays p) rid;
       r1 \<leftarrow> f r;
       let (r2, queue) = pop_single_relay rid r1 (ps_queue p);
       Some (p\<lparr>ps_relays := hm_insert rid r2 (ps_relays p), ps_queue := queue\<rparr>)
     }"

definition clear_relay :: "relay_id \<Rightarrow> 'u pubsub \<Rightarrow> 'u pubsub" where
  "clear_relay rid p =
     (case map_of (ps_relays p) rid of
        Some r \<Rightarrow> if relay_should_clear r then p\<lparr>ps_relays := hm_remove rid (ps_relays p)\<rparr> else p
      | None \<Rightarrow> p)"

definition with_hint :: "channel_id \<Rightarrow> ('u hints \<Rightarrow> 'u hints) \<Rightarrow> 'u pubsub \<Rightarrow> 'u pubsub run" where
  "with_hint channel f p =
     do { sh \<leftarrow> map_of (ps_hints p) channel; Some (p\<lparr>ps_hints := hm_insert channel (f sh) (ps_hints p)\<rparr>) }"

text \<open>The arms \<^verbatim>\<open>SubSource\<close> and \<^verbatim>\<open>UnsubSource\<close> of \<^verbatim>\<open>on_local\<close>, which the source hints use as well.\<close>

definition sub_source :: "feature_ctx \<Rightarrow> 'u feature_actor \<Rightarrow> channel_id \<Rightarrow> node_id \<Rightarrow> 'u pubsub \<Rightarrow> 'u pubsub run" where
  "sub_source ctx actor channel source p =
     with_relay (channel, source) (\<lambda>r. Some (relay_on_local_sub actor r)) (ensure_relay ctx (channel, source) True p)"

definition unsub_source :: "time \<Rightarrow> 'u feature_actor \<Rightarrow> channel_id \<Rightarrow> node_id \<Rightarrow> 'u pubsub \<Rightarrow> 'u pubsub run" where
  "unsub_source now actor channel source p =
     (if map_of (ps_relays p) (channel, source) = None then Some p
      else map_option (clear_relay (channel, source))
             (with_relay (channel, source) (\<lambda>r. Some (relay_on_local_unsub now actor r)) p))"

definition on_hint_output :: "feature_ctx \<Rightarrow> time \<Rightarrow> channel_id \<Rightarrow> 'u hint_output \<Rightarrow> 'u pubsub \<Rightarrow> 'u pubsub run" where
  "on_hint_output ctx now channel out p =
     (case out of
        SendRemote dest control \<Rightarrow> Some (ps_push [OutToWorker True (PwSourceHint channel dest control)] p)
      | SubscribeSource actors source \<Rightarrow> for_run (\<lambda>actor. sub_source ctx actor channel source) actors p
      | UnsubscribeSource actors source \<Rightarrow> for_run (\<lambda>actor. unsub_source now actor channel source) actors p)"

text \<open>The \<^verbatim>\<open>loop\<close> of \<^verbatim>\<open>pop_single_source_hint\<close>; \<open>None\<close> is a panic or a loop that never ends.\<close>

partial_function (option) pop_single_source_hint :: "feature_ctx \<Rightarrow> time \<Rightarrow> channel_id \<Rightarrow> 'u pubsub \<Rightarrow> 'u pubsub run" where
  [code]: "pop_single_source_hint ctx now channel p =
     Option.bind (map_of (ps_hints p) channel) (\<lambda>sh.
       case sh_pop_output sh of
         (None, _) \<Rightarrow> Some p
       | (Some out, sh') \<Rightarrow>
           Option.bind (on_hint_output ctx now channel out (p\<lparr>ps_hints := hm_insert channel sh' (ps_hints p)\<rparr>))
             (pop_single_source_hint ctx now channel))"

definition pub_data :: "feature_ctx \<Rightarrow> channel_id \<Rightarrow> bytes \<Rightarrow> 'u pubsub \<Rightarrow> 'u pubsub" where
  "pub_data ctx channel data p =
     (let rid = (channel, fc_node ctx) in
      case map_of (ps_relays p) rid of
        Some relay \<Rightarrow>
          (case relay_dests relay of
             Some (locals, has_remote) \<Rightarrow>
               ps_push (map (\<lambda>actor. OutEvent actor (channel, EvSourceData (fc_node ctx) data)) locals @
                        (if has_remote then [OutToWorker True (PwRelayData rid data)] else [])) p
           | None \<Rightarrow> p)
      | None \<Rightarrow> p)"

fun on_local :: "feature_ctx \<Rightarrow> time \<Rightarrow> 'u feature_actor \<Rightarrow> channel_id \<Rightarrow> channel_control \<Rightarrow> 'u pubsub \<Rightarrow> 'u pubsub run" where
  "on_local ctx now actor channel SubAuto p =
     do {
       p1 \<leftarrow> with_hint channel (sh_on_local actor LcSubscribe) (ensure_hint ctx channel True p);
       pop_single_source_hint ctx now channel p1
     }"
| "on_local ctx now actor channel UnsubAuto p =
     (if map_of (ps_hints p) channel = None then Some p
      else do {
        p1 \<leftarrow> with_hint channel (sh_on_local actor LcUnsubscribe) p;
        pop_single_source_hint ctx now channel p1
      })"
| "on_local ctx now actor channel PubStart p =
     do {
       p1 \<leftarrow> with_relay (channel, fc_node ctx) (relay_on_pub_start actor) (ensure_relay ctx (channel, fc_node ctx) True p);
       p2 \<leftarrow> with_hint channel (sh_on_local actor LcRegister) (ensure_hint ctx channel True p1);
       pop_single_source_hint ctx now channel p2
     }"
| "on_local ctx now actor channel PubStop p =
     do {
       p1 \<leftarrow> (if map_of (ps_relays p) (channel, fc_node ctx) = None then Some p
              else with_relay (channel, fc_node ctx) (relay_on_pub_stop actor) p);
       if map_of (ps_hints p1) channel = None then Some p1
       else do {
         p2 \<leftarrow> with_hint channel (sh_on_local actor LcUnregister) p1;
         pop_single_source_hint ctx now channel p2
       }
     }"
| "on_local ctx now actor channel (SubSource source) p = sub_source ctx actor channel source p"
| "on_local ctx now actor channel (FeedbackAuto fb) p =
     (case map_of (ps_hints p) channel of
        None \<Rightarrow> Some p
      | Some sh \<Rightarrow>
          for_run (\<lambda>source p. with_relay (channel, source) (\<lambda>r. Some (relay_on_local_feedback now actor fb r))
                               (ensure_relay ctx (channel, source) True p)) (sh_sources sh) p)"
| "on_local ctx now actor channel (UnsubSource source) p = unsub_source now actor channel source p"
| "on_local ctx now actor channel (PubData data) p = Some (pub_data ctx channel data p)"

definition on_remote_relay_control :: "feature_ctx \<Rightarrow> time \<Rightarrow> net_pair \<Rightarrow> relay_id \<Rightarrow> relay_control \<Rightarrow> 'u pubsub \<Rightarrow> 'u pubsub run" where
  "on_remote_relay_control ctx now remote rid control p =
     (let p1 = ensure_relay ctx rid (relay_should_create control) p
      in if map_of (ps_relays p1) rid = None then Some p1
         else map_option (clear_relay rid) (with_relay rid (\<lambda>r. Some (relay_on_remote now remote control r)) p1))"

definition on_remote_source_hint_control :: "feature_ctx \<Rightarrow> time \<Rightarrow> net_pair \<Rightarrow> channel_id \<Rightarrow> source_hint \<Rightarrow> 'u pubsub \<Rightarrow> 'u pubsub run" where
  "on_remote_source_hint_control ctx now remote channel control p =
     (let p1 = ensure_hint ctx channel (hint_should_create control) p
      in if map_of (ps_hints p1) channel = None then Some p1
         else do {
           p2 \<leftarrow> with_hint channel (sh_on_remote now remote control) p1;
           p3 \<leftarrow> pop_single_source_hint ctx now channel p2;
           sh \<leftarrow> map_of (ps_hints p3) channel;
           Some (if sh_should_clear sh then p3\<lparr>ps_hints := hm_remove channel (ps_hints p3)\<rparr> else p3)
         })"

text \<open>The loops over all relays: a relay that is to be cleared is not ticked and removed.\<close>

fun tick_relays :: "time \<Rightarrow> (relay_id \<times> 'u relay) list \<Rightarrow> 'u ps_output list \<Rightarrow> ((relay_id \<times> 'u relay) list \<times> 'u ps_output list) run" where
  "tick_relays now [] queue = Some ([], queue)"
| "tick_relays now ((rid, r) # rs) queue =
     (if relay_should_clear r then tick_relays now rs queue
      else do {
        r1 \<leftarrow> relay_on_tick now r;
        let (r2, queue1) = pop_single_relay rid r1 queue;
        (rs', queue2) \<leftarrow> tick_relays now rs queue1;
        Some ((rid, r2) # rs', queue2)
      })"

fun disconnect_relays :: "time \<Rightarrow> net_pair \<Rightarrow> (relay_id \<times> 'u relay) list \<Rightarrow> 'u ps_output list \<Rightarrow> (relay_id \<times> 'u relay) list \<times> 'u ps_output list" where
  "disconnect_relays now pair [] queue = ([], queue)"
| "disconnect_relays now pair ((rid, r) # rs) queue =
     (let (r2, queue1) = pop_single_relay rid (relay_conn_disconnected now pair r) queue;
          (rs', queue2) = disconnect_relays now pair rs queue1
      in ((rid, r2) # rs', queue2))"

definition tick_hints :: "time \<Rightarrow> (channel_id \<times> 'u hints) list \<Rightarrow> (channel_id \<times> 'u hints) list" where
  "tick_hints now hs = map (\<lambda>(channel, sh). (channel, sh_on_tick now sh)) (filter (\<lambda>(_, sh). \<not> sh_should_clear sh) hs)"

definition ps_on_shared_input :: "feature_ctx \<Rightarrow> time \<Rightarrow> feature_shared_input \<Rightarrow> 'u pubsub \<Rightarrow> 'u pubsub run" where
  "ps_on_shared_input ctx now input p =
     (case input of
        Tick _ \<Rightarrow> do {
          (rs, queue) \<leftarrow> tick_relays now (ps_relays p) (ps_queue p);
          let hs = tick_hints now (ps_hints p);
          for_run (\<lambda>(channel, _). pop_single_source_hint ctx now channel) hs
            (p\<lparr>ps_relays := rs, ps_hints := hs, ps_queue := queue\<rparr>)
        }
      | Connection (Disconnected cx) \<Rightarrow>
          (let (rs, queue) = disconnect_relays now (cx_pair cx) (ps_relays p) (ps_queue p)
           in Some (p\<lparr>ps_relays := rs, ps_queue := queue\<rparr>))
      | Connection _ \<Rightarrow> Some p)"

definition ps_on_input :: "feature_ctx \<Rightarrow> time \<Rightarrow> ('u, ps_control, ps_to_controller) feature_input \<Rightarrow> 'u pubsub \<Rightarrow> 'u pubsub run" where
  "ps_on_input ctx now input p =
     (case input of
        FromWorker (PcRelayControl remote rid control) \<Rightarrow> on_remote_relay_control ctx now remote rid control p
      | FromWorker (PcSourceHint remote channel control) \<Rightarrow> on_remote_source_hint_control ctx now remote channel control p
      | Control actor (channel, control) \<Rightarrow> on_local ctx now actor channel control p
      | _ \<Rightarrow> None)"

definition ps_on_shutdown :: "'u pubsub \<Rightarrow> 'u pubsub" where
  "ps_on_shutdown p = p\<lparr>ps_shutdown := True\<rparr>"

definition ps_is_empty :: "'u pubsub \<Rightarrow> bool" where
  "ps_is_empty p \<longleftrightarrow> ps_shutdown p \<and> ps_queue p = []"

definition ps_pop_output :: "'u pubsub \<Rightarrow> 'u ps_output option \<times> 'u pubsub" where
  "ps_pop_output p = (case ps_queue p of [] \<Rightarrow> (None, p) | x # xs \<Rightarrow> (Some x, p\<lparr>ps_queue := xs\<rparr>))"

subsection \<open>The workers' entries\<close>

declare split_paired_All [simp del] split_paired_Ex [simp del]

type_synonym 'u entries = "relay_id \<Rightarrow> 'u worker_relay option"

definition ps_apply :: "'u ps_output \<Rightarrow> 'u entries \<Rightarrow> 'u entries" where
  "ps_apply out E =
     (case out of OutToWorker _ (PwRelayControl rid control) \<Rightarrow> E(rid := route_step control (E rid)) | _ \<Rightarrow> E)"

definition carried :: "'u entries \<Rightarrow> (relay_id \<rightharpoonup> 'u relay) \<Rightarrow> bool" where
  "carried E R \<longleftrightarrow> (\<forall>rid. case R rid of Some r \<Rightarrow> relay_carries (E rid) r | None \<Rightarrow> serves (E rid) co_default)"

definition relay_ok :: "feature_ctx \<Rightarrow> relay_id \<Rightarrow> 'u relay \<Rightarrow> bool" where
  "relay_ok ctx rid r \<longleftrightarrow> wf_relay r \<and> relay_pending r = [] \<and> (is_local_relay r \<longleftrightarrow> snd rid = fc_node ctx)"

definition ps_ok :: "feature_ctx \<Rightarrow> 'u pubsub \<Rightarrow> bool" where
  "ps_ok ctx p \<longleftrightarrow> wf_map (ps_relays p) \<and> wf_map (ps_hints p) \<and> (\<forall>(rid, r)\<in>set (ps_relays p). relay_ok ctx rid r)"

definition ps_rel :: "'u pubsub \<Rightarrow> 'u pubsub \<Rightarrow> bool" where
  "ps_rel p p' \<longleftrightarrow> (\<exists>outs. ps_queue p' = ps_queue p @ outs \<and>
     (\<forall>E. carried E (map_of (ps_relays p)) \<longrightarrow> carried (fold ps_apply outs E) (map_of (ps_relays p'))))"

lemma ps_rel_refl: "ps_rel p p"
  by (auto simp: ps_rel_def)

lemma ps_rel_trans:
  assumes "ps_rel p p'" "ps_rel p' p''"
  shows "ps_rel p p''"
proof -
  obtain xs where xs: "ps_queue p' = ps_queue p @ xs"
      "\<And>E. carried E (map_of (ps_relays p)) \<Longrightarrow> carried (fold ps_apply xs E) (map_of (ps_relays p'))"
    using assms(1) by (auto simp: ps_rel_def)
  obtain ys where ys: "ps_queue p'' = ps_queue p' @ ys"
      "\<And>E. carried E (map_of (ps_relays p')) \<Longrightarrow> carried (fold ps_apply ys E) (map_of (ps_relays p''))"
    using assms(2) by (auto simp: ps_rel_def)
  show ?thesis unfolding ps_rel_def using xs ys by (intro exI [of _ "xs @ ys"]) simp
qed

lemma fold_ps_apply_relay: "fold ps_apply (concat (map (relay_out rid) outs)) E = E(rid := fold out_step outs (E rid))"
proof (induction outs arbitrary: E)
  case (Cons out outs)
  have events: "fold ps_apply (map (\<lambda>actor. OutEvent actor ev) actors) E = E" for ev and actors :: "'a feature_actor list" and E
    by (induction actors) (simp_all add: ps_apply_def)
  have "fold ps_apply (relay_out rid out) E = E(rid := out_step out (E rid))"
    by (cases out) (simp_all add: relay_out_def events, simp_all add: ps_apply_def)
  then show ?case using Cons by (auto simp: fun_eq_iff)
qed simp

lemma carried_iff:
  "carried E R \<longleftrightarrow> (\<forall>rid r. R rid = Some r \<longrightarrow> relay_carries (E rid) r) \<and> (\<forall>rid. R rid = None \<longrightarrow> serves (E rid) co_default)"
  unfolding carried_def by (metis (no_types, lifting) option.case_eq_if option.collapse option.distinct(1) option.sel)

lemma pop_single_relay_run:
  "\<exists>r'. pop_single_relay rid r queue = (r', queue @ concat (map (relay_out rid) (relay_pending r))) \<and> relay_pending r' = [] \<and>
     wf_relay r' = wf_relay r \<and> is_local_relay r' = is_local_relay r \<and> (\<forall>e. relay_carries e r' = relay_carries e r)"
proof (induction "relay_pending r" arbitrary: r queue)
  case Nil
  then have "relay_pending r = []" by simp
  then show ?case using relay_pop_run(1) [of r] by (simp add: pop_single_relay.simps)
next
  case (Cons x xs)
  then have pend: "relay_pending r = x # xs" by simp
  obtain r1 where r1: "relay_pop_output r = (Some x, r1)" "relay_pending r1 = xs" "wf_relay r1 = wf_relay r"
      "is_local_relay r1 = is_local_relay r" "\<forall>e. relay_carries e r1 = relay_carries e r"
    using relay_pop_run(2) [OF pend] by blast
  have "pop_single_relay rid r queue = pop_single_relay rid r1 (queue @ relay_out rid x)"
    by (simp add: pop_single_relay.simps [of rid r] r1(1))
  then show ?case using Cons(1) [of r1 "queue @ relay_out rid x"] r1 pend by auto
qed

text \<open>What one call on one relay does.\<close>

lemma relay_turn:
  assumes "relay_ok ctx rid r" "relay_step r r1" "pop_single_relay rid r1 queue = (r2, queue')"
  shows "\<exists>outs. relay_ok ctx rid r2 \<and> queue' = queue @ outs \<and>
    (\<forall>E R. carried E R \<and> R rid = Some r \<longrightarrow> carried (fold ps_apply outs E) (R(rid \<mapsto> r2)))"
proof -
  obtain r' where r': "pop_single_relay rid r1 queue = (r', queue @ concat (map (relay_out rid) (relay_pending r1)))"
      "relay_pending r' = []" "wf_relay r' = wf_relay r1" "is_local_relay r' = is_local_relay r1"
      "\<And>e. relay_carries e r' = relay_carries e r1"
    using pop_single_relay_run [of rid r1 queue] by blast
  then have eq: "r2 = r'" "queue' = queue @ concat (map (relay_out rid) (relay_pending r1))" using assms(3) by auto
  have step: "is_local_relay r1 = is_local_relay r" "wf_relay r1"
      "\<And>e. relay_carries e r \<Longrightarrow> relay_carries (fold out_step (relay_pending r1) e) r1"
    using assms(1,2) by (auto simp: relay_ok_def relay_step_def)
  have "relay_ok ctx rid r2" using assms(1) r' step by (simp add: relay_ok_def eq)
  moreover have "carried (fold ps_apply (concat (map (relay_out rid) (relay_pending r1))) E) (R(rid \<mapsto> r2))"
    if "carried E R" "R rid = Some r" for E R
  proof -
    have "relay_carries (E rid) r" using that unfolding carried_iff by blast
    then show ?thesis
      using that(1) step(3) r'(5) by (auto simp: fold_ps_apply_relay carried_iff eq)
  qed
  ultimately show ?thesis using eq by blast
qed

subsection \<open>Handlers\<close>

text \<open>A handler that runs to its end on a good state, brings the workers along and keeps the set of source hints.\<close>

definition keeps :: "feature_ctx \<Rightarrow> 'u pubsub \<Rightarrow> 'u pubsub run \<Rightarrow> bool" where
  "keeps ctx p m \<longleftrightarrow> (ps_ok ctx p \<longrightarrow> (\<exists>p'. m = Some p' \<and> ps_ok ctx p' \<and> ps_rel p p' \<and> ps_hints p' = ps_hints p))"

definition good :: "feature_ctx \<Rightarrow> 'u pubsub \<Rightarrow> 'u pubsub run \<Rightarrow> bool" where
  "good ctx p m \<longleftrightarrow> (ps_ok ctx p \<longrightarrow> (\<exists>p'. m = Some p' \<and> ps_ok ctx p' \<and> ps_rel p p'))"

lemma keeps_good: "keeps ctx p m \<Longrightarrow> good ctx p m"
  by (auto simp: keeps_def good_def)

lemma good_Some: "good ctx p (Some p)" "keeps ctx p (Some p)"
  by (simp_all add: good_def keeps_def ps_rel_refl)

lemma good_bind:
  assumes "good ctx p m" "\<And>p'. m = Some p' \<Longrightarrow> good ctx p' (f p')"
  shows "good ctx p (Option.bind m f)"
  unfolding good_def
proof
  assume "ps_ok ctx p"
  then obtain p1 where 1: "m = Some p1" "ps_ok ctx p1" "ps_rel p p1" using assms(1) by (auto simp: good_def)
  then obtain p2 where "f p1 = Some p2" "ps_ok ctx p2" "ps_rel p1 p2" using assms(2) [OF 1(1)] by (auto simp: good_def)
  then show "\<exists>p'. Option.bind m f = Some p' \<and> ps_ok ctx p' \<and> ps_rel p p'" using 1 ps_rel_trans by auto
qed

lemma keeps_bind:
  assumes "keeps ctx p m" "\<And>p'. m = Some p' \<Longrightarrow> keeps ctx p' (f p')"
  shows "keeps ctx p (Option.bind m f)"
  unfolding keeps_def
proof
  assume "ps_ok ctx p"
  then obtain p1 where 1: "m = Some p1" "ps_ok ctx p1" "ps_rel p p1" "ps_hints p1 = ps_hints p"
    using assms(1) by (auto simp: keeps_def)
  then obtain p2 where "f p1 = Some p2" "ps_ok ctx p2" "ps_rel p1 p2" "ps_hints p2 = ps_hints p1"
    using assms(2) [OF 1(1)] by (auto simp: keeps_def)
  then show "\<exists>p'. Option.bind m f = Some p' \<and> ps_ok ctx p' \<and> ps_rel p p' \<and> ps_hints p' = ps_hints p"
    using 1 ps_rel_trans by auto
qed

lemma keeps_for: "(\<And>x p. keeps ctx p (f x p)) \<Longrightarrow> keeps ctx p (for_run f xs p)"
  by (induction xs arbitrary: p) (auto intro: keeps_bind good_Some)

lemma ps_ok_relay: "ps_ok ctx p \<Longrightarrow> map_of (ps_relays p) rid = Some r \<Longrightarrow> relay_ok ctx rid r"
  by (auto simp: ps_ok_def dest: map_of_SomeD)

lemma keeps_with_relay:
  assumes "map_of (ps_relays p) rid \<noteq> None"
    "\<And>r. relay_ok ctx rid r \<Longrightarrow> \<exists>r1. f r = Some r1 \<and> relay_step r r1"
  shows "keeps ctx p (with_relay rid f p)"
  unfolding keeps_def
proof
  assume ok: "ps_ok ctx p"
  obtain r where r: "map_of (ps_relays p) rid = Some r" using assms(1) by blast
  have rok: "relay_ok ctx rid r" by (rule ps_ok_relay [OF ok r])
  then obtain r1 where r1: "f r = Some r1" "relay_step r r1" using assms(2) by blast
  obtain r2 queue where r2: "pop_single_relay rid r1 (ps_queue p) = (r2, queue)" by fastforce
  obtain outs where outs: "relay_ok ctx rid r2" "queue = ps_queue p @ outs"
      "\<And>E R. carried E R \<Longrightarrow> R rid = Some r \<Longrightarrow> carried (fold ps_apply outs E) (R(rid \<mapsto> r2))"
    using relay_turn [OF rok r1(2) r2] by blast
  let ?p = "p\<lparr>ps_relays := hm_insert rid r2 (ps_relays p), ps_queue := queue\<rparr>"
  have "with_relay rid f p = Some ?p" by (simp add: with_relay_def r r1(1) r2)
  moreover have "ps_ok ctx ?p"
    using ok outs(1) by (auto simp: ps_ok_def wf_hm_insert dest: hm_update_set)
  moreover have "ps_rel p ?p" using outs r by (auto simp: ps_rel_def)
  ultimately show "\<exists>p'. with_relay rid f p = Some p' \<and> ps_ok ctx p' \<and> ps_rel p p' \<and> ps_hints p' = ps_hints p" by simp
qed

lemma keeps_ensure:
  assumes "\<And>p1. map_of (ps_relays p1) rid \<noteq> None \<or> \<not> create \<Longrightarrow> keeps ctx p1 (f p1)"
  shows "keeps ctx p (f (ensure_relay ctx rid create p))"
proof -
  let ?p = "ensure_relay ctx rid create p"
  have "relay_ok ctx rid (new_relay ctx rid)"
    by (auto simp: relay_ok_def new_relay_def lr_default_def re_new_def wf_state_def fa_default_def)
  then have ok: "ps_ok ctx ?p" if "ps_ok ctx p"
    using that by (auto simp: ps_ok_def ensure_relay_def hm_ensure_def wf_hm_insert dest: hm_update_set)
  have "relay_carries e (new_relay ctx rid)" if "serves e co_default" for e
    using that by (auto simp: new_relay_def lr_default_def re_new_def carries_def)
  then have "carried E (map_of (ps_relays ?p))" if "carried E (map_of (ps_relays p))" for E
    using that unfolding carried_iff ensure_relay_def by (auto simp: hm_get_ensure)
  then have "ps_rel p ?p" by (auto simp: ps_rel_def ensure_relay_def)
  then have "keeps ctx p (Some ?p)" using ok by (auto simp: keeps_def ensure_relay_def)
  moreover have "keeps ctx ?p (f ?p)"
    by (rule assms) (auto simp: ensure_relay_def hm_get_ensure)
  ultimately show ?thesis using keeps_bind [of ctx p "Some ?p" f] by simp
qed

lemma hm_remove_set: "x \<in> set (hm_remove k m) \<Longrightarrow> x \<in> set m"
  by (induction m) (auto split: if_splits)

lemma keeps_clear: "keeps ctx p (Some (clear_relay rid p))"
proof (cases "\<exists>r. map_of (ps_relays p) rid = Some r \<and> relay_should_clear r")
  case True
  then obtain r where r: "map_of (ps_relays p) rid = Some r" "relay_should_clear r" by blast
  let ?p = "p\<lparr>ps_relays := hm_remove rid (ps_relays p)\<rparr>"
  have "ps_ok ctx ?p" if "ps_ok ctx p"
    using that by (auto simp: ps_ok_def wf_hm_remove dest: hm_remove_set)
  moreover have "carried E (map_of (ps_relays ?p))" if "carried E (map_of (ps_relays p))" for E
    using that r relay_clear_carries [OF r(2)] unfolding carried_iff by auto
  ultimately have "keeps ctx p (Some ?p)" by (auto simp: keeps_def ps_rel_def)
  then show ?thesis using r by (simp add: clear_relay_def)
next
  case False
  then have "clear_relay rid p = p" by (auto simp: clear_relay_def split: option.splits)
  then show ?thesis by (simp add: good_Some)
qed

lemma keeps_map_clear: "keeps ctx p m \<Longrightarrow> keeps ctx p (map_option (clear_relay rid) m)"
  using keeps_bind [where f = "\<lambda>p. Some (clear_relay rid p)" and m = m, OF _ keeps_clear] by (cases m) simp_all

lemma keeps_push:
  assumes "\<And>out E. out \<in> set outs \<Longrightarrow> ps_apply out E = E"
  shows "keeps ctx p (Some (ps_push outs p))"
proof -
  have "fold ps_apply outs E = E" for E using assms by (induction outs arbitrary: E) auto
  then show ?thesis by (auto simp: keeps_def ps_push_def ps_ok_def ps_rel_def)
qed

lemma keeps_sub_source: "keeps ctx p (sub_source ctx actor channel source p)"
  unfolding sub_source_def
  by (rule keeps_ensure, rule keeps_with_relay) (auto intro: relay_step_local_sub)

lemma keeps_unsub_source: "keeps ctx p (unsub_source now actor channel source p)"
proof (cases "map_of (ps_relays p) (channel, source) = None")
  case False
  then have "keeps ctx p (with_relay (channel, source) (\<lambda>r. Some (relay_on_local_unsub now actor r)) p)"
    by (rule keeps_with_relay) (auto intro: relay_step_local_unsub)
  then show ?thesis using False by (auto simp: unsub_source_def keeps_map_clear)
qed (simp add: unsub_source_def good_Some)

lemma keeps_hint_output: "keeps ctx p (on_hint_output ctx now channel out p)"
proof (cases out)
  case (SendRemote dest control)
  then show ?thesis by (simp add: on_hint_output_def) (rule keeps_push, simp add: ps_apply_def)
qed (simp_all add: on_hint_output_def keeps_for keeps_sub_source keeps_unsub_source)

text \<open>Changes of the source hints alone.\<close>

lemma ps_rel_same: "ps_relays p' = ps_relays p \<Longrightarrow> ps_queue p' = ps_queue p \<Longrightarrow> ps_rel p p'"
  unfolding ps_rel_def by (intro exI [of _ "[]"]) simp

lemma good_hints:
  assumes "wf_map (ps_hints p) \<Longrightarrow> wf_map hs"
  shows "good ctx p (Some (p\<lparr>ps_hints := hs\<rparr>))"
proof -
  have "ps_ok ctx (p\<lparr>ps_hints := hs\<rparr>)" if "ps_ok ctx p" using that assms by (simp add: ps_ok_def)
  moreover have "ps_rel p (p\<lparr>ps_hints := hs\<rparr>)" by (rule ps_rel_same) simp_all
  ultimately show ?thesis by (simp add: good_def)
qed

lemma pop_single_source_hint_run:
  assumes "map_of (ps_hints p) channel = Some sh"
  shows "good ctx p (pop_single_source_hint ctx now channel p) \<and>
    (\<forall>p'. ps_ok ctx p \<and> pop_single_source_hint ctx now channel p = Some p' \<longrightarrow>
       ps_hints p' = hm_insert channel (sh\<lparr>sh_queue := []\<rparr>) (ps_hints p))"
  using assms
proof (induction "sh_queue sh" arbitrary: p sh)
  case Nil
  then have sh: "sh\<lparr>sh_queue := []\<rparr> = sh" and "sh_pop_output sh = (None, sh)" by (simp_all add: sh_pop_output_def)
  moreover have "hm_insert channel sh (ps_hints p) = ps_hints p"
    using Nil(2) by (rule update_triv)
  ultimately show ?case
    unfolding sh using Nil by (simp add: pop_single_source_hint.simps [of ctx now channel p] good_Some)
next
  case (Cons out outs)
  let ?sh = "sh\<lparr>sh_queue := outs\<rparr>"
  let ?p = "p\<lparr>ps_hints := hm_insert channel ?sh (ps_hints p)\<rparr>"
  have pop: "sh_pop_output sh = (Some out, ?sh)" using Cons(2) [symmetric] by (simp add: sh_pop_output_def)
  have eq: "pop_single_source_hint ctx now channel p =
      Option.bind (on_hint_output ctx now channel out ?p) (pop_single_source_hint ctx now channel)"
    by (simp add: pop_single_source_hint.simps [of ctx now channel p] Cons(3) pop)
  have hints: "good ctx p (Some ?p)" "ps_ok ctx p \<Longrightarrow> ps_ok ctx ?p"
    by (auto intro!: good_hints wf_hm_insert simp: ps_ok_def)
  have rest: "good ctx p1 (pop_single_source_hint ctx now channel p1) \<and>
      (\<forall>p'. ps_ok ctx p1 \<and> pop_single_source_hint ctx now channel p1 = Some p' \<longrightarrow>
         ps_hints p' = hm_insert channel (sh\<lparr>sh_queue := []\<rparr>) (ps_hints p))"
    if "ps_hints p1 = ps_hints ?p" for p1
    using Cons(1) [of ?sh p1] that by simp
  show ?case
    unfolding eq good_def
  proof (intro conjI impI allI)
    assume "ps_ok ctx p"
    then obtain p1 where p1: "on_hint_output ctx now channel out ?p = Some p1" "ps_ok ctx p1" "ps_rel ?p p1" "ps_hints p1 = ps_hints ?p"
      using keeps_hint_output [of ctx ?p now channel out] hints(2) by (auto simp: keeps_def)
    obtain p2 where p2: "pop_single_source_hint ctx now channel p1 = Some p2" "ps_ok ctx p2" "ps_rel p1 p2"
      using rest [OF p1(4)] p1(2) by (auto simp: good_def)
    have "ps_rel p ?p" using hints(1) \<open>ps_ok ctx p\<close> by (auto simp: good_def)
    from ps_rel_trans [OF this ps_rel_trans [OF p1(3) p2(3)]] p1(1) p2
    show "\<exists>p'. Option.bind (on_hint_output ctx now channel out ?p) (pop_single_source_hint ctx now channel) = Some p' \<and>
        ps_ok ctx p' \<and> ps_rel p p'" by simp
  next
    fix p'
    assume a: "ps_ok ctx p \<and> Option.bind (on_hint_output ctx now channel out ?p) (pop_single_source_hint ctx now channel) = Some p'"
    then obtain p1 where p1: "on_hint_output ctx now channel out ?p = Some p1" "ps_ok ctx p1" "ps_hints p1 = ps_hints ?p"
      using keeps_hint_output [of ctx ?p now channel out] hints(2) by (auto simp: keeps_def)
    then show "ps_hints p' = hm_insert channel (sh\<lparr>sh_queue := []\<rparr>) (ps_hints p)" using rest [OF p1(3)] a by simp
  qed
qed

lemma good_pop_hint: "map_of (ps_hints p) channel = Some sh \<Longrightarrow> good ctx p (pop_single_source_hint ctx now channel p)"
  using pop_single_source_hint_run by blast

lemma pop_hint_present:
  assumes "map_of (ps_hints p) channel = Some sh" "ps_ok ctx p" "pop_single_source_hint ctx now channel p = Some p'"
  shows "ps_hints p' = hm_insert channel (sh\<lparr>sh_queue := []\<rparr>) (ps_hints p)"
  using pop_single_source_hint_run [OF assms(1)] assms(2,3) by blast

lemma good_hint_turn:
  assumes "map_of (ps_hints p) channel \<noteq> None"
  shows "good ctx p (Option.bind (with_hint channel f p) (pop_single_source_hint ctx now channel))"
proof -
  obtain sh where sh: "map_of (ps_hints p) channel = Some sh" using assms by blast
  let ?p = "p\<lparr>ps_hints := hm_insert channel (f sh) (ps_hints p)\<rparr>"
  have w: "with_hint channel f p = Some ?p" by (simp add: with_hint_def sh)
  have "good ctx p (Some ?p)"
    by (intro good_hints wf_hm_insert)
  moreover have "good ctx ?p (pop_single_source_hint ctx now channel ?p)"
    by (rule good_pop_hint [where sh = "f sh"]) simp
  ultimately show ?thesis unfolding w using good_bind [of ctx p "Some ?p" "pop_single_source_hint ctx now channel"] by simp
qed

lemma good_ensure_hint:
  assumes "\<And>p1. map_of (ps_hints p1) channel \<noteq> None \<or> \<not> create \<Longrightarrow> good ctx p1 (f p1)"
  shows "good ctx p (f (ensure_hint ctx channel create p))"
proof -
  let ?p = "ensure_hint ctx channel create p"
  have "good ctx p (Some ?p)"
    unfolding ensure_hint_def by (intro good_hints wf_hm_ensure)
  moreover have "good ctx ?p (f ?p)"
    by (rule assms) (auto simp: ensure_hint_def hm_get_ensure)
  ultimately show ?thesis using good_bind [of ctx p "Some ?p" f] by simp
qed

lemma good_pub_start:
  "keeps ctx p (with_relay (channel, fc_node ctx) (relay_on_pub_start actor) (ensure_relay ctx (channel, fc_node ctx) True p))"
  by (rule keeps_ensure, rule keeps_with_relay) (auto simp: relay_ok_def intro: relay_publish_run)

lemma good_pub_stop:
  "keeps ctx p (if map_of (ps_relays p) (channel, fc_node ctx) = None then Some p
     else with_relay (channel, fc_node ctx) (relay_on_pub_stop actor) p)"
proof (cases "map_of (ps_relays p) (channel, fc_node ctx) = None")
  case False
  then have "keeps ctx p (with_relay (channel, fc_node ctx) (relay_on_pub_stop actor) p)"
    by (rule keeps_with_relay) (auto simp: relay_ok_def intro: relay_publish_run)
  then show ?thesis using False by auto
qed (simp add: good_Some)

lemma good_pub_data: "good ctx p (Some (pub_data ctx channel data p))"
  unfolding pub_data_def Let_def
  by (auto split: option.split intro!: good_Some keeps_good [OF keeps_push]) (auto simp: ps_apply_def split: if_splits)

lemma good_on_local: "good ctx p (on_local ctx now actor channel control p)"
proof (cases control)
  case SubAuto
  show ?thesis unfolding SubAuto on_local.simps
    by (rule good_ensure_hint [where f = "\<lambda>p. Option.bind (with_hint channel (sh_on_local actor LcSubscribe) p)
        (pop_single_source_hint ctx now channel)"]) (auto intro: good_hint_turn)
next
  case UnsubAuto
  show ?thesis unfolding UnsubAuto on_local.simps by (auto intro: good_Some good_hint_turn)
next
  case PubStart
  have "good ctx p1 (Option.bind (with_hint channel (sh_on_local actor LcRegister) (ensure_hint ctx channel True p1))
      (pop_single_source_hint ctx now channel))" for p1
    by (rule good_ensure_hint [where f = "\<lambda>p. Option.bind (with_hint channel (sh_on_local actor LcRegister) p)
        (pop_single_source_hint ctx now channel)"]) (auto intro: good_hint_turn)
  then show ?thesis unfolding PubStart on_local.simps by (rule good_bind [OF keeps_good [OF good_pub_start]])
next
  case PubStop
  have "good ctx p1 (if map_of (ps_hints p1) channel = None then Some p1
      else Option.bind (with_hint channel (sh_on_local actor LcUnregister) p1) (pop_single_source_hint ctx now channel))" for p1
    by (auto intro: good_Some good_hint_turn)
  then show ?thesis unfolding PubStop on_local.simps by (rule good_bind [OF keeps_good [OF good_pub_stop]])
next
  case (FeedbackAuto fb)
  have "keeps ctx p (with_relay (channel, source) (\<lambda>r. Some (relay_on_local_feedback now actor fb r))
      (ensure_relay ctx (channel, source) True p))" for source p
    by (rule keeps_ensure, rule keeps_with_relay) (auto intro: relay_step_local_feedback)
  then show ?thesis
    by (auto simp: FeedbackAuto good_Some split: option.split intro!: keeps_good [OF keeps_for])
qed (simp_all add: keeps_good keeps_sub_source keeps_unsub_source good_pub_data)

lemma good_relay_control: "good ctx p (on_remote_relay_control ctx now remote rid control p)"
proof -
  have "keeps ctx p1 (if map_of (ps_relays p1) rid = None then Some p1
      else map_option (clear_relay rid) (with_relay rid (\<lambda>r. Some (relay_on_remote now remote control r)) p1))" for p1
    by (auto intro!: good_Some keeps_map_clear keeps_with_relay relay_step_control)
  then show ?thesis unfolding on_remote_relay_control_def Let_def
    by (intro keeps_good keeps_ensure [where f = "\<lambda>p1. if map_of (ps_relays p1) rid = None then Some p1
      else map_option (clear_relay rid) (with_relay rid (\<lambda>r. Some (relay_on_remote now remote control r)) p1)"])
qed

lemma good_hint_control: "good ctx p (on_remote_source_hint_control ctx now remote channel control p)"
proof -
  have "good ctx p1 (if map_of (ps_hints p1) channel = None then Some p1
      else do {
        p2 \<leftarrow> with_hint channel (sh_on_remote now remote control) p1;
        p3 \<leftarrow> pop_single_source_hint ctx now channel p2;
        sh \<leftarrow> map_of (ps_hints p3) channel;
        Some (if sh_should_clear sh then p3\<lparr>ps_hints := hm_remove channel (ps_hints p3)\<rparr> else p3)
      })" (is "good ctx p1 (?body p1)") for p1
  proof (cases "map_of (ps_hints p1) channel")
    case None
    then show ?thesis by (simp add: good_Some)
  next
    case (Some sh)
    let ?sh = "sh_on_remote now remote control sh"
    let ?p = "p1\<lparr>ps_hints := hm_insert channel ?sh (ps_hints p1)\<rparr>"
    have w: "with_hint channel (sh_on_remote now remote control) p1 = Some ?p" by (simp add: with_hint_def Some)
    have p2: "good ctx p1 (Some ?p)" by (intro good_hints wf_hm_insert)
    have tail: "good ctx p3 (Option.bind (map_of (ps_hints p3) channel)
        (\<lambda>sh. Some (if sh_should_clear sh then p3\<lparr>ps_hints := hm_remove channel (ps_hints p3)\<rparr> else p3)))"
      if "map_of (ps_hints p3) channel \<noteq> None" for p3
      using that by (auto intro!: good_hints good_Some wf_hm_remove)
    have "good ctx ?p (Option.bind (pop_single_source_hint ctx now channel ?p) (\<lambda>p3. Option.bind (map_of (ps_hints p3) channel)
        (\<lambda>sh. Some (if sh_should_clear sh then p3\<lparr>ps_hints := hm_remove channel (ps_hints p3)\<rparr> else p3))))"
      unfolding good_def
    proof
      assume ok: "ps_ok ctx ?p"
      have sh: "map_of (ps_hints ?p) channel = Some ?sh" by simp
      obtain p3 where p3: "pop_single_source_hint ctx now channel ?p = Some p3" "ps_ok ctx p3" "ps_rel ?p p3"
        using good_pop_hint [OF sh, of ctx now] ok unfolding good_def by blast
      have "map_of (ps_hints p3) channel \<noteq> None" unfolding pop_hint_present [OF sh ok p3(1)] by simp
      note p3 = p3 this
      obtain p4 where "Option.bind (map_of (ps_hints p3) channel)
          (\<lambda>sh. Some (if sh_should_clear sh then p3\<lparr>ps_hints := hm_remove channel (ps_hints p3)\<rparr> else p3)) = Some p4"
          "ps_ok ctx p4" "ps_rel p3 p4"
        using tail [OF p3(4)] p3(2) unfolding good_def by blast
      then show "\<exists>p'. Option.bind (pop_single_source_hint ctx now channel ?p) (\<lambda>p3. Option.bind (map_of (ps_hints p3) channel)
          (\<lambda>sh. Some (if sh_should_clear sh then p3\<lparr>ps_hints := hm_remove channel (ps_hints p3)\<rparr> else p3))) = Some p' \<and>
          ps_ok ctx p' \<and> ps_rel ?p p'"
        using p3(1) ps_rel_trans [OF p3(3)] by (metis Option.bind.bind_lunit)
    qed
    from good_bind [OF p2, of "\<lambda>p2. Option.bind (pop_single_source_hint ctx now channel p2) (\<lambda>p3. Option.bind (map_of (ps_hints p3) channel)
        (\<lambda>sh. Some (if sh_should_clear sh then p3\<lparr>ps_hints := hm_remove channel (ps_hints p3)\<rparr> else p3)))"] this
    show ?thesis by (simp add: Some w)
  qed
  then show ?thesis unfolding on_remote_source_hint_control_def Let_def by (rule good_ensure_hint)
qed

subsection \<open>Loops over all relays\<close>

text \<open>The map after a loop over the entries \<open>rs\<close> that turned them into \<open>rs'\<close>.\<close>

definition after :: "(relay_id \<times> 'u relay) list \<Rightarrow> (relay_id \<times> 'u relay) list \<Rightarrow> (relay_id \<rightharpoonup> 'u relay) \<Rightarrow> relay_id \<rightharpoonup> 'u relay" where
  "after rs rs' R = (\<lambda>k. if k \<in> fst ` set rs then map_of rs' k else R k)"

definition relays_turn :: "feature_ctx \<Rightarrow> (relay_id \<times> 'u relay) list \<Rightarrow> (relay_id \<times> 'u relay) list \<Rightarrow> 'u ps_output list \<Rightarrow> bool" where
  "relays_turn ctx rs rs' outs \<longleftrightarrow> wf_map rs' \<and> fst ` set rs' \<subseteq> fst ` set rs \<and> (\<forall>(rid, r)\<in>set rs'. relay_ok ctx rid r) \<and>
     (\<forall>E R. carried E R \<and> (\<forall>(rid, r)\<in>set rs. R rid = Some r) \<longrightarrow> carried (fold ps_apply outs E) (after rs rs' R))"

lemma relays_turn_Nil: "relays_turn ctx [] [] []"
  by (simp add: relays_turn_def after_def)

lemma relays_turn_Cons:
  assumes "relays_turn ctx rs rs' outs" "rid \<notin> fst ` set rs" "relay_ok ctx rid r2"
    "\<And>E R. carried E R \<Longrightarrow> R rid = Some r \<Longrightarrow> carried (fold ps_apply outs1 E) (R(rid \<mapsto> r2))"
  shows "relays_turn ctx ((rid, r) # rs) ((rid, r2) # rs') (outs1 @ outs)"
proof -
  have "carried (fold ps_apply (outs1 @ outs) E) (after ((rid, r) # rs) ((rid, r2) # rs') R)"
    if "carried E R" "\<forall>(k, v)\<in>set ((rid, r) # rs). R k = Some v" for E R
  proof -
    have others: "R k = Some v \<and> k \<noteq> rid" if "(k, v) \<in> set rs" for k v
      using that \<open>\<forall>(k, v)\<in>set ((rid, r) # rs). R k = Some v\<close> assms(2) by force
    have "carried (fold ps_apply outs1 E) (R(rid \<mapsto> r2))" using assms(4) [OF that(1)] that(2) by simp
    moreover have "\<forall>(k, v)\<in>set rs. (R(rid \<mapsto> r2)) k = Some v" by (auto dest: others)
    ultimately have "carried (fold ps_apply outs (fold ps_apply outs1 E)) (after rs rs' (R(rid \<mapsto> r2)))"
      using assms(1) unfolding relays_turn_def by blast
    moreover have "after rs rs' (R(rid \<mapsto> r2)) = after ((rid, r) # rs) ((rid, r2) # rs') R"
      using assms(2) by (auto simp: after_def fun_eq_iff)
    ultimately show ?thesis by simp
  qed
  then show ?thesis using assms(1-3) by (auto simp: relays_turn_def)
qed

lemma relays_turn_drop:
  assumes "relays_turn ctx rs rs' outs" "rid \<notin> fst ` set rs" "relay_should_clear r"
  shows "relays_turn ctx ((rid, r) # rs) rs' outs"
proof -
  have "carried (fold ps_apply outs E) (after ((rid, r) # rs) rs' R)"
    if "carried E R" "\<forall>(k, v)\<in>set ((rid, r) # rs). R k = Some v" for E R
  proof -
    have others: "R k = Some v \<and> k \<noteq> rid" if "(k, v) \<in> set rs" for k v
      using that \<open>\<forall>(k, v)\<in>set ((rid, r) # rs). R k = Some v\<close> assms(2) by force
    have "carried E (R(rid := None))"
      using that relay_clear_carries [OF assms(3)] unfolding carried_iff by auto
    moreover have "\<forall>(k, v)\<in>set rs. (R(rid := None)) k = Some v" by (auto dest: others)
    ultimately have "carried (fold ps_apply outs E) (after rs rs' (R(rid := None)))"
      using assms(1) unfolding relays_turn_def by blast
    moreover have "rid \<notin> fst ` set rs'" using assms(1,2) by (auto simp: relays_turn_def)
    then have "after rs rs' (R(rid := None)) = after ((rid, r) # rs) rs' R"
      using assms(2) map_of_eq_None_iff [of rs' rid] by (auto simp: after_def fun_eq_iff)
    ultimately show ?thesis by simp
  qed
  then show ?thesis using assms(1) by (auto simp: relays_turn_def)
qed

lemma tick_relays_run:
  assumes "wf_map rs" "\<forall>(rid, r)\<in>set rs. relay_ok ctx rid r"
  shows "\<exists>rs' outs. tick_relays now rs queue = Some (rs', queue @ outs) \<and> relays_turn ctx rs rs' outs"
  using assms
proof (induction rs arbitrary: queue)
  case Nil
  show ?case using relays_turn_Nil by (intro exI [of _ "[]"]) simp
next
  case (Cons x rs)
  obtain rid r where x: "x = (rid, r)" by (cases x)
  have new: "rid \<notin> fst ` set rs" and rok: "relay_ok ctx rid r" using Cons.prems by (auto simp: x)
  have IH: "\<exists>rs' outs. tick_relays now rs queue = Some (rs', queue @ outs) \<and> relays_turn ctx rs rs' outs" for queue
    by (rule Cons.IH) (use Cons.prems in auto)
  show ?case
  proof (cases "relay_should_clear r")
    case True
    obtain rs' outs where "tick_relays now rs queue = Some (rs', queue @ outs)" "relays_turn ctx rs rs' outs" using IH by blast
    then show ?thesis using relays_turn_drop [OF _ new True] True by (auto simp: x)
  next
    case False
    obtain r1 where r1: "relay_on_tick now r = Some r1" "relay_step r r1" using relay_tick_run by blast
    obtain r2 queue1 where r2: "pop_single_relay rid r1 queue = (r2, queue1)" by fastforce
    obtain outs1 where 1: "relay_ok ctx rid r2" "queue1 = queue @ outs1"
        "\<And>E R. carried E R \<Longrightarrow> R rid = Some r \<Longrightarrow> carried (fold ps_apply outs1 E) (R(rid \<mapsto> r2))"
      using relay_turn [OF rok r1(2) r2] by blast
    obtain rs' outs where "tick_relays now rs queue1 = Some (rs', queue1 @ outs)" "relays_turn ctx rs rs' outs" using IH by blast
    then show ?thesis
      using relays_turn_Cons [OF _ new 1(1,3), of rs' outs] False r1(1) r2 1(2) by (auto simp: x)
  qed
qed

lemma disconnect_relays_run:
  assumes "wf_map rs" "\<forall>(rid, r)\<in>set rs. relay_ok ctx rid r"
  shows "\<exists>rs' outs. disconnect_relays now pair rs queue = (rs', queue @ outs) \<and> relays_turn ctx rs rs' outs"
  using assms
proof (induction rs arbitrary: queue)
  case Nil
  show ?case using relays_turn_Nil by (intro exI [of _ "[]"]) simp
next
  case (Cons x rs)
  obtain rid r where x: "x = (rid, r)" by (cases x)
  have new: "rid \<notin> fst ` set rs" and rok: "relay_ok ctx rid r" using Cons.prems by (auto simp: x)
  obtain r2 queue1 where r2: "pop_single_relay rid (relay_conn_disconnected now pair r) queue = (r2, queue1)" by fastforce
  obtain outs1 where 1: "relay_ok ctx rid r2" "queue1 = queue @ outs1"
      "\<And>E R. carried E R \<Longrightarrow> R rid = Some r \<Longrightarrow> carried (fold ps_apply outs1 E) (R(rid \<mapsto> r2))"
    using relay_turn [OF rok relay_step_disconnected r2] by blast
  obtain rs' outs where "disconnect_relays now pair rs queue1 = (rs', queue1 @ outs)" "relays_turn ctx rs rs' outs"
    using Cons.IH [of queue1] Cons.prems by auto
  then show ?case
    using relays_turn_Cons [OF _ new 1(1,3), of rs' outs] r2 1(2) by (auto simp: x)
qed

lemma ps_ok_relays_turn:
  assumes "relays_turn ctx (ps_relays p) rs' outs" "ps_ok ctx p"
  shows "ps_rel p (p\<lparr>ps_relays := rs', ps_queue := ps_queue p @ outs\<rparr>)"
    "ps_ok ctx (p\<lparr>ps_relays := rs', ps_queue := ps_queue p @ outs\<rparr>)"
proof -
  let ?rs = "ps_relays p"
  have keys: "after ?rs rs' (map_of ?rs) = map_of rs'"
  proof
    fix k
    have "map_of ?rs k = map_of rs' k" if "k \<notin> fst ` set ?rs"
      using that assms map_of_eq_None_iff [of ?rs k] map_of_eq_None_iff [of rs' k] by (auto simp: relays_turn_def)
    then show "after ?rs rs' (map_of ?rs) k = map_of rs' k" by (simp add: after_def)
  qed
  have "\<forall>(rid, r)\<in>set ?rs. map_of ?rs rid = Some r" using assms(2) by (auto simp: ps_ok_def)
  then have "carried (fold ps_apply outs E) (map_of rs')" if "carried E (map_of ?rs)" for E
    using assms(1) that keys unfolding relays_turn_def by metis
  then show "ps_rel p (p\<lparr>ps_relays := rs', ps_queue := ps_queue p @ outs\<rparr>)" by (auto simp: ps_rel_def)
  show "ps_ok ctx (p\<lparr>ps_relays := rs', ps_queue := ps_queue p @ outs\<rparr>)"
    using assms by (simp add: relays_turn_def ps_ok_def)
qed

lemma good_pop_hints:
  "\<forall>c\<in>set cs. map_of (ps_hints p) (fst c) \<noteq> None \<Longrightarrow> good ctx p (for_run (\<lambda>(channel, _). pop_single_source_hint ctx now channel) cs p)"
proof (induction cs arbitrary: p)
  case (Cons c cs)
  obtain channel h where c: "c = (channel, h)" by (cases c)
  obtain sh where sh: "map_of (ps_hints p) channel = Some sh" using Cons.prems by (auto simp: c)
  show ?case
    unfolding good_def
  proof
    assume ok: "ps_ok ctx p"
    obtain p1 where p1: "pop_single_source_hint ctx now channel p = Some p1" "ps_ok ctx p1" "ps_rel p p1"
      using good_pop_hint [OF sh, of ctx now] ok unfolding good_def by blast
    have "\<forall>c\<in>set cs. map_of (ps_hints p1) (fst c) \<noteq> None"
      unfolding pop_hint_present [OF sh ok p1(1)] using Cons.prems by simp
    from Cons.IH [OF this] p1(2) obtain p2 where
      "for_run (\<lambda>(channel, _). pop_single_source_hint ctx now channel) cs p1 = Some p2" "ps_ok ctx p2" "ps_rel p1 p2"
      unfolding good_def by blast
    then show "\<exists>p'. for_run (\<lambda>(channel, _). pop_single_source_hint ctx now channel) (c # cs) p = Some p' \<and> ps_ok ctx p' \<and> ps_rel p p'"
      using p1 ps_rel_trans by (auto simp: c)
  qed
qed (simp add: good_Some)

lemma good_shared: "good ctx p (ps_on_shared_input ctx now input p)"
proof (cases input)
  case (Tick n)
  show ?thesis
    unfolding good_def
  proof
    assume ok: "ps_ok ctx p"
    then have wf: "wf_map (ps_relays p)" "\<forall>(rid, r)\<in>set (ps_relays p). relay_ok ctx rid r" "wf_map (ps_hints p)"
      by (simp_all add: ps_ok_def)
    obtain rs outs where t: "tick_relays now (ps_relays p) (ps_queue p) = Some (rs, ps_queue p @ outs)" "relays_turn ctx (ps_relays p) rs outs"
      using tick_relays_run [OF wf(1,2)] by blast
    let ?hs = "tick_hints now (ps_hints p)"
    let ?p1 = "p\<lparr>ps_relays := rs, ps_queue := ps_queue p @ outs\<rparr>"
    let ?p2 = "p\<lparr>ps_relays := rs, ps_hints := ?hs, ps_queue := ps_queue p @ outs\<rparr>"
    have "map fst ?hs = map fst (filter (\<lambda>(_, sh). \<not> sh_should_clear sh) (ps_hints p))" by (simp add: tick_hints_def split_beta comp_def)
    then have "wf_map ?hs" using wf(3) by (simp add: wf_hm_filter)
    then have ok2: "ps_ok ctx ?p2" using ps_ok_relays_turn(2) [OF t(2) ok] by (simp add: ps_ok_def)
    have rel1: "ps_rel p ?p1" by (rule ps_ok_relays_turn(1) [OF t(2) ok])
    have rel2: "ps_rel ?p1 ?p2" by (rule ps_rel_same) simp_all
    have "\<forall>c\<in>set ?hs. map_of (ps_hints ?p2) (fst c) \<noteq> None" by (auto simp: map_of_eq_None_iff)
    from good_pop_hints [OF this, of ctx now] ok2 obtain p' where
      "for_run (\<lambda>(channel, _). pop_single_source_hint ctx now channel) ?hs ?p2 = Some p'" "ps_ok ctx p'" "ps_rel ?p2 p'"
      unfolding good_def by blast
    then show "\<exists>p'. ps_on_shared_input ctx now input p = Some p' \<and> ps_ok ctx p' \<and> ps_rel p p'"
      using ps_rel_trans [OF ps_rel_trans [OF rel1 rel2]] by (simp add: Tick ps_on_shared_input_def t(1))
  qed
next
  case (Connection ev)
  show ?thesis
  proof (cases ev)
    case (Disconnected cx)
    show ?thesis
      unfolding good_def
    proof
      assume ok: "ps_ok ctx p"
      then obtain rs outs where "disconnect_relays now (cx_pair cx) (ps_relays p) (ps_queue p) = (rs, ps_queue p @ outs)"
          "relays_turn ctx (ps_relays p) rs outs"
        using disconnect_relays_run by (metis ps_ok_def)
      then show "\<exists>p'. ps_on_shared_input ctx now input p = Some p' \<and> ps_ok ctx p' \<and> ps_rel p p'"
        using ps_ok_relays_turn [of ctx p rs outs] ok by (simp add: Connection Disconnected ps_on_shared_input_def)
    qed
  qed (simp_all add: Connection ps_on_shared_input_def good_Some)
qed

subsection \<open>The feature as a whole\<close>

text \<open>The inputs the controller plane gives to the feature; it forwards no network message to it.\<close>

datatype 'u ps_input =
    PiShared time feature_shared_input
  | PiWorker time ps_to_controller
  | PiControl time "'u feature_actor" ps_control
  | PiShutdown

fun ps_step :: "feature_ctx \<Rightarrow> 'u ps_input \<Rightarrow> 'u pubsub \<Rightarrow> 'u pubsub run" where
  "ps_step ctx (PiShared now input) p = ps_on_shared_input ctx now input p"
| "ps_step ctx (PiWorker now input) p = ps_on_input ctx now (FromWorker input) p"
| "ps_step ctx (PiControl now actor control) p = ps_on_input ctx now (Control actor control) p"
| "ps_step ctx PiShutdown p = Some (ps_on_shutdown p)"

lemma good_step: "good ctx p (ps_step ctx i p)"
proof (cases i)
  case (PiWorker now input)
  then show ?thesis by (cases input) (simp_all add: ps_on_input_def good_relay_control good_hint_control)
next
  case (PiControl now actor control)
  then show ?thesis by (cases control) (simp add: ps_on_input_def good_on_local)
next
  case PiShutdown
  have "ps_rel p (ps_on_shutdown p)" by (rule ps_rel_same) (simp_all add: ps_on_shutdown_def)
  then show ?thesis by (simp add: PiShutdown good_def ps_on_shutdown_def ps_ok_def)
qed (simp add: good_shared)

interpretation pubsub: run_relation "ps_step ctx" "ps_ok ctx" ps_rel for ctx
proof unfold_locales
  fix p :: "'a pubsub" and i
  show "\<exists>p'. ps_step ctx i p = Some p' \<and> ps_ok ctx p'" if "ps_ok ctx p" using good_step that unfolding good_def by blast
  show "ps_rel p t" if "ps_ok ctx p" "ps_step ctx i p = Some t" for t using good_step [of ctx p i] that by (auto simp: good_def)
qed (auto intro: ps_rel_refl ps_rel_trans)

lemma ps_new_ok [wf_intros]: "ps_ok ctx ps_new"
  by (simp add: ps_ok_def ps_new_def)

text \<open>
  C30. The feature neither panics nor loops, and its relays have the right type. Whatever applications, neighbours, clock and
  connections do, every handler returns; a relay for a channel of the node itself is a \<^verbatim>\<open>LocalRelay\<close> and every other one a
  \<^verbatim>\<open>RemoteRelay\<close>, so that a publisher never reaches the methods of \<^verbatim>\<open>RemoteRelay\<close> that panic.
\<close>

theorem pubsub_relays_typed:
  "\<exists>p. for_run (ps_step ctx) ins ps_new = Some p \<and> list_all (\<lambda>(rid, r). is_local_relay r \<longleftrightarrow> snd rid = fc_node ctx) (ps_relays p)"
proof -
  obtain p where "for_run (ps_step ctx) ins ps_new = Some p" "ps_ok ctx p"
    using pubsub.run_ok [OF ps_new_ok] by blast
  then show ?thesis by (auto simp: ps_ok_def relay_ok_def list_all_iff)
qed

end
