(* ===== verification/Pubsub_Worker.thy ===== *)
theory Pubsub_Worker
  imports Pubsub_Feature Shadow_Router
begin

text \<open>
  The worker half of the publish/subscribe feature (\<^verbatim>\<open>packages/network/src/features/pubsub/worker.rs\<close>): it keeps a route entry per
  relay, forwards data along it, and turns the controller's controls into packets.

  The theorems compose controller and worker: the entries of a worker that has taken all controls are the relays of the
  controller, and published data reaches a subscriber on another node.
\<close>

type_synonym 'u psw_output = "('u, ps_control, ps_event, ps_to_controller) feature_worker_output"

record 'u ps_worker =
  pw_relays :: "(relay_id \<times> 'u worker_relay) list"
  pw_queue :: "'u psw_output list"
  pw_shutdown :: bool

definition psw_default :: "'u ps_worker" where
  "psw_default = \<lparr>pw_relays = [], pw_queue = [], pw_shutdown = False\<rparr>"

definition psw_push :: "'u psw_output list \<Rightarrow> 'u ps_worker \<Rightarrow> 'u ps_worker" where
  "psw_push outs w = w\<lparr>pw_queue := pw_queue w @ outs\<rparr>"

text \<open>Data along an entry: an event for every local consumer and one broadcast to the remote ones.\<close>

definition psw_relay_data :: "(pubsub_message \<Rightarrow> bytes) \<Rightarrow> relay_id \<Rightarrow> bytes \<Rightarrow> 'u worker_relay \<Rightarrow> 'u ps_worker \<Rightarrow> 'u ps_worker run" where
  "psw_relay_data ser rid data relay w =
     (let w1 = psw_push (map (\<lambda>actor. WEvent actor (fst rid, EvSourceData (snd rid) data)) (wr_locals relay)) w
      in if wr_remotes relay \<noteq> []
         then do { buf \<leftarrow> pubsub_into_buffer ser (PsData rid data); Some (psw_push [WRawBroadcast2 (wr_remotes relay) buf] w1) }
         else Some w1)"

definition psw_on_network_raw :: "(pubsub_message \<Rightarrow> bytes) \<Rightarrow> (bytes \<Rightarrow> pubsub_message option) \<Rightarrow> net_pair \<Rightarrow> bytes \<Rightarrow>
    'u ps_worker \<Rightarrow> 'u ps_worker run" where
  "psw_on_network_raw ser de remote buf w =
     do {
       parsed \<leftarrow> pubsub_try_from de buf;
       (case parsed of
          Inl _ \<Rightarrow> Some w
        | Inr (PsControl rid control) \<Rightarrow> Some (psw_push [WToController (PcRelayControl remote rid control)] w)
        | Inr (PsSourceHint channel control) \<Rightarrow> Some (psw_push [WToController (PcSourceHint remote channel control)] w)
        | Inr (PsData rid data) \<Rightarrow>
            (case map_of (pw_relays w) rid of
               None \<Rightarrow> Some w
             | Some relay \<Rightarrow> if wr_source relay = Some remote then psw_relay_data ser rid data relay w else Some w))
     }"

definition psw_send :: "(pubsub_message \<Rightarrow> bytes) \<Rightarrow> net_pair \<Rightarrow> pubsub_message \<Rightarrow> 'u ps_worker \<Rightarrow> 'u ps_worker run" where
  "psw_send ser dest m w = do { buf \<leftarrow> pubsub_into_buffer ser m; Some (psw_push [WRawDirect2 dest buf] w) }"

text \<open>Writing an entry back into the hash map.\<close>

definition hm_put :: "'k \<Rightarrow> 'v option \<Rightarrow> ('k \<times> 'v) list \<Rightarrow> ('k \<times> 'v) list" where
  "hm_put k e m = (case e of Some v \<Rightarrow> hm_insert k v m | None \<Rightarrow> hm_remove k m)"

fun psw_relay_control :: "(pubsub_message \<Rightarrow> bytes) \<Rightarrow> net_pair shadow_router \<Rightarrow> relay_id \<Rightarrow> 'u relay_worker_control \<Rightarrow>
    'u ps_worker \<Rightarrow> 'u ps_worker run" where
  "psw_relay_control ser router rid (SendSub uuid remote) w =
     (case remote of
        Some dest \<Rightarrow> psw_send ser dest (PsControl rid (RcSub uuid)) w
      | None \<Rightarrow> do {
          nxt \<leftarrow> sr_next router (snd rid);
          (case nxt of
             Some dest \<Rightarrow> psw_send ser dest (PsControl rid (RcSub uuid)) w
           | None \<Rightarrow> Some w)
        })"
| "psw_relay_control ser router rid (SendFeedback fb remote) w = psw_send ser remote (PsControl rid (RcFeedback fb)) w"
| "psw_relay_control ser router rid (SendUnsub uuid remote) w = psw_send ser remote (PsControl rid (RcUnsub uuid)) w"
| "psw_relay_control ser router rid (SendSubOk uuid remote) w = psw_send ser remote (PsControl rid (RcSubOk uuid)) w"
| "psw_relay_control ser router rid (SendUnsubOk uuid remote) w = psw_send ser remote (PsControl rid (RcUnsubOk uuid)) w"
| "psw_relay_control ser router rid SendRouteChanged w =
     (case map_of (pw_relays w) rid of
        None \<Rightarrow> Some w
      | Some relay \<Rightarrow> for_run (\<lambda>(addr, uuid). psw_send ser addr (PsControl rid (RcRouteChanged uuid))) (wr_remotes_uuid relay) w)"
| "psw_relay_control ser router rid control w =
     Some (w\<lparr>pw_relays := hm_put rid (route_step control (map_of (pw_relays w) rid)) (pw_relays w)\<rparr>)"

definition psw_on_input :: "(pubsub_message \<Rightarrow> bytes) \<Rightarrow> node_id \<Rightarrow> net_pair shadow_router \<Rightarrow>
    ('u, ps_control, 'u ps_to_worker) feature_worker_input \<Rightarrow> 'u ps_worker \<Rightarrow> 'u ps_worker run" where
  "psw_on_input ser n router input w =
     (case input of
        WFromController _ (PwRelayControl rid control) \<Rightarrow> psw_relay_control ser router rid control w
      | WFromController _ (PwSourceHint channel remote data) \<Rightarrow>
          (case remote of
             Some dest \<Rightarrow> psw_send ser dest (PsSourceHint channel data) w
           | None \<Rightarrow> do {
               action \<leftarrow> sr_path_to_key router (ucast channel);
               (case action of
                  Next dest \<Rightarrow> psw_send ser dest (PsSourceHint channel data) w
                | _ \<Rightarrow> Some w)
             })
      | WFromController _ (PwRelayData rid data) \<Rightarrow>
          (case map_of (pw_relays w) rid of
             None \<Rightarrow> Some w
           | Some relay \<Rightarrow>
               if wr_remotes relay = [] then Some w
               else do { buf \<leftarrow> pubsub_into_buffer ser (PsData rid data); Some (psw_push [WRawBroadcast2 (wr_remotes relay) buf] w) })
      | WControl actor (channel, PubData data) \<Rightarrow>
          (case map_of (pw_relays w) (channel, n) of
             None \<Rightarrow> Some w
           | Some relay \<Rightarrow> psw_relay_data ser (channel, n) data relay w)
      | WControl actor control \<Rightarrow> Some (psw_push [WForwardControl actor control] w)
      | _ \<Rightarrow> Some w)"

definition psw_on_shutdown :: "'u ps_worker \<Rightarrow> 'u ps_worker" where
  "psw_on_shutdown w = w\<lparr>pw_shutdown := True\<rparr>"

definition psw_is_empty :: "'u ps_worker \<Rightarrow> bool" where
  "psw_is_empty w \<longleftrightarrow> pw_shutdown w \<and> pw_queue w = []"

definition psw_pop_output :: "'u ps_worker \<Rightarrow> 'u psw_output option \<times> 'u ps_worker" where
  "psw_pop_output w = (case pw_queue w of [] \<Rightarrow> (None, w) | x # xs \<Rightarrow> (Some x, w\<lparr>pw_queue := xs\<rparr>))"

subsection \<open>Packets and entries\<close>

lemma psw_send_run: "psw_send ser dest m w = Some (psw_push [WRawDirect2 dest ([0, 64, 5, 0] @ ser m)] w)"
  by (simp add: psw_send_def pubsub_into_buffer_run)

lemma psw_push_relays [simp]: "pw_relays (psw_push outs w) = pw_relays w"
  by (simp add: psw_push_def)

lemma psw_push_push [simp]: "psw_push ys (psw_push xs w) = psw_push (xs @ ys) w"
  by (simp add: psw_push_def)

lemma psw_push_Nil [simp]: "psw_push [] w = w"
  by (simp add: psw_push_def)

lemma psw_sends_run:
  "for_run (\<lambda>(addr, uuid). psw_send ser addr (f uuid)) xs w =
     Some (psw_push (map (\<lambda>(addr, uuid). WRawDirect2 addr ([0, 64, 5, 0] @ ser (f uuid))) xs) w)"
  by (induction xs arbitrary: w) (auto simp: psw_send_run)

lemma hm_get_put [simp]: "map_of (hm_put k e m) = (map_of m)(k := e)"
  by (cases e) (simp_all add: hm_put_def)

text \<open>A worker takes an output of the controller without a panic, and its entries change as \<open>ps_apply\<close> says.\<close>

lemma psw_follows:
  assumes "wf_shadow router" "out = OutToWorker b to"
  shows "\<exists>w'. psw_on_input ser n router (WFromController b to) w = Some w' \<and> map_of (pw_relays w') = ps_apply out (map_of (pw_relays w))"
proof (cases to)
  case (PwRelayControl rid control)
  have step: "\<exists>w'. psw_relay_control ser router rid control w = Some w' \<and>
      map_of (pw_relays w') = (map_of (pw_relays w))(rid := route_step control (map_of (pw_relays w) rid))"
  proof (cases control)
    case (SendSub uuid remote)
    obtain nxt where "sr_next router (snd rid) = Some nxt" using sr_queries_run(1) [OF assms(1)] by blast
    then show ?thesis by (auto simp: SendSub psw_send_run split: option.split)
  next
    case SendRouteChanged
    show ?thesis
    proof (cases "map_of (pw_relays w) rid")
      case (Some relay)
      then show ?thesis using psw_sends_run [of ser "\<lambda>uuid. PsControl rid (RcRouteChanged uuid)" "wr_remotes_uuid relay" w] fun_upd_idem [of "map_of (pw_relays w)" rid "Some relay"] by (simp add: SendRouteChanged Some)
    qed (simp add: SendRouteChanged fun_upd_idem)
  qed (simp_all add: psw_send_run)
  then show ?thesis by (simp add: psw_on_input_def ps_apply_def assms(2) PwRelayControl)
next
  case (PwSourceHint channel remote h)
  obtain c where "sr_closest_for router (ucast channel) = Some c" using sr_queries_run(2) [OF assms(1)] by blast
  then show ?thesis
    by (auto simp: psw_on_input_def PwSourceHint assms(2) ps_apply_def sr_path_to_key_def psw_send_run split: option.split)
next
  case (PwRelayData rid data)
  then show ?thesis
    by (auto simp: psw_on_input_def assms(2) ps_apply_def pubsub_into_buffer_run split: option.split)
qed

text \<open>Handing the controller's outputs to a worker, in order; events go to the applications.\<close>

definition deliver :: "(pubsub_message \<Rightarrow> bytes) \<Rightarrow> node_id \<Rightarrow> net_pair shadow_router \<Rightarrow> 'u ps_output list \<Rightarrow> 'u ps_worker \<Rightarrow> 'u ps_worker run" where
  "deliver ser n router =
     for_run (\<lambda>out w. case out of OutToWorker b to \<Rightarrow> psw_on_input ser n router (WFromController b to) w | _ \<Rightarrow> Some w)"

lemma deliver_run:
  assumes "wf_shadow router"
  shows "\<exists>w'. deliver ser n router outs w = Some w' \<and> map_of (pw_relays w') = fold ps_apply outs (map_of (pw_relays w))"
proof (induction outs arbitrary: w)
  case (Cons out outs)
  obtain w1 where "(case out of OutToWorker b to \<Rightarrow> psw_on_input ser n router (WFromController b to) w | _ \<Rightarrow> Some w) = Some w1"
      "map_of (pw_relays w1) = ps_apply out (map_of (pw_relays w))"
    using psw_follows [OF assms refl, where ser = ser and n = n and w = w] by (cases out) (auto simp: ps_apply_def)
  then show ?case using Cons.IH [of w1] by (simp add: deliver_def)
qed (simp add: deliver_def)

text \<open>
  C28. Workers route what the controller decided. Any sequence of inputs of the controller runs to the end; hand all its outputs to
  a worker: the worker does not panic, its entry for a relay lists exactly the relay's local and remote consumers,
  its trusted source is the neighbour a bound relay is bound to, and a relay the controller does not have has no
  consumer in any entry. Of the source of a relay that is not bound nothing is claimed: when the connection to the upstream
  neighbour closes the controller sends no \<^verbatim>\<open>RouteDelSource\<close>, so a worker keeps the old source until the relay is bound again.
\<close>

theorem pubsub_workers_follow:
  assumes "wf_shadow router"
  shows "\<exists>p w. for_run (ps_step ctx) ins ps_new = Some p \<and> deliver ser n router (ps_queue p) psw_default = Some w \<and>
    (\<forall>rid. case map_of (ps_relays p) rid of
       None \<Rightarrow> w_locals (map_of (pw_relays w) rid) = [] \<and> w_remotes (map_of (pw_relays w) rid) = []
     | Some (LocalR l) \<Rightarrow> serves (map_of (pw_relays w) rid) (lr_consumers l)
     | Some (RemoteR r) \<Rightarrow> carries (map_of (pw_relays w) rid) (re_state r))"
proof -
  obtain p where p: "for_run (ps_step ctx) ins ps_new = Some p" "ps_rel ps_new p"
    using pubsub.run_rel [OF ps_new_ok, of ctx ins] by blast
  obtain w where w: "deliver ser n router (ps_queue p) psw_default = Some w"
      "map_of (pw_relays w) = fold ps_apply (ps_queue p) (map_of (pw_relays psw_default))"
    using deliver_run [OF assms] by blast
  note p(2)
  moreover have "carried Map.empty (map_of (ps_relays ps_new))"
    by (simp add: carried_iff ps_new_def serves_default w_defs)
  ultimately have "carried (fold ps_apply (ps_queue p) Map.empty) (map_of (ps_relays p))"
    by (auto simp: ps_rel_def ps_new_def)
  then have c: "carried (map_of (pw_relays w)) (map_of (ps_relays p))" by (simp add: w(2) psw_default_def)
  have "case map_of (ps_relays p) rid of
       None \<Rightarrow> w_locals (map_of (pw_relays w) rid) = [] \<and> w_remotes (map_of (pw_relays w) rid) = []
     | Some (LocalR l) \<Rightarrow> serves (map_of (pw_relays w) rid) (lr_consumers l)
     | Some (RemoteR r) \<Rightarrow> carries (map_of (pw_relays w) rid) (re_state r)" for rid
    using c [unfolded carried_def, rule_format, of rid]
    by (auto simp: serves_default split: option.splits relay.splits)
  then show ?thesis using p(1) w(1) by blast
qed

text \<open>
  A worker forgets a removed neighbour only half: after \<^verbatim>\<open>RouteDelRemote\<close> on an entry with another consumer, the neighbour
  gets no more data but is still told about every change of the route.
\<close>

theorem removed_remote_still_notified:
  assumes "map_of (pw_relays w) rid = Some e" "wr_remotes e = [p, q]" "map_of (wr_remotes_uuid e) p = Some uuid" "p \<noteq> q"
  shows "\<exists>w' w'' outs. psw_relay_control ser router rid (RouteDelRemote p) w = Some w' \<and>
    w_remotes (map_of (pw_relays w') rid) = [q] \<and>
    psw_relay_control ser router rid SendRouteChanged w' = Some w'' \<and> pw_queue w'' = pw_queue w @ outs \<and>
    WRawDirect2 p ([0, 64, 5, 0] @ ser (PsControl rid (RcRouteChanged uuid))) \<in> set outs"
proof -
  let ?e = "e\<lparr>wr_remotes := [q]\<rparr>"
  let ?w = "w\<lparr>pw_relays := hm_put rid (Some ?e) (pw_relays w)\<rparr>"
  let ?outs = "map (\<lambda>(addr, uuid). WRawDirect2 addr ([0, 64, 5, 0] @ ser (PsControl rid (RcRouteChanged uuid)))) (wr_remotes_uuid e)"
  have "route_step (RouteDelRemote p) (Some e) = Some ?e"
    using assms(2,4) by (simp add: remove_at_position_def swap_remove_def wr_keep_def wr_is_empty_def)
  then have del: "psw_relay_control ser router rid (RouteDelRemote p) w = Some ?w" by (simp add: assms(1))
  have get: "map_of (pw_relays ?w) rid = Some ?e" by simp
  have send: "psw_relay_control ser router rid SendRouteChanged ?w = Some (psw_push ?outs ?w)"
    using psw_sends_run [of ser "\<lambda>uuid. PsControl rid (RcRouteChanged uuid)" "wr_remotes_uuid e" ?w] by (simp add: get)
  have "(p, uuid) \<in> set (wr_remotes_uuid e)" using assms(3) by (rule map_of_SomeD)
  then have "WRawDirect2 p ([0, 64, 5, 0] @ ser (PsControl rid (RcRouteChanged uuid))) \<in> set ?outs" by force
  with del send show ?thesis
    by (intro exI [of _ ?w] exI [of _ "psw_push ?outs ?w"] exI [of _ ?outs]) (simp add: get w_defs psw_push_def)
qed

definition demo_entry :: "unit worker_relay" where
  "demo_entry = \<lparr>wr_source = None, wr_locals = [], wr_remotes = [demo_pair1, demo_pair1\<lparr>np_remote := SocketV4 3 1000\<rparr>],
     wr_remotes_uuid = [(demo_pair1, 4)]\<rparr>"

lemma removed_remote_still_notified_witness:
  "\<exists>w' w'' outs. psw_relay_control (\<lambda>_. []) (sr_new 1) (9, 1) (RouteDelRemote demo_pair1)
      (psw_default\<lparr>pw_relays := [((9, 1), demo_entry)]\<rparr>) = Some w' \<and>
    psw_relay_control (\<lambda>_. []) (sr_new 1) (9, 1) SendRouteChanged w' = Some w'' \<and> pw_queue w'' = outs \<and>
    WRawDirect2 demo_pair1 [0, 64, 5, 0] \<in> set outs"
  using removed_remote_still_notified [of "psw_default\<lparr>pw_relays := [((9, 1), demo_entry)]\<rparr>" "(9, 1)" demo_entry demo_pair1
      "demo_pair1\<lparr>np_remote := SocketV4 3 1000\<rparr>" 4 "\<lambda>_. []" "sr_new 1"]
  by (simp add: demo_entry_def demo_pair1_def psw_default_def)

lemma pubsub_workers_follow_witness:
  "wf_shadow (sr_new 1) \<and>
   (\<exists>p w. for_run (ps_step \<lparr>fc_node = 1, fc_session = 7\<rparr>)
        [PiControl 5 (ActorService 3 :: unit feature_actor) (9, SubSource 2), PiControl 6 (ActorService 4) (9, SubSource 2)] ps_new = Some p \<and>
      deliver (\<lambda>_. []) 1 (sr_new 1) (ps_queue p) psw_default = Some w \<and>
      (\<forall>rid r. map_of (ps_relays p) rid = Some (RemoteR r) \<longrightarrow> carries (map_of (pw_relays w) rid) (re_state r)))"
  using pubsub_workers_follow [OF sr_new_wf, of "\<lparr>fc_node = 1, fc_session = 7\<rparr>"
      "[PiControl 5 (ActorService 3 :: unit feature_actor) (9, SubSource 2), PiControl 6 (ActorService 4) (9, SubSource 2)]" "\<lambda>_. []" 1 1] sr_new_wf [of 1]
  by (force split: option.splits)

subsection \<open>Two nodes\<close>

text \<open>
  A node is the controller half with one worker. A turn feeds one input to the controller and hands its outputs to the worker; a
  packet goes to the worker, which may pass it on to the controller. Both return what the worker sends.
\<close>

type_synonym 'u ps_node = "'u pubsub \<times> 'u ps_worker"

definition node_turn :: "(pubsub_message \<Rightarrow> bytes) \<Rightarrow> feature_ctx \<Rightarrow> net_pair shadow_router \<Rightarrow> 'u ps_input \<Rightarrow> 'u ps_node \<Rightarrow>
    ('u ps_node \<times> 'u psw_output list) run" where
  "node_turn ser ctx router input = (\<lambda>(p, w). do {
     p1 \<leftarrow> ps_step ctx input p;
     w1 \<leftarrow> deliver ser (fc_node ctx) router (ps_queue p1) w;
     Some ((p1\<lparr>ps_queue := []\<rparr>, w1\<lparr>pw_queue := []\<rparr>), pw_queue w1)
   })"

definition node_packet :: "(pubsub_message \<Rightarrow> bytes) \<Rightarrow> (bytes \<Rightarrow> pubsub_message option) \<Rightarrow> feature_ctx \<Rightarrow> net_pair shadow_router \<Rightarrow> time \<Rightarrow>
    net_pair \<Rightarrow> bytes \<Rightarrow> 'u ps_node \<Rightarrow> ('u ps_node \<times> 'u psw_output list) run" where
  "node_packet ser de ctx router now remote buf = (\<lambda>(p, w). do {
     w1 \<leftarrow> psw_on_network_raw ser de remote buf w;
     (case pw_queue w1 of
        [WToController t] \<Rightarrow> node_turn ser ctx router (PiWorker now t) (p, w1\<lparr>pw_queue := []\<rparr>)
      | outs \<Rightarrow> Some ((p, w1\<lparr>pw_queue := []\<rparr>), outs))
   })"

definition packet :: "(pubsub_message \<Rightarrow> bytes) \<Rightarrow> pubsub_message \<Rightarrow> bytes" where
  "packet ser m = [0, 64, 5, 0] @ ser m"

lemma psw_send_packet: "psw_send ser dest m w = Some (psw_push [WRawDirect2 dest (packet ser m)] w)"
  by (simp add: psw_send_run packet_def)

lemma network_raw_run:
  assumes "de (ser m) = Some m"
  shows "psw_on_network_raw ser de remote (packet ser m) w =
    (case m of
       PsControl rid control \<Rightarrow> Some (psw_push [WToController (PcRelayControl remote rid control)] w)
     | PsSourceHint channel control \<Rightarrow> Some (psw_push [WToController (PcSourceHint remote channel control)] w)
     | PsData rid data \<Rightarrow>
         (case map_of (pw_relays w) rid of
            None \<Rightarrow> Some w
          | Some relay \<Rightarrow> if wr_source relay = Some remote then psw_relay_data ser rid data relay w else Some w))"
  using pubsub_buffer_roundtrip [of de ser m, OF assms] by (cases m) (simp_all add: psw_on_network_raw_def packet_def)

lemmas node_defs = node_turn_def deliver_def ps_on_input_def on_remote_relay_control_def psw_on_input_def psw_send_packet
  with_relay_def ensure_relay_def hm_ensure_def clear_relay_def new_relay_def sub_source_def Let_def
  hm_put_def psw_default_def ps_new_def

lemma pop_remote: "pop_single_relay rid (RemoteR r) queue = (RemoteR (r\<lparr>re_queue := []\<rparr>), queue @ concat (map (relay_out rid) (re_queue r)))"
proof (induction "re_queue r" arbitrary: r queue)
  case Nil
  then show ?case by (simp add: pop_single_relay.simps re_pop_output_def)
next
  case (Cons x xs)
  show ?case
    using Cons(1) [of "r\<lparr>re_queue := xs\<rparr>" "queue @ relay_out rid x"] Cons(2) [symmetric]
    by (simp add: pop_single_relay.simps [of rid "RemoteR r"] re_pop_output_def)
qed

text \<open>The steps of a subscription: the subscriber's request, the source's answer, the subscriber's binding.\<close>

lemma subscriber_requests:
  assumes "fc_node ctx \<noteq> source" "sr_next router source = Some (Some pb)"
  shows "\<exists>nd. node_turn ser ctx router (PiControl now actor (channel, SubSource source)) (ps_new, psw_default) =
      Some (nd, [WRawDirect2 pb (packet ser (PsControl (channel, source) (RcSub (fc_session ctx))))]) \<and>
    ps_relays (fst nd) = [((channel, source), RemoteR \<lparr>re_uuid = fc_session ctx,
       re_state = RsBinding \<lparr>co_remotes = [], co_locals = [actor], co_queue = []\<rparr> fa_default, re_queue = []\<rparr>)] \<and>
    ps_queue (fst nd) = [] \<and> pw_queue (snd nd) = [] \<and>
    pw_relays (snd nd) = [((channel, source), \<lparr>wr_source = None, wr_locals = [actor], wr_remotes = [], wr_remotes_uuid = []\<rparr>)]"
  using assms
  by (simp add: node_defs pop_remote re_new_def re_on_local_sub_def relay_defs co_on_local_sub_def co_default_def co_push_def
      relay_out_def wr_or_new_def wr_new_def psw_push_def)

lemma subscriber_binds:
  assumes "de (ser (PsControl rid (RcSubOk uuid))) = Some (PsControl rid (RcSubOk uuid))"
    "ps_relays p = [(rid, RemoteR \<lparr>re_uuid = uuid, re_state = RsBinding c f, re_queue = []\<rparr>)]" "ps_queue p = []" "pw_queue w = []"
    "pw_relays w = [(rid, e)]"
  shows "\<exists>p' w'. node_packet ser de ctx router now pb (packet ser (PsControl rid (RcSubOk uuid))) (p, w) = Some ((p', w'), []) \<and>
    ps_queue p' = [] \<and> pw_queue w' = [] \<and> pw_relays w' = [(rid, e\<lparr>wr_source := Some pb\<rparr>)]"
  using assms(2-5)
  by (simp add: node_packet_def network_raw_run [where de = de and ser = ser, OF assms(1)] psw_push_def node_defs pop_remote re_on_remote_def re_on_sub_ok_def
      re_push_def relay_out_def re_should_clear_def route_step.simps(1) wr_or_new_def)

lemma pop_local:
  assumes "fa_queue (lr_feedbacks l) = []"
  shows "pop_single_relay rid (LocalR l) queue = (LocalR (l\<lparr>lr_consumers := (lr_consumers l)\<lparr>co_queue := []\<rparr>\<rparr>),
    queue @ map (\<lambda>ctl. OutToWorker True (PwRelayControl rid ctl)) (co_queue (lr_consumers l)))"
  using assms
proof (induction "co_queue (lr_consumers l)" arbitrary: l queue)
  case Nil
  then show ?case by (simp add: pop_single_relay.simps lr_pop_output_def fa_pop_output_def co_pop_output_def)
next
  case (Cons x xs)
  show ?case
    using Cons(1) [of "l\<lparr>lr_consumers := (lr_consumers l)\<lparr>co_queue := xs\<rparr>\<rparr>" "queue @ relay_out rid (RoToWorker x)"] Cons(2) [symmetric] Cons(3)
    by (simp add: pop_single_relay.simps [of rid "LocalR l"] lr_pop_output_def fa_pop_output_def co_pop_output_def relay_out_def)
qed

lemma source_accepts:
  assumes "de (ser (PsControl rid (RcSub uuid))) = Some (PsControl rid (RcSub uuid))" "ps_ok ctx p" "ps_queue p = []" "pw_queue w = []"
    "map_of (ps_relays p) rid = Some (LocalR l)" "map_of (co_remotes (lr_consumers l)) pa = None"
  shows "\<exists>p' w' e. node_packet ser de ctx router now pa (packet ser (PsControl rid (RcSub uuid))) (p, w) =
      Some ((p', w'), [WRawDirect2 pa (packet ser (PsControl rid (RcSubOk uuid)))]) \<and>
    pw_queue w' = [] \<and> map_of (pw_relays w') rid = Some e \<and> pa \<in> set (wr_remotes e)"
proof -
  have "relay_ok ctx rid (LocalR l)" by (rule ps_ok_relay [OF assms(2,5)])
  then have q: "fa_queue (lr_feedbacks l) = []" "co_queue (lr_consumers l) = []" by (simp_all add: relay_ok_def)
  let ?c = "(lr_consumers l)\<lparr>co_remotes := hm_insert pa \<lparr>rr_uuid = uuid, rr_last_sub = now\<rparr> (co_remotes (lr_consumers l)),
      co_queue := [SendSubOk uuid pa, RouteSetRemote pa uuid]\<rparr>"
  have on: "relay_on_remote now pa (RcSub uuid) (LocalR l) = LocalR (l\<lparr>lr_consumers := ?c\<rparr>)"
    by (simp add: lr_on_remote_def assms(6) co_push_def q)
  show ?thesis
    using assms(3-5) q hm_update_ne [of pa "\<lparr>rr_uuid = uuid, rr_last_sub = now\<rparr>" "co_remotes (lr_consumers l)"]
    by (simp add: node_packet_def network_raw_run [where de = de and ser = ser, OF assms(1)] psw_push_def node_defs on pop_local lr_should_clear_def
        co_should_clear_def del: relay_on_remote.simps)
qed

text \<open>
  C29. Published data reaches a subscriber. Node \<open>a\<close> publishes a channel and is in any good state in which it does not know the
  pair \<open>pa\<close> yet; an application of a fresh node subscribes to the channel at \<open>a\<close>, and its router knows the
  neighbour \<open>pb\<close> towards \<open>a\<close>. When the request, the answer and then the data travel between the two, the
  application is told the data, once.
\<close>

theorem pubsub_data_reaches_subscriber:
  assumes "de (ser (PsControl (channel, fc_node a) (RcSub (fc_session b)))) = Some (PsControl (channel, fc_node a) (RcSub (fc_session b)))"
    "de (ser (PsControl (channel, fc_node a) (RcSubOk (fc_session b)))) = Some (PsControl (channel, fc_node a) (RcSubOk (fc_session b)))"
    "de (ser (PsData (channel, fc_node a) data)) = Some (PsData (channel, fc_node a) data)"
    and "fc_node b \<noteq> fc_node a" "sr_next router (fc_node a) = Some (Some pb)"
    "ps_ok a p" "ps_queue p = []" "pw_queue w = []" "map_of (ps_relays p) (channel, fc_node a) = Some (LocalR l)"
    "map_of (co_remotes (lr_consumers l)) pa = None"
  shows "\<exists>b1 request a2 answer b3 w4 remotes events b5.
    node_turn ser b router (PiControl t1 actor (channel, SubSource (fc_node a))) (ps_new, psw_default) = Some (b1, [WRawDirect2 pb request]) \<and>
    node_packet ser de a router' t2 pa request (p, w) = Some (a2, [WRawDirect2 pa answer]) \<and>
    node_packet ser de b router t3 pb answer b1 = Some (b3, []) \<and>
    psw_on_input ser (fc_node a) router' (WControl publisher (channel, PubData data)) (snd a2) = Some w4 \<and>
    pw_queue w4 = events @ [WRawBroadcast2 remotes (packet ser (PsData (channel, fc_node a) data))] \<and> pa \<in> set remotes \<and>
    node_packet ser de b router t5 pb (packet ser (PsData (channel, fc_node a) data)) b3 =
      Some (b5, [WEvent actor (channel, EvSourceData (fc_node a) data)])"
proof -
  let ?rid = "(channel, fc_node a)" and ?u = "fc_session b"
  obtain p1 w1 where 1: "node_turn ser b router (PiControl t1 actor (channel, SubSource (fc_node a))) (ps_new, psw_default) =
        Some ((p1, w1), [WRawDirect2 pb (packet ser (PsControl ?rid (RcSub ?u)))])"
      "ps_relays p1 = [(?rid, RemoteR \<lparr>re_uuid = ?u, re_state = RsBinding \<lparr>co_remotes = [], co_locals = [actor], co_queue = []\<rparr> fa_default,
         re_queue = []\<rparr>)]" "ps_queue p1 = []" "pw_queue w1 = []"
      "pw_relays w1 = [(?rid, \<lparr>wr_source = None, wr_locals = [actor], wr_remotes = [], wr_remotes_uuid = []\<rparr>)]"
    using subscriber_requests [OF assms(4,5), of ser t1 actor channel] by (metis fst_conv snd_conv surj_pair)
  obtain p2 w2 e where 2: "node_packet ser de a router' t2 pa (packet ser (PsControl ?rid (RcSub ?u))) (p, w) =
        Some ((p2, w2), [WRawDirect2 pa (packet ser (PsControl ?rid (RcSubOk ?u)))])"
      "pw_queue w2 = []" "map_of (pw_relays w2) ?rid = Some e" "pa \<in> set (wr_remotes e)"
    using source_accepts [where de = de and ser = ser, OF assms(1,6-10)] by blast
  obtain p3 w3 where 3: "node_packet ser de b router t3 pb (packet ser (PsControl ?rid (RcSubOk ?u))) (p1, w1) = Some ((p3, w3), [])"
      "pw_queue w3 = []"
      "pw_relays w3 = [(?rid, \<lparr>wr_source = Some pb, wr_locals = [actor], wr_remotes = [], wr_remotes_uuid = []\<rparr>)]"
    using subscriber_binds [where de = de and ser = ser, OF assms(2) 1(2-5)] by fastforce
  have 4: "psw_on_input ser (fc_node a) router' (WControl publisher (channel, PubData data)) w2 =
      Some (psw_push (map (\<lambda>actor. WEvent actor (channel, EvSourceData (fc_node a) data)) (wr_locals e) @
        [WRawBroadcast2 (wr_remotes e) (packet ser (PsData ?rid data))]) w2)"
    using 2(3,4) by (auto simp: psw_on_input_def psw_relay_data_def pubsub_into_buffer_run packet_def Let_def)
  have 5: "node_packet ser de b router t5 pb (packet ser (PsData ?rid data)) (p3, w3) =
      Some ((p3, w3), [WEvent actor (channel, EvSourceData (fc_node a) data)])"
    using 3(2,3) by (simp add: node_packet_def network_raw_run [where de = de and ser = ser, OF assms(3)] psw_relay_data_def psw_push_def)
  show ?thesis
    using 1(1) 2(1,2,4) 3(1) 4 5 by (auto simp: psw_push_def intro!: exI)
qed

definition demo_router :: "net_pair shadow_router" where
  "demo_router = (sr_new 2)\<lparr>sr_tables := (sr_tables (sr_new 2))[0 := st_set (sr_tables (sr_new 2) ! 0) 1 demo_pair1]\<rparr>"

fun demo_ser :: "pubsub_message \<Rightarrow> bytes" where
  "demo_ser (PsControl _ (RcSub _)) = [1]"
| "demo_ser (PsControl _ (RcSubOk _)) = [2]"
| "demo_ser _ = [3]"

definition demo_de :: "bytes \<Rightarrow> pubsub_message option" where
  "demo_de bs = (if bs = [1] then Some (PsControl (9, 1) (RcSub 7))
     else if bs = [2] then Some (PsControl (9, 1) (RcSubOk 7)) else Some (PsData (9, 1) [42]))"

lemma pubsub_data_reaches_subscriber_witness:
  "\<exists>b1 request a2 answer b3 b5 w4.
    node_turn demo_ser \<lparr>fc_node = 2, fc_session = 7\<rparr> demo_router (PiControl 1 (ActorService 3 :: unit feature_actor) (9, SubSource 1))
      (ps_new, psw_default) = Some (b1, [WRawDirect2 demo_pair1 request]) \<and>
    node_packet demo_ser demo_de \<lparr>fc_node = 1, fc_session = 8\<rparr> (sr_new 1) 2 demo_pair1 request
      (ps_new\<lparr>ps_relays := [((9, 1), LocalR lr_default)]\<rparr>, psw_default :: unit ps_worker) = Some (a2, [WRawDirect2 demo_pair1 answer]) \<and>
    node_packet demo_ser demo_de \<lparr>fc_node = 2, fc_session = 7\<rparr> demo_router 3 demo_pair1 answer b1 = Some (b3, []) \<and>
    psw_on_input demo_ser 1 (sr_new 1) (WControl (ActorService 1) (9, PubData [42])) (snd a2) = Some w4 \<and>
    node_packet demo_ser demo_de \<lparr>fc_node = 2, fc_session = 7\<rparr> demo_router 5 demo_pair1 (packet demo_ser (PsData (9, 1) [42])) b3 =
      Some (b5, [WEvent (ActorService 3) (9, EvSourceData 1 [42])])"
proof -
  let ?a = "\<lparr>fc_node = 1, fc_session = 8\<rparr>" and ?b = "\<lparr>fc_node = 2, fc_session = 7\<rparr>"
  have route: "sr_next demo_router 1 = Some (Some demo_pair1)"
    by (simp add: demo_router_def sr_next_def sr_new_def eq_util_layer_def layer_byte_def st_next_def layer_def st_set_def st_new_def Let_def)
  have ok: "ps_ok ?a (ps_new\<lparr>ps_relays := [((9, 1), LocalR lr_default)]\<rparr> :: unit pubsub)"
    by (simp add: ps_ok_def ps_new_def relay_ok_def lr_default_def fa_default_def)
  have ser: "demo_de (demo_ser (PsControl (9, fc_node ?a) (RcSub (fc_session ?b)))) = Some (PsControl (9, fc_node ?a) (RcSub (fc_session ?b)))"
    "demo_de (demo_ser (PsControl (9, fc_node ?a) (RcSubOk (fc_session ?b)))) = Some (PsControl (9, fc_node ?a) (RcSubOk (fc_session ?b)))"
    "demo_de (demo_ser (PsData (9, fc_node ?a) [42])) = Some (PsData (9, fc_node ?a) [42])"
    by (simp_all add: demo_de_def)
  have nodes: "fc_node ?b \<noteq> fc_node ?a" and next_hop: "sr_next demo_router (fc_node ?a) = Some (Some demo_pair1)" using route by simp_all
  have rest: "ps_queue (ps_new\<lparr>ps_relays := [((9, 1), LocalR lr_default)]\<rparr> :: unit pubsub) = []" "pw_queue (psw_default :: unit ps_worker) = []"
    "map_of (ps_relays (ps_new\<lparr>ps_relays := [((9, 1), LocalR lr_default)]\<rparr> :: unit pubsub)) (9, fc_node ?a) = Some (LocalR lr_default)"
    "map_of (co_remotes (lr_consumers (lr_default :: unit local_relay))) demo_pair1 = None"
    by (simp_all add: ps_new_def psw_default_def lr_default_def co_default_def)
  from pubsub_data_reaches_subscriber [OF ser nodes next_hop ok rest, of 1 "ActorService 3 :: unit feature_actor" "sr_new 1" 2 3
      "ActorService 1" 5]
  show ?thesis unfolding feature_ctx.simps by (elim exE conjE) (intro exI conjI; assumption)
qed

end
