(* ===== verification/Socket_Feature.thy ===== *)
theory Socket_Feature
  imports Pubsub_Feature
begin

text \<open>
  Virtual datagram sockets (\<^verbatim>\<open>packages/network/src/features/socket.rs\<close>): the controller owns the table of bound ports and
  mirrors it into the workers, which send and receive the datagrams.

  The lemmas show that a worker that has received the controller's instructions holds the same table of sockets,
  and exactly which datagrams a socket delivers.
\<close>

definition SOCKET_FEATURE_ID :: u8 where "SOCKET_FEATURE_ID = 7"

datatype sock_control =
    SockBind u16
  | SockConnect u16 node_id u16
  | SockSendTo u16 node_id u16 bytes u8
  | SockSend u16 bytes u8
  | SockUnbind u16

datatype sock_event = RecvFrom u16 node_id u16 bytes u8

datatype 'u sock_to_worker =
    BindSocket u16 "'u feature_actor"
  | ConnectSocket u16 node_id u16
  | UnbindSocket u16

record 'u sock_entry =
  se_target :: "(node_id \<times> u16) option"
  se_actor :: "'u feature_actor"

type_synonym 'u sock_output = "('u, sock_event, 'u sock_to_worker) feature_output"
type_synonym 'u sock_worker_output = "('u, sock_control, sock_event, unit) feature_worker_output"

text \<open>The source and destination port in front of the payload.\<close>

definition embed_meta :: "u16 \<Rightarrow> u16 \<Rightarrow> bytes \<Rightarrow> bytes" where
  "embed_meta src dst data = be16 src @ be16 dst @ data"

definition extract_meta :: "bytes \<Rightarrow> ((u16 \<times> u16) \<times> bytes) option" where
  "extract_meta buf =
     (case buf of
        a # b # c # d # rest \<Rightarrow> Some ((of_be16 a b, of_be16 c d), rest)
      | _ \<Rightarrow> None)"

definition sock_meta :: "u8 \<Rightarrow> net_outgoing_meta" where
  "sock_meta meta = \<lparr>om_source = True, om_ttl = DEFAULT_MSG_TTL, om_meta = meta, om_secure = False\<rparr>"

record 'u sock_feature =
  sf_sockets :: "(u16 \<times> 'u sock_entry) list"
  sf_queue :: "'u sock_output list"
  sf_shutdown :: bool

definition sf_default :: "'u sock_feature" where
  "sf_default = \<lparr>sf_sockets = [], sf_queue = [], sf_shutdown = False\<rparr>"

definition sf_push :: "'u sock_output list \<Rightarrow> 'u sock_feature \<Rightarrow> 'u sock_feature" where
  "sf_push outs f = f\<lparr>sf_queue := sf_queue f @ outs\<rparr>"

definition sf_send_to :: "u16 \<Rightarrow> node_id \<Rightarrow> u16 \<Rightarrow> bytes \<Rightarrow> u8 \<Rightarrow> 'u sock_feature \<Rightarrow> 'u sock_feature" where
  "sf_send_to src dst_node dst_port data meta =
     sf_push [OutSendRoute (ToNode dst_node) (sock_meta meta) (embed_meta src dst_port data)]"

text \<open>The part that \<^verbatim>\<open>SendTo\<close> and \<^verbatim>\<open>Send\<close> share: a datagram to the own node or over the network.\<close>

definition sf_transmit :: "feature_ctx \<Rightarrow> 'u feature_actor \<Rightarrow> u16 \<Rightarrow> node_id \<Rightarrow> u16 \<Rightarrow> bytes \<Rightarrow> u8 \<Rightarrow> 'u sock_feature \<Rightarrow> 'u sock_feature" where
  "sf_transmit ctx actor port dst_node dst_port data meta f =
     (if dst_node = fc_node ctx then
        (if map_of (sf_sockets f) dst_port \<noteq> None
         then sf_push [OutEvent actor (RecvFrom dst_port (fc_node ctx) port data meta)] f
         else f)
      else sf_send_to port dst_node dst_port data meta f)"

fun sf_on_control :: "feature_ctx \<Rightarrow> 'u feature_actor \<Rightarrow> sock_control \<Rightarrow> 'u sock_feature \<Rightarrow> 'u sock_feature" where
  "sf_on_control ctx actor (SockBind port) f =
     (if map_of (sf_sockets f) port \<noteq> None then f
      else sf_push [OutToWorker True (BindSocket port actor)]
             (f\<lparr>sf_sockets := hm_insert port \<lparr>se_target = None, se_actor = actor\<rparr> (sf_sockets f)\<rparr>))"
| "sf_on_control ctx actor (SockConnect port dst_node dst_port) f =
     (case map_of (sf_sockets f) port of
        None \<Rightarrow> f
      | Some socket \<Rightarrow>
          if se_actor socket = actor
          then sf_push [OutToWorker True (ConnectSocket port dst_node dst_port)]
                 (f\<lparr>sf_sockets := hm_insert port (socket\<lparr>se_target := Some (dst_node, dst_port)\<rparr>) (sf_sockets f)\<rparr>)
          else f)"
| "sf_on_control ctx actor (SockSendTo port dst_node dst_port data meta) f =
     (case map_of (sf_sockets f) port of
        None \<Rightarrow> f
      | Some socket \<Rightarrow> if se_actor socket = actor then sf_transmit ctx actor port dst_node dst_port data meta f else f)"
| "sf_on_control ctx actor (SockSend port data meta) f =
     (case map_of (sf_sockets f) port of
        None \<Rightarrow> f
      | Some socket \<Rightarrow>
          (case se_target socket of
             Some (dst_node, dst_port) \<Rightarrow> sf_transmit ctx actor port dst_node dst_port data meta f
           | None \<Rightarrow> f))"
| "sf_on_control ctx actor (SockUnbind port) f =
     (case map_of (sf_sockets f) port of
        None \<Rightarrow> f
      | Some socket \<Rightarrow>
          if se_actor socket = actor
          then sf_push [OutToWorker True (UnbindSocket port)] (f\<lparr>sf_sockets := hm_remove port (sf_sockets f)\<rparr>)
          else f)"

text \<open>
  The event for a datagram from a node, if the socket of its destination port takes it; the controller and the workers decide it
  in the same way.
\<close>

definition receive :: "(u16 \<times> 'u sock_entry) list \<Rightarrow> node_id \<Rightarrow> bytes \<Rightarrow> u8 \<Rightarrow> ('u feature_actor \<times> sock_event) option" where
  "receive sockets from_node buf meta =
     do {
       ((pkt_src, pkt_dest), data) \<leftarrow> extract_meta buf;
       socket \<leftarrow> map_of sockets pkt_dest;
       (case se_target socket of
          Some (dst_node, dst_port) \<Rightarrow>
            (if dst_node \<noteq> from_node then None
             else if dst_port \<noteq> pkt_dest then None
             else Some (se_actor socket, RecvFrom pkt_dest from_node pkt_src data meta))
        | None \<Rightarrow> Some (se_actor socket, RecvFrom pkt_dest from_node pkt_src data meta))
     }"

definition sf_on_datagram :: "net_incoming_meta \<Rightarrow> bytes \<Rightarrow> 'u sock_feature \<Rightarrow> 'u sock_feature" where
  "sf_on_datagram meta buf f =
     (case im_source meta of
        None \<Rightarrow> f
      | Some from_node \<Rightarrow>
          (case receive (sf_sockets f) from_node buf (im_meta meta) of
             Some (actor, event) \<Rightarrow> sf_push [OutEvent actor event] f
           | None \<Rightarrow> f))"

definition sf_on_input :: "feature_ctx \<Rightarrow> ('u, sock_control, unit) feature_input \<Rightarrow> 'u sock_feature \<Rightarrow> 'u sock_feature" where
  "sf_on_input ctx input f =
     (case input of
        Control actor control \<Rightarrow> sf_on_control ctx actor control f
      | NetMsg _ meta buf \<Rightarrow> sf_on_datagram meta buf f
      | LocalMsg meta buf \<Rightarrow> sf_on_datagram meta buf f
      | FromWorker _ \<Rightarrow> f)"

definition sf_on_shared_input :: "feature_shared_input \<Rightarrow> 'u sock_feature \<Rightarrow> 'u sock_feature" where
  "sf_on_shared_input input f = f"

definition sf_on_shutdown :: "'u sock_feature \<Rightarrow> 'u sock_feature" where
  "sf_on_shutdown f = f\<lparr>sf_shutdown := True\<rparr>"

definition sf_is_empty :: "'u sock_feature \<Rightarrow> bool" where
  "sf_is_empty f \<longleftrightarrow> sf_shutdown f \<and> sf_queue f = []"

definition sf_pop_output :: "'u sock_feature \<Rightarrow> 'u sock_output option \<times> 'u sock_feature" where
  "sf_pop_output f = (case sf_queue f of [] \<Rightarrow> (None, f) | x # xs \<Rightarrow> (Some x, f\<lparr>sf_queue := xs\<rparr>))"

subsection \<open>Worker half\<close>

record 'u sock_worker =
  sw_sockets :: "(u16 \<times> 'u sock_entry) list"
  sw_queue :: "'u sock_worker_output list"
  sw_shutdown :: bool

definition sw_default :: "'u sock_worker" where
  "sw_default = \<lparr>sw_sockets = [], sw_queue = [], sw_shutdown = False\<rparr>"

definition sw_push :: "'u sock_worker_output list \<Rightarrow> 'u sock_worker \<Rightarrow> 'u sock_worker" where
  "sw_push outs w = w\<lparr>sw_queue := sw_queue w @ outs\<rparr>"

definition process_incoming :: "node_id \<Rightarrow> bytes \<Rightarrow> u8 \<Rightarrow> 'u sock_worker \<Rightarrow> 'u sock_worker" where
  "process_incoming from_node buf meta w =
     (case receive (sw_sockets w) from_node buf meta of
        Some (actor, event) \<Rightarrow> sw_push [WEvent actor event] w
      | None \<Rightarrow> w)"

definition sw_on_datagram :: "net_incoming_meta \<Rightarrow> bytes \<Rightarrow> 'u sock_worker \<Rightarrow> 'u sock_worker" where
  "sw_on_datagram meta buf w =
     (case im_source meta of Some from_node \<Rightarrow> process_incoming from_node buf (im_meta meta) w | None \<Rightarrow> w)"

fun sw_from_controller :: "'u sock_to_worker \<Rightarrow> 'u sock_worker \<Rightarrow> 'u sock_worker" where
  "sw_from_controller (BindSocket port actor) w =
     w\<lparr>sw_sockets := hm_insert port \<lparr>se_target = None, se_actor = actor\<rparr> (sw_sockets w)\<rparr>"
| "sw_from_controller (ConnectSocket port dst_node dst_port) w =
     (case map_of (sw_sockets w) port of
        Some socket \<Rightarrow> w\<lparr>sw_sockets := hm_insert port (socket\<lparr>se_target := Some (dst_node, dst_port)\<rparr>) (sw_sockets w)\<rparr>
      | None \<Rightarrow> w)"
| "sw_from_controller (UnbindSocket port) w = w\<lparr>sw_sockets := hm_remove port (sw_sockets w)\<rparr>"

definition sw_send :: "u16 \<Rightarrow> node_id \<Rightarrow> u16 \<Rightarrow> bytes \<Rightarrow> u8 \<Rightarrow> 'u sock_worker \<Rightarrow> 'u sock_worker" where
  "sw_send port dst_node dst_port data meta =
     sw_push [WSendRoute (ToNode dst_node) (sock_meta meta) (embed_meta port dst_port data)]"

fun sw_on_control :: "'u feature_actor \<Rightarrow> sock_control \<Rightarrow> 'u sock_worker \<Rightarrow> 'u sock_worker" where
  "sw_on_control actor (SockSend port data meta) w =
     (case map_of (sw_sockets w) port of
        None \<Rightarrow> w
      | Some socket \<Rightarrow>
          if actor = se_actor socket
          then (case se_target socket of
                  Some (dst_node, dst_port) \<Rightarrow> sw_send port dst_node dst_port data meta w
                | None \<Rightarrow> w)
          else w)"
| "sw_on_control actor (SockSendTo port dst_node dst_port data meta) w =
     (case map_of (sw_sockets w) port of
        None \<Rightarrow> w
      | Some socket \<Rightarrow> if actor = se_actor socket then sw_send port dst_node dst_port data meta w else w)"
| "sw_on_control actor control w = sw_push [WForwardControl actor control] w"

definition sw_on_input :: "('u, sock_control, 'u sock_to_worker) feature_worker_input \<Rightarrow> 'u sock_worker \<Rightarrow> 'u sock_worker" where
  "sw_on_input input w =
     (case input of
        WNetwork _ meta buf \<Rightarrow> sw_on_datagram meta buf w
      | WFromController _ control \<Rightarrow> sw_from_controller control w
      | WControl actor control \<Rightarrow> sw_on_control actor control w
      | WLocal meta buf \<Rightarrow> sw_on_datagram meta buf w
      | WTunPkt _ \<Rightarrow> w)"

definition sw_on_shutdown :: "'u sock_worker \<Rightarrow> 'u sock_worker" where
  "sw_on_shutdown w = w\<lparr>sw_shutdown := True\<rparr>"

definition sw_is_empty :: "'u sock_worker \<Rightarrow> bool" where
  "sw_is_empty w \<longleftrightarrow> sw_shutdown w \<and> sw_queue w = []"

definition sw_pop_output :: "'u sock_worker \<Rightarrow> 'u sock_worker_output option \<times> 'u sock_worker" where
  "sw_pop_output w = (case sw_queue w of [] \<Rightarrow> (None, w) | x # xs \<Rightarrow> (Some x, w\<lparr>sw_queue := xs\<rparr>))"

subsection \<open>Workers mirror the controller\<close>

fun sock_apply :: "'u sock_output \<Rightarrow> 'u sock_worker \<Rightarrow> 'u sock_worker" where
  "sock_apply (OutToWorker b control) w = sw_on_input (WFromController b control) w"
| "sock_apply _ w = w"

lemma sock_fields [simp]:
  "sf_sockets (sf_push outs f) = sf_sockets f" "sf_queue (sf_push outs f) = sf_queue f @ outs"
  "sw_sockets (sw_push wouts w) = sw_sockets w" "sw_queue (sw_push wouts w) = sw_queue w @ wouts"
  by (simp_all add: sf_push_def sw_push_def)

text \<open>Every input keeps the sockets of a worker that applies the new outputs equal to those of the controller.\<close>

definition sock_follows :: "'u sock_feature \<Rightarrow> 'u sock_feature \<Rightarrow> bool" where
  "sock_follows f f' \<longleftrightarrow> (\<exists>outs. sf_queue f' = sf_queue f @ outs \<and>
     (\<forall>w. map_of (sw_sockets w) = map_of (sf_sockets f) \<longrightarrow>
        map_of (sw_sockets (fold sock_apply outs w)) = map_of (sf_sockets f')))"

lemma sock_follows_refl: "sock_follows f f"
  by (simp add: sock_follows_def)

lemma sock_follows_trans: "sock_follows f g \<Longrightarrow> sock_follows g h \<Longrightarrow> sock_follows f h"
  unfolding sock_follows_def by (elim exE) (metis append_assoc fold_append o_apply)

lemma sock_followsI:
  assumes "sf_queue f' = sf_queue f @ outs"
    "\<And>w. map_of (sw_sockets w) = map_of (sf_sockets f) \<Longrightarrow> map_of (sw_sockets (fold sock_apply outs w)) = map_of (sf_sockets f')"
  shows "sock_follows f f'"
  using assms by (auto simp: sock_follows_def)

lemma sock_follows_event: "sock_follows f (sf_push [OutEvent actor event] f)" "sock_follows f (sf_send_to src n p data meta f)"
  by (rule sock_followsI, auto simp: sf_send_to_def)+

lemma sock_follows_transmit: "sock_follows f (sf_transmit ctx actor port n p data meta f)"
  by (simp add: sf_transmit_def sock_follows_event sock_follows_refl)

lemma sock_follows_control: "sock_follows f (sf_on_control ctx actor control f)"
proof (cases control)
  case (SockBind port)
  show ?thesis
    by (cases "map_of (sf_sockets f) port") (auto simp: SockBind sw_on_input_def sock_follows_refl intro!: sock_followsI)
next
  case (SockConnect port n p)
  show ?thesis
    by (cases "map_of (sf_sockets f) port") (auto simp: SockConnect sw_on_input_def sock_follows_refl intro!: sock_followsI)
next
  case (SockUnbind port)
  show ?thesis
    by (cases "map_of (sf_sockets f) port") (auto simp: SockUnbind sw_on_input_def sock_follows_refl intro!: sock_followsI)
qed (auto simp: sock_follows_refl sock_follows_transmit split: option.split)

lemma sock_follows_input: "sock_follows f (sf_on_input ctx input f)"
  by (auto simp: sf_on_input_def sf_on_datagram_def sock_follows_control sock_follows_refl sock_follows_event
      split: feature_input.split option.split)

text \<open>The controller as a component of inputs: a call of \<^verbatim>\<open>on_input\<close>.\<close>

interpretation sockets: run_relation "\<lambda>input f. Some (sf_on_input ctx input f)" "\<lambda>_. True" sock_follows for ctx
  by unfold_locales (auto intro: sock_follows_refl sock_follows_trans sock_follows_input)

text \<open>
  C35. Workers hold the controller's sockets. Whatever applications and the network send, a worker that has received
  the controller's instructions in order has exactly the bound ports of the controller, each with its owner and its
  peer; so both halves accept the same datagrams.
\<close>

theorem socket_workers_follow:
  "\<exists>f. for_run (\<lambda>input f. Some (sf_on_input ctx input f)) ins sf_default = Some f \<and>
     map_of (sw_sockets (fold sock_apply (sf_queue f) sw_default)) = map_of (sf_sockets f) \<and>
     receive (sw_sockets (fold sock_apply (sf_queue f) sw_default)) n buf m = receive (sf_sockets f) n buf m"
proof -
  obtain f where f: "for_run (\<lambda>input f. Some (sf_on_input ctx input f)) ins sf_default = Some f" "sock_follows sf_default f"
    using sockets.run_rel [of ctx ins sf_default] by auto
  then have eq: "map_of (sw_sockets (fold sock_apply (sf_queue f) sw_default)) = map_of (sf_sockets f)"
    by (auto simp: sock_follows_def sf_default_def sw_default_def)
  then show ?thesis using f(1) by (auto simp: receive_def)
qed

subsection \<open>Datagrams\<close>

lemma extract_embed: "extract_meta (embed_meta src dst data) = Some ((src, dst), data)"
  by (simp add: embed_meta_def extract_meta_def be16_def of_be16_be16 [unfolded be16_def])

text \<open>
  C37. What a socket delivers. The owner of port \<open>src\<close> at node \<open>a\<close> sends a datagram to port \<open>dst\<close> of node \<open>b\<close>: the worker of
  \<open>a\<close> hands exactly one packet to the router. When it arrives with its source, the worker of \<open>b\<close> reports the payload
  unchanged, with the true sender and port, to the owner of \<open>dst\<close>, if that socket is not connected; a connected
  socket takes it only if its peer is \<open>a\<close> and the peer's port equals \<open>dst\<close>, its own port, so that a socket connected to a
  different port receives nothing from its peer.
\<close>

theorem socket_datagram:
  assumes "map_of (sw_sockets wa) src = Some sa" "se_actor sa = actor"
    and "map_of (sw_sockets wb) dst = Some sb"
  shows "\<exists>pkt. sw_queue (sw_on_input (WControl actor (SockSendTo src b dst data meta)) wa) =
      sw_queue wa @ [WSendRoute (ToNode b) (sock_meta meta) pkt] \<and>
    sw_queue (sw_on_input (WNetwork c (to_incoming (sock_meta meta) a) pkt) wb) =
      sw_queue wb @ (if se_target sb = None \<or> se_target sb = Some (a, dst)
                     then [WEvent (se_actor sb) (RecvFrom dst a src data meta)] else [])"
proof -
  have "sw_queue (sw_on_input (WControl actor (SockSendTo src b dst data meta)) wa) =
      sw_queue wa @ [WSendRoute (ToNode b) (sock_meta meta) (embed_meta src dst data)]"
    using assms by (simp add: sw_on_input_def sw_send_def)
  moreover have "receive (sw_sockets wb) a (embed_meta src dst data) meta =
      (if se_target sb = None \<or> se_target sb = Some (a, dst) then Some (se_actor sb, RecvFrom dst a src data meta) else None)"
    using assms(3) by (auto simp: receive_def extract_embed split: option.splits if_splits)
  then have "sw_queue (sw_on_input (WNetwork c (to_incoming (sock_meta meta) a) (embed_meta src dst data)) wb) =
      sw_queue wb @ (if se_target sb = None \<or> se_target sb = Some (a, dst)
                     then [WEvent (se_actor sb) (RecvFrom dst a src data meta)] else [])"
    by (simp add: sw_on_input_def sw_on_datagram_def process_incoming_def to_incoming_def sock_meta_def)
  ultimately show ?thesis by blast
qed

definition demo_socket :: "(node_id \<times> u16) option \<Rightarrow> u16 \<Rightarrow> unit sock_worker" where
  "demo_socket target port = sw_default\<lparr>sw_sockets := [(port, \<lparr>se_target = target, se_actor = ActorService 1\<rparr>)]\<rparr>"

lemma socket_datagram_witness:
  "\<exists>pkt. sw_queue (sw_on_input (WControl (ActorService 1) (SockSendTo 10 2 20 [7] 0)) (demo_socket None 10)) =
      [WSendRoute (ToNode 2) (sock_meta 0) pkt] \<and>
    sw_queue (sw_on_input (WNetwork (from_in 0 5) (to_incoming (sock_meta 0) 1) pkt) (demo_socket (Some (1, 10)) 20)) = []"
  using socket_datagram [of "demo_socket None 10" 10 "\<lparr>se_target = None, se_actor = ActorService 1\<rparr>" "ActorService 1"
      "demo_socket (Some (1, 10)) 20" 20 "\<lparr>se_target = Some (1, 10), se_actor = ActorService 1\<rparr>" 2 "[7]" 0 "from_in 0 5" 1]
  by (simp add: demo_socket_def sw_default_def)

end
