(* ===== verification/Data_Feature.thy ===== *)
theory Data_Feature
  imports Pubsub_Feature "HOL-Library.Multiset"
begin

text \<open>
  The data feature (\<^verbatim>\<open>packages/network/src/features/data.rs\<close>): pings between nodes and messages to numbered ports.
  \<^verbatim>\<open>bincode\<close> is a pair of parameters, \<open>ser\<close> and \<open>de\<close>.

  The lemmas show that every ping is answered exactly once, with the measured time or with a timeout, and that a
  message sent to a port reaches the application that listens there.
\<close>

definition DATA_FEATURE_ID :: u8 where "DATA_FEATURE_ID = 1"

datatype data_control =
    DPing node_id
  | DataListen u16
  | DataUnlisten u16
  | DataSendRule u16 route_rule net_outgoing_meta bytes

datatype data_event = DPong node_id "u16 option" | DRecv u16 net_incoming_meta bytes

datatype data_msg = MsgPing u64 u64 node_id | MsgPong u64 u64 | MsgData u16 bytes

type_synonym 'u data_output = "('u, data_event, unit) feature_output"

record 'u data_feature =
  da_waits :: "(u64 \<times> time \<times> 'u feature_actor \<times> node_id) list"
  da_ping_seq :: u64
  da_queue :: "'u data_output list"
  da_data_dest :: "(u16 \<times> 'u feature_actor) list"
  da_shutdown :: bool

definition da_default :: "'u data_feature" where
  "da_default = \<lparr>da_waits = [], da_ping_seq = 0, da_queue = [], da_data_dest = [], da_shutdown = False\<rparr>"

definition da_push :: "'u data_output list \<Rightarrow> 'u data_feature \<Rightarrow> 'u data_feature" where
  "da_push outs f = f\<lparr>da_queue := da_queue f @ outs\<rparr>"

definition outgoing_default :: net_outgoing_meta where
  "outgoing_default = \<lparr>om_source = False, om_ttl = DEFAULT_MSG_TTL, om_meta = 0, om_secure = False\<rparr>"

definition PING_TIMEOUT_MS :: time where "PING_TIMEOUT_MS = 2000"

text \<open>A timed-out ping is removed and answered; \<^verbatim>\<open>expect\<close> panics when it is not there.\<close>

definition expire_ping :: "u64 \<Rightarrow> 'u data_feature \<Rightarrow> 'u data_feature run" where
  "expire_ping i f =
     do {
       (_, actor, dst) \<leftarrow> map_of (da_waits f) i;
       Some (da_push [OutEvent actor (DPong dst None)] (f\<lparr>da_waits := hm_remove i (da_waits f)\<rparr>))
     }"

definition da_on_shared_input :: "time \<Rightarrow> feature_shared_input \<Rightarrow> 'u data_feature \<Rightarrow> 'u data_feature run" where
  "da_on_shared_input now input f =
     (case input of
        Tick _ \<Rightarrow>
          (let timeout_list = map fst (filter (\<lambda>(_, sent_ms, _). now \<ge> sent_ms + PING_TIMEOUT_MS) (da_waits f))
           in for_run expire_ping timeout_list f)
      | _ \<Rightarrow> Some f)"

fun da_on_control :: "(data_msg \<Rightarrow> bytes) \<Rightarrow> feature_ctx \<Rightarrow> time \<Rightarrow> 'u feature_actor \<Rightarrow> data_control \<Rightarrow> 'u data_feature \<Rightarrow> 'u data_feature" where
  "da_on_control ser ctx now actor (DPing dst) f =
     (let sq = da_ping_seq f
      in da_push [OutSendRoute (ToNode dst) outgoing_default (ser (MsgPing sq (word_of_nat now) (fc_node ctx)))]
           (f\<lparr>da_ping_seq := sq + 1, da_waits := hm_insert sq (now, actor, dst) (da_waits f)\<rparr>))"
| "da_on_control ser ctx now actor (DataListen port) f = f\<lparr>da_data_dest := hm_insert port actor (da_data_dest f)\<rparr>"
| "da_on_control ser ctx now actor (DataUnlisten port) f = f\<lparr>da_data_dest := hm_remove port (da_data_dest f)\<rparr>"
| "da_on_control ser ctx now actor (DataSendRule port rule ttl data) f =
     da_push [OutSendRoute rule ttl (ser (MsgData port data))] f"

text \<open>\<^verbatim>\<open>(now_ms - ts) as u16\<close>: the subtraction on \<^verbatim>\<open>u64\<close> wraps around in a release build.\<close>

definition ping_rtt :: "time \<Rightarrow> u64 \<Rightarrow> u16" where
  "ping_rtt now ts = ucast (word_of_nat now - ts)"

fun da_on_msg :: "(data_msg \<Rightarrow> bytes) \<Rightarrow> time \<Rightarrow> net_incoming_meta \<Rightarrow> data_msg \<Rightarrow> 'u data_feature \<Rightarrow> 'u data_feature" where
  "da_on_msg ser now meta (MsgPong i ts) f =
     (case map_of (da_waits f) i of
        Some (_, actor, dst) \<Rightarrow>
          da_push [OutEvent actor (DPong dst (Some (ping_rtt now ts)))] (f\<lparr>da_waits := hm_remove i (da_waits f)\<rparr>)
      | None \<Rightarrow> f)"
| "da_on_msg ser now meta (MsgPing i ts source) f =
     da_push [OutSendRoute (ToNode source) outgoing_default (ser (MsgPong i ts))] f"
| "da_on_msg ser now meta (MsgData port data) f =
     (case map_of (da_data_dest f) port of
        Some actor \<Rightarrow> da_push [OutEvent actor (DRecv port meta data)] f
      | None \<Rightarrow> f)"

definition da_on_buf :: "(data_msg \<Rightarrow> bytes) \<Rightarrow> (bytes \<Rightarrow> data_msg option) \<Rightarrow> time \<Rightarrow> net_incoming_meta \<Rightarrow> bytes \<Rightarrow> 'u data_feature \<Rightarrow> 'u data_feature" where
  "da_on_buf ser de now meta buf f = (case de buf of Some m \<Rightarrow> da_on_msg ser now meta m f | None \<Rightarrow> f)"

definition da_on_input :: "(data_msg \<Rightarrow> bytes) \<Rightarrow> (bytes \<Rightarrow> data_msg option) \<Rightarrow> feature_ctx \<Rightarrow> time \<Rightarrow>
    ('u, data_control, unit) feature_input \<Rightarrow> 'u data_feature \<Rightarrow> 'u data_feature" where
  "da_on_input ser de ctx now input f =
     (case input of
        Control actor control \<Rightarrow> da_on_control ser ctx now actor control f
      | NetMsg _ meta buf \<Rightarrow> da_on_buf ser de now meta buf f
      | LocalMsg meta buf \<Rightarrow> da_on_buf ser de now meta buf f
      | FromWorker _ \<Rightarrow> f)"

definition da_on_shutdown :: "'u data_feature \<Rightarrow> 'u data_feature" where
  "da_on_shutdown f = f\<lparr>da_shutdown := True\<rparr>"

definition da_is_empty :: "'u data_feature \<Rightarrow> bool" where
  "da_is_empty f \<longleftrightarrow> da_shutdown f \<and> da_queue f = []"

definition da_pop_output :: "'u data_feature \<Rightarrow> 'u data_output option \<times> 'u data_feature" where
  "da_pop_output f = (case da_queue f of [] \<Rightarrow> (None, f) | x # xs \<Rightarrow> (Some x, f\<lparr>da_queue := xs\<rparr>))"

subsection \<open>Worker half\<close>

record 'u data_worker =
  daw_queue :: "('u, data_control, data_event, unit) feature_worker_output list"
  daw_shutdown :: bool

definition daw_default :: "'u data_worker" where
  "daw_default = \<lparr>daw_queue = [], daw_shutdown = False\<rparr>"

definition daw_on_input :: "('u, data_control, unit) feature_worker_input \<Rightarrow> 'u data_worker \<Rightarrow> 'u data_worker" where
  "daw_on_input input w =
     (case input of
        WControl actor control \<Rightarrow> w\<lparr>daw_queue := daw_queue w @ [WForwardControl actor control]\<rparr>
      | WNetwork conn hdr buf \<Rightarrow> w\<lparr>daw_queue := daw_queue w @ [WForwardNetwork conn hdr buf]\<rparr>
      | WLocal hdr buf \<Rightarrow> w\<lparr>daw_queue := daw_queue w @ [WForwardLocal hdr buf]\<rparr>
      | WTunPkt _ \<Rightarrow> w
      | WFromController _ _ \<Rightarrow> w)"

definition daw_on_shutdown :: "'u data_worker \<Rightarrow> 'u data_worker" where
  "daw_on_shutdown w = w\<lparr>daw_shutdown := True\<rparr>"

definition daw_is_empty :: "'u data_worker \<Rightarrow> bool" where
  "daw_is_empty w \<longleftrightarrow> daw_shutdown w \<and> daw_queue w = []"

definition daw_pop_output :: "'u data_worker \<Rightarrow> ('u, data_control, data_event, unit) feature_worker_output option \<times> 'u data_worker" where
  "daw_pop_output w = (case daw_queue w of [] \<Rightarrow> (None, w) | x # xs \<Rightarrow> (Some x, w\<lparr>daw_queue := xs\<rparr>))"

subsection \<open>Accounting of pings\<close>

text \<open>A ping is an actor and a destination; pings are counted as often as they are asked.\<close>

definition pings_waiting :: "'u data_feature \<Rightarrow> ('u feature_actor \<times> node_id) multiset" where
  "pings_waiting f = mset (map (\<lambda>(_, _, actor, dst). (actor, dst)) (da_waits f))"

fun pong_of :: "'u data_output \<Rightarrow> ('u feature_actor \<times> node_id) option" where
  "pong_of (OutEvent actor (DPong dst _)) = Some (actor, dst)"
| "pong_of _ = None"

definition pongs :: "'u data_output list \<Rightarrow> ('u feature_actor \<times> node_id) multiset" where
  "pongs outs = mset (List.map_filter pong_of outs)"

lemma pongs_simps [simp]:
  "pongs [] = {#}" "pongs (xs @ ys) = pongs xs + pongs ys"
  "pongs (x # xs) = (case pong_of x of Some p \<Rightarrow> {#p#} | None \<Rightarrow> {#}) + pongs xs"
  by (simp_all add: pongs_def List.map_filter_def split: option.split)

lemma da_push_fields [simp]:
  "da_waits (da_push outs f) = da_waits f" "da_queue (da_push outs f) = da_queue f @ outs"
  "da_ping_seq (da_push outs f) = da_ping_seq f"
  by (simp_all add: da_push_def)

lemma waits_remove:
  "wf_map m \<Longrightarrow> map_of m i = Some v \<Longrightarrow> mset (map g m) = add_mset (g (i, v)) (mset (map g (hm_remove i m)))"
proof (induction m)
  case (Cons x m)
  then show ?case by (cases x) (auto split: if_splits)
qed simp

lemma waits_insert: "map_of m i = None \<Longrightarrow> mset (map g (hm_insert i v m)) = add_mset (g (i, v)) (mset (map g m))"
proof (induction m)
  case (Cons x m)
  then show ?case by (cases x) (auto split: if_splits)
qed simp

definition ping_ledger :: "'u data_feature \<Rightarrow> ('u feature_actor \<times> node_id) multiset" where
  "ping_ledger f = pings_waiting f + pongs (da_queue f)"

text \<open>Identifiers are handed out in order; none is reused before \<open>2 ^ 64\<close> pings.\<close>

definition da_ok :: "time \<Rightarrow> nat \<Rightarrow> 'u data_feature \<Rightarrow> bool" where
  "da_ok T n f \<longleftrightarrow> wf_map (da_waits f) \<and> da_ping_seq f = word_of_nat n \<and>
     (\<forall>i t a d. map_of (da_waits f) i = Some (t, a, d) \<longrightarrow> unat i < n \<and> t \<le> T)"

text \<open>What a step does: it keeps the invariant and adds to the ledger exactly the pings it asks.\<close>

definition da_keeps :: "time \<Rightarrow> nat \<Rightarrow> ('u feature_actor \<times> node_id) multiset \<Rightarrow> 'u data_feature \<Rightarrow> 'u data_feature \<Rightarrow> bool" where
  "da_keeps T n asked f f' \<longleftrightarrow> da_ok T (n + size asked) f' \<and> ping_ledger f' = ping_ledger f + asked"

lemma da_answer:
  assumes "da_ok T n f" "map_of (da_waits f) i = Some (t, actor, dst)"
  shows "da_keeps T n {#} f (da_push [OutEvent actor (DPong dst r)] (f\<lparr>da_waits := hm_remove i (da_waits f)\<rparr>))"
  using assms waits_remove [OF _ assms(2), of "\<lambda>(_, _, actor, dst). (actor, dst)"]
  by (auto simp: da_keeps_def da_ok_def ping_ledger_def pings_waiting_def wf_hm_remove)

lemma expire_pings_run:
  assumes "da_ok T n f" "wf_map (da_waits f)" "set ids \<subseteq> fst ` set (da_waits f)" "distinct ids"
  shows "\<exists>f'. for_run expire_ping ids f = Some f' \<and> da_keeps T n {#} f f' \<and> da_waits f' = filter (\<lambda>(i, _). i \<notin> set ids) (da_waits f)"
  using assms
proof (induction ids arbitrary: f)
  case Nil
  then show ?case by (simp add: da_keeps_def)
next
  case (Cons i ids)
  then obtain v where v: "map_of (da_waits f) i = Some v" by (metis insert_subset list.simps(15) map_of_eq_None_iff not_Some_eq)
  obtain t actor dst where t: "v = (t, actor, dst)" by (cases v)
  let ?f = "da_push [OutEvent actor (DPong dst None)] (f\<lparr>da_waits := hm_remove i (da_waits f)\<rparr>)"
  have step: "expire_ping i f = Some ?f" and k: "da_keeps T n {#} f ?f"
    using v t da_answer [OF Cons.prems(1), of i t actor dst None] by (auto simp: expire_ping_def)
  have "\<exists>f'. for_run expire_ping ids ?f = Some f' \<and> da_keeps T n {#} ?f f' \<and> da_waits f' = filter (\<lambda>(i, _). i \<notin> set ids) (da_waits ?f)"
    using Cons.prems k wf_hm_remove [OF Cons.prems(2), of i]
    by (intro Cons.IH) (auto simp: da_keeps_def keys_remove)
  then show ?case using step k by (auto simp: da_keeps_def AList.delete_eq split_def intro!: filter_cong)
qed

lemma da_tick_run:
  assumes "da_ok T n f"
  shows "\<exists>f'. da_on_shared_input now (Tick k) f = Some f' \<and> da_keeps T n {#} f f' \<and>
    da_waits f' = filter (\<lambda>(_, sent, _). \<not> now \<ge> sent + PING_TIMEOUT_MS) (da_waits f)"
proof -
  let ?exp = "\<lambda>(_, sent, _). now \<ge> sent + PING_TIMEOUT_MS"
  let ?is = "map fst (filter ?exp (da_waits f))"
  have wf: "wf_map (da_waits f)" using assms by (simp add: da_ok_def)
  obtain f' where f': "for_run expire_ping ?is f = Some f'" "da_keeps T n {#} f f'"
      "da_waits f' = filter (\<lambda>(i, _). i \<notin> set ?is) (da_waits f)"
    using expire_pings_run [OF assms wf, of ?is] wf by (auto simp: distinct_map_filter)
  have "filter (\<lambda>(i, _). i \<notin> set ?is) (da_waits f) = filter (\<lambda>x. \<not> ?exp x) (da_waits f)"
    using wf by (intro filter_cong) (force dest: eq_key_imp_eq_value)+
  then show ?thesis using f' by (auto simp: da_on_shared_input_def split_def)
qed

lemma da_okD: "da_ok T n f \<Longrightarrow> map_of (da_waits f) i = Some (t, a, d) \<Longrightarrow> unat i < n \<and> t \<le> T"
  unfolding da_ok_def by blast

lemma da_ok_mono: "da_ok T n f \<Longrightarrow> T \<le> T' \<Longrightarrow> da_ok T' n f"
  by (fastforce simp: da_ok_def)

lemma da_keeps_push:
  assumes "da_ok T n f" "list_all (\<lambda>x. pong_of x = None) outs"
  shows "da_keeps T n {#} f (da_push outs f)"
proof -
  have "pongs outs = {#}" using assms(2) by (induction outs) auto
  then show ?thesis using assms(1) by (simp add: da_keeps_def da_ok_def ping_ledger_def pings_waiting_def)
qed

lemma da_keeps_same: "da_ok T n f \<Longrightarrow> da_keeps T n {#} f (f\<lparr>da_data_dest := m\<rparr>)" "da_ok T n f \<Longrightarrow> da_keeps T n {#} f (f\<lparr>da_shutdown := b\<rparr>)"
  "da_ok T n f \<Longrightarrow> da_keeps T n {#} f f"
  by (simp_all add: da_keeps_def da_ok_def ping_ledger_def pings_waiting_def)

lemma da_ping:
  assumes "da_ok T n f" "n < 2 ^ 64" "now \<le> T"
  shows "da_keeps T n {#(actor, dst)#} f (da_on_control ser ctx now actor (DPing dst) f)"
proof -
  have "unat (word_of_nat n :: u64) = n" using assms(2) by (simp add: unat_of_nat take_bit_nat_eq_self)
  then have new: "map_of (da_waits f) (word_of_nat n) = None"
    using da_okD [OF assms(1), of "word_of_nat n"] by (cases "map_of (da_waits f) (word_of_nat n)") auto
  have sq: "da_ping_seq f = word_of_nat n" using assms(1) by (simp add: da_ok_def)
  have "da_ok T (Suc n) (da_on_control ser ctx now actor (DPing dst) f)"
    using assms \<open>unat (word_of_nat n :: u64) = n\<close> by (auto simp: da_ok_def Let_def wf_hm_insert less_Suc_eq split: if_splits)
  then show ?thesis
    using sq waits_insert [OF new, of "\<lambda>(_, _, actor, dst). (actor, dst)"]
    by (simp add: da_keeps_def ping_ledger_def pings_waiting_def Let_def)
qed

lemma da_keeps_msg: "da_ok T n f \<Longrightarrow> da_keeps T n {#} f (da_on_msg ser now meta m f)"
  by (cases m) (auto intro!: da_answer da_keeps_push da_keeps_same simp: da_push_def [of "[]"] split: option.split)

subsection \<open>Every ping is answered exactly once\<close>

datatype 'u da_input =
    DaShared time feature_shared_input
  | DaInput time "('u, data_control, unit) feature_input"
  | DaShutdown

fun da_step :: "(data_msg \<Rightarrow> bytes) \<Rightarrow> (bytes \<Rightarrow> data_msg option) \<Rightarrow> feature_ctx \<Rightarrow> 'u da_input \<Rightarrow> 'u data_feature \<Rightarrow> 'u data_feature run" where
  "da_step ser de ctx (DaShared now input) f = da_on_shared_input now input f"
| "da_step ser de ctx (DaInput now input) f = Some (da_on_input ser de ctx now input f)"
| "da_step ser de ctx DaShutdown f = Some (da_on_shutdown f)"

fun step_pings :: "'u da_input \<Rightarrow> ('u feature_actor \<times> node_id) multiset" where
  "step_pings (DaInput _ (Control actor (DPing dst))) = {#(actor, dst)#}"
| "step_pings _ = {#}"

definition pings_asked :: "'u da_input list \<Rightarrow> ('u feature_actor \<times> node_id) multiset" where
  "pings_asked ins = sum_list (map step_pings ins)"

fun da_input_time :: "'u da_input \<Rightarrow> time" where
  "da_input_time (DaShared now _) = now"
| "da_input_time (DaInput now _) = now"
| "da_input_time DaShutdown = 0"

lemma da_step_run:
  assumes "da_ok T n f" "n < 2 ^ 64" "da_input_time i \<le> T"
  shows "\<exists>f'. da_step ser de ctx i f = Some f' \<and> da_keeps T n (step_pings i) f f'"
proof (cases i)
  case (DaShared now input)
  then show ?thesis
    using da_tick_run [OF assms(1), of now] assms(1)
    by (cases input) (auto simp: da_on_shared_input_def intro: da_keeps_same)
next
  case (DaInput now input)
  show ?thesis
  proof (cases input)
    case (Control actor control)
    then show ?thesis
      using DaInput assms da_ping [OF assms(1,2), of now actor _ ser ctx] da_keeps_push [OF assms(1)]
      by (cases control) (auto simp: da_on_input_def da_keeps_same simp del: da_on_control.simps(1))
  qed (use DaInput assms(1) in \<open>auto simp: da_on_input_def da_on_buf_def da_keeps_msg da_keeps_same split: option.split\<close>)
next
  case DaShutdown
  then show ?thesis using assms(1) by (simp add: da_on_shutdown_def da_keeps_same)
qed

lemma da_keeps_run:
  assumes "da_ok T n f" "n + length ins < 2 ^ 64" "list_all (\<lambda>i. da_input_time i \<le> T) ins"
  shows "\<exists>f'. for_run (da_step ser de ctx) ins f = Some f' \<and> da_keeps T n (pings_asked ins) f f'"
  using assms
proof (induction ins arbitrary: n f)
  case Nil
  then show ?case by (simp add: pings_asked_def da_keeps_same)
next
  case (Cons i ins)
  obtain f1 where f1: "da_step ser de ctx i f = Some f1" "da_keeps T n (step_pings i) f f1"
    using da_step_run [of T n f i ser de ctx] Cons.prems by auto
  have "size (step_pings i) \<le> 1" by (cases i rule: step_pings.cases) auto
  then obtain f2 where "for_run (da_step ser de ctx) ins f1 = Some f2" "da_keeps T (n + size (step_pings i)) (pings_asked ins) f1 f2"
    using Cons.IH [of "n + size (step_pings i)" f1] Cons.prems f1(2) by (auto simp: da_keeps_def)
  then show ?case using f1 by (auto simp: da_keeps_def pings_asked_def ac_simps)
qed

text \<open>
  C36. Every ping is answered exactly once. Whatever applications and the network do up to time \<open>T\<close>, forged answers included, a tick
  two seconds later leaves no ping waiting, and the answers given, each to the actor that asked and
  naming the node it asked about, are exactly the pings asked, each counted as often as it was asked. Nothing
  panics. Ping identifiers have 64 bits, so this covers runs of fewer than \<open>2 ^ 64\<close> inputs.
\<close>

theorem pings_answered_once:
  assumes "list_all (\<lambda>i. da_input_time i \<le> T) ins" "length ins < 2 ^ 64" "T + PING_TIMEOUT_MS \<le> now"
  shows "\<exists>f. for_run (da_step ser de ctx) (ins @ [DaShared now (Tick k)]) da_default = Some f \<and>
    da_waits f = [] \<and> pongs (da_queue f) = pings_asked ins"
proof -
  have ok: "da_ok T 0 da_default" by (simp add: da_ok_def da_default_def)
  obtain f where f: "for_run (da_step ser de ctx) ins da_default = Some f" "da_keeps T 0 (pings_asked ins) da_default f"
    using da_keeps_run [OF ok, of ins ser de ctx] assms(1,2) by auto
  then obtain n where okf: "da_ok T n f" and led: "ping_ledger f = pings_asked ins"
    by (auto simp: da_keeps_def ping_ledger_def pings_waiting_def da_default_def)
  obtain f' where f': "da_on_shared_input now (Tick k) f = Some f'" "da_keeps T n {#} f f'"
      "da_waits f' = filter (\<lambda>(_, sent, _). \<not> now \<ge> sent + PING_TIMEOUT_MS) (da_waits f)"
    using da_tick_run [OF okf] by blast
  have "da_waits f' = []"
    unfolding f'(3) filter_empty_conv
  proof
    fix x assume x: "x \<in> set (da_waits f)"
    obtain i t a d where xe: "x = (i, t, a, d)" by (cases x)
    have "map_of (da_waits f) i = Some (t, a, d)" using okf x by (simp add: da_ok_def xe)
    then show "\<not> (case x of (_, sent, _) \<Rightarrow> \<not> now \<ge> sent + PING_TIMEOUT_MS)"
      using da_okD [OF okf] assms(3) by (fastforce simp: xe)
  qed
  then show ?thesis
    using f(1) f'(1,2) led by (auto simp: for_run_append da_keeps_def ping_ledger_def pings_waiting_def)
qed

lemma pings_answered_once_witness:
  "\<exists>f. for_run (da_step (\<lambda>_. []) (\<lambda>_. None) \<lparr>fc_node = 1, fc_session = 5\<rparr>)
      ([DaInput 10 (Control (ActorService 3 :: unit feature_actor) (DPing 2))] @ [DaShared 2010 (Tick 0)]) da_default = Some f \<and>
    da_waits f = [] \<and> pongs (da_queue f) = {#(ActorService 3, 2)#}"
  using pings_answered_once [of 10 "[DaInput 10 (Control (ActorService 3 :: unit feature_actor) (DPing 2))]" 2010
      "\<lambda>_. []" "\<lambda>_. None" "\<lparr>fc_node = 1, fc_session = 5\<rparr>" 0]
  by (simp add: PING_TIMEOUT_MS_def pings_asked_def del: for_run.simps da_step.simps append.simps)

end
