(* ===== verification/Neighbours_Api.thy ===== *)
theory Neighbours_Api
  imports Pubsub_Feature
begin

text \<open>
  Two small features: the neighbours interface (\<^verbatim>\<open>packages/network/src/features/neighbours.rs\<close>), which reports connections
  to its subscribers and passes on requests to connect, and the virtual private network (\<^verbatim>\<open>features/vpn.rs\<close>, built
  with its \<^verbatim>\<open>vpn\<close> feature for Linux), which carries packets of the local tunnel device.
\<close>

definition NEIGHBOURS_FEATURE_ID :: u8 where "NEIGHBOURS_FEATURE_ID = 0"

datatype nb_control = NbSub | NbUnSub | NbConnectTo node_addr | NbDisconnectFrom node_id

datatype nb_event = NbConnected node_id conn_id | NbDisconnected node_id conn_id

type_synonym 'u nb_output = "('u, nb_event, unit) feature_output"

record 'u nb_feature =
  nf_subs :: "'u feature_actor list"
  nf_output :: "'u nb_output list"
  nf_shutdown :: bool

definition nf_default :: "'u nb_feature" where
  "nf_default = \<lparr>nf_subs = [], nf_output = [], nf_shutdown = False\<rparr>"

definition nf_push :: "'u nb_output list \<Rightarrow> 'u nb_feature \<Rightarrow> 'u nb_feature" where
  "nf_push outs f = f\<lparr>nf_output := nf_output f @ outs\<rparr>"

definition nf_on_shared_input :: "feature_shared_input \<Rightarrow> 'u nb_feature \<Rightarrow> 'u nb_feature" where
  "nf_on_shared_input input f =
     (case input of
        Connection (Connected cx) \<Rightarrow> nf_push (map (\<lambda>sub. OutEvent sub (NbConnected (cx_node cx) (cx_conn cx))) (nf_subs f)) f
      | Connection (Disconnected cx) \<Rightarrow> nf_push (map (\<lambda>sub. OutEvent sub (NbDisconnected (cx_node cx) (cx_conn cx))) (nf_subs f)) f
      | _ \<Rightarrow> f)"

fun nf_on_control :: "'u feature_actor \<Rightarrow> nb_control \<Rightarrow> 'u nb_feature \<Rightarrow> 'u nb_feature" where
  "nf_on_control actor NbSub f = (if actor \<in> set (nf_subs f) then f else f\<lparr>nf_subs := nf_subs f @ [actor]\<rparr>)"
| "nf_on_control actor NbUnSub f =
     (case Pubsub_Msg.position (\<lambda>x. x = actor) (nf_subs f) of
        Some pos \<Rightarrow> f\<lparr>nf_subs := swap_remove pos (nf_subs f)\<rparr>
      | None \<Rightarrow> f)"
| "nf_on_control actor (NbConnectTo addr) f = nf_push [OutConnectTo addr] f"
| "nf_on_control actor (NbDisconnectFrom n) f = nf_push [OutDisconnectFrom n] f"

definition nf_on_input :: "('u, nb_control, unit) feature_input \<Rightarrow> 'u nb_feature \<Rightarrow> 'u nb_feature" where
  "nf_on_input input f = (case input of Control actor control \<Rightarrow> nf_on_control actor control f | _ \<Rightarrow> f)"

definition nf_on_shutdown :: "'u nb_feature \<Rightarrow> 'u nb_feature" where
  "nf_on_shutdown f = f\<lparr>nf_shutdown := True\<rparr>"

definition nf_is_empty :: "'u nb_feature \<Rightarrow> bool" where
  "nf_is_empty f \<longleftrightarrow> nf_shutdown f \<and> nf_output f = []"

definition nf_pop_output :: "'u nb_feature \<Rightarrow> 'u nb_output option \<times> 'u nb_feature" where
  "nf_pop_output f = (case nf_output f of [] \<Rightarrow> (None, f) | x # xs \<Rightarrow> (Some x, f\<lparr>nf_output := xs\<rparr>))"

record 'u nb_worker =
  nw_queue :: "('u, nb_control, nb_event, unit) feature_worker_output list"
  nw_shutdown :: bool

definition nw_default :: "'u nb_worker" where
  "nw_default = \<lparr>nw_queue = [], nw_shutdown = False\<rparr>"

definition nw_on_input :: "('u, nb_control, unit) feature_worker_input \<Rightarrow> 'u nb_worker \<Rightarrow> 'u nb_worker" where
  "nw_on_input input w =
     (case input of
        WControl actor control \<Rightarrow> w\<lparr>nw_queue := nw_queue w @ [WForwardControl actor control]\<rparr>
      | WNetwork conn hdr buf \<Rightarrow> w\<lparr>nw_queue := nw_queue w @ [WForwardNetwork conn hdr buf]\<rparr>
      | WLocal hdr buf \<Rightarrow> w\<lparr>nw_queue := nw_queue w @ [WForwardLocal hdr buf]\<rparr>
      | WTunPkt _ \<Rightarrow> w
      | WFromController _ _ \<Rightarrow> w)"

definition nw_on_shutdown :: "'u nb_worker \<Rightarrow> 'u nb_worker" where
  "nw_on_shutdown w = w\<lparr>nw_shutdown := True\<rparr>"

definition nw_is_empty :: "'u nb_worker \<Rightarrow> bool" where
  "nw_is_empty w \<longleftrightarrow> nw_shutdown w \<and> nw_queue w = []"

definition nw_pop_output :: "'u nb_worker \<Rightarrow> ('u, nb_control, nb_event, unit) feature_worker_output option \<times> 'u nb_worker" where
  "nw_pop_output w = (case nw_queue w of [] \<Rightarrow> (None, w) | x # xs \<Rightarrow> (Some x, w\<lparr>nw_queue := xs\<rparr>))"

subsection \<open>Virtual private network\<close>

text \<open>The control and event types of this feature are empty, those of the others that have none are \<open>unit\<close>; here both are \<open>unit\<close>.\<close>

definition VPN_FEATURE_ID :: u8 where "VPN_FEATURE_ID = 3"

record vpn_feature =
  vf_shutdown :: bool

definition vf_on_shutdown :: "vpn_feature \<Rightarrow> vpn_feature" where
  "vf_on_shutdown f = f\<lparr>vf_shutdown := True\<rparr>"

record 'u vpn_worker =
  vw_queue :: "('u, unit, unit, unit) feature_worker_output list"
  vw_shutdown :: bool

definition vw_default :: "'u vpn_worker" where
  "vw_default = \<lparr>vw_queue = [], vw_shutdown = False\<rparr>"

text \<open>Both index the packet, and panic when it is too short.\<close>

definition rewrite_tun_pkt :: "bytes \<Rightarrow> bytes run" where
  "rewrite_tun_pkt payload = (if length payload < 4 then None else Some (payload[2 := 8, 3 := 0]))"

definition process_tun :: "node_id \<Rightarrow> net_pair shadow_router \<Rightarrow> bytes \<Rightarrow> 'u vpn_worker \<Rightarrow> 'u vpn_worker run" where
  "process_tun n router pkt w =
     (if length pkt < 20 then None
      else
        (let dst = build (geo1 n) (geo2 n) (group n) (pkt ! 19) in
         if dst = n then do {
           pkt1 \<leftarrow> rewrite_tun_pkt pkt;
           Some (w\<lparr>vw_queue := vw_queue w @ [WOutTunPkt pkt1]\<rparr>)
         }
         else do {
           action \<leftarrow> sr_path_to_node router dst;
           (case action of
              Next remote \<Rightarrow> do {
                m \<leftarrow> msg_build (replicate (serialize_size (header_build VPN_FEATURE_ID 0 (ToNode dst))) 0) VPN_FEATURE_ID 0 (ToNode dst) pkt;
                Some (w\<lparr>vw_queue := vw_queue w @ [WRawDirect2 remote (tm_buffer m)]\<rparr>)
              }
            | _ \<Rightarrow> Some w)
         }))"

definition process_udp :: "bytes \<Rightarrow> 'u vpn_worker \<Rightarrow> 'u vpn_worker" where
  "process_udp pkt w = w\<lparr>vw_queue := vw_queue w @ [WOutTunPkt pkt]\<rparr>"

definition vw_on_input :: "node_id \<Rightarrow> net_pair shadow_router \<Rightarrow> ('u, unit, unit) feature_worker_input \<Rightarrow> 'u vpn_worker \<Rightarrow> 'u vpn_worker run" where
  "vw_on_input n router input w =
     (case input of
        WTunPkt pkt \<Rightarrow> process_tun n router pkt w
      | WNetwork _ _ pkt \<Rightarrow> Some (process_udp pkt w)
      | _ \<Rightarrow> Some w)"

definition vw_on_shutdown :: "'u vpn_worker \<Rightarrow> 'u vpn_worker" where
  "vw_on_shutdown w = w\<lparr>vw_shutdown := True\<rparr>"

definition vw_is_empty :: "'u vpn_worker \<Rightarrow> bool" where
  "vw_is_empty w \<longleftrightarrow> vw_shutdown w \<and> vw_queue w = []"

definition vw_pop_output :: "'u vpn_worker \<Rightarrow> ('u, unit, unit, unit) feature_worker_output option \<times> 'u vpn_worker" where
  "vw_pop_output w = (case vw_queue w of [] \<Rightarrow> (None, w) | x # xs \<Rightarrow> (Some x, w\<lparr>vw_queue := xs\<rparr>))"

subsection \<open>Packets that the tunnel accepts\<close>

lemma vpn_build_run:
  "\<exists>m. msg_build (replicate (serialize_size (header_build VPN_FEATURE_ID 0 (ToNode dst))) 0) VPN_FEATURE_ID 0 (ToNode dst) pkt = Some m"
proof -
  let ?h = "set_route (set_meta (set_feature header_new VPN_FEATURE_ID) 0) (ToNode dst)"
  have "serialize_size ?h = serialize_size (header_build VPN_FEATURE_ID 0 (ToNode dst))" "h_version ?h = 0"
    by (simp_all add: serialize_size_def header_build_def set_route_def set_meta_def set_feature_def header_new_def)
  then show ?thesis
    using to_bytes_exact [of ?h "replicate (serialize_size ?h) 0"] by (auto simp: msg_build_def Let_def)
qed

lemma sr_paths_run:
  assumes "wf_shadow r"
  shows "\<exists>a. sr_path_to_node r dst = Some a" "\<exists>a. sr_path_to_key r key = Some a"
  using sr_queries_run(1) [OF assms, of dst] sr_queries_run(2) [OF assms, of key]
  by (auto simp: sr_path_to_node_def sr_path_to_key_def split: option.split)

lemma vpn_worker_run:
  assumes "wf_shadow router" "\<And>pkt. input = WTunPkt pkt \<Longrightarrow> 20 \<le> length pkt"
  shows "\<exists>w'. vw_on_input n router input w = Some w'"
proof (cases input)
  case (WTunPkt pkt)
  let ?dst = "build (geo1 n) (geo2 n) (group n) (pkt ! 19)"
  obtain action where a: "sr_path_to_node router ?dst = Some action" using sr_paths_run [OF assms(1)] by blast
  obtain m where "msg_build (replicate (serialize_size (header_build VPN_FEATURE_ID 0 (ToNode ?dst))) 0) VPN_FEATURE_ID 0 (ToNode ?dst) pkt = Some m"
    using vpn_build_run by blast
  then show ?thesis
    using assms(2) [OF WTunPkt] a
    by (cases action) (simp_all add: WTunPkt vw_on_input_def process_tun_def rewrite_tun_pkt_def Let_def)
qed (simp_all add: vw_on_input_def)

end
