(* ===== verification/Feature_Manager.thy ===== *)
theory Feature_Manager
  imports Router_Sync Dht_Kv Alias Pubsub_Worker Socket_Feature Data_Feature Neighbours_Api
begin

text \<open>
  The eight features together (\<^verbatim>\<open>packages/network/src/features/mod.rs\<close>) and the manager of their worker halves
  (\<^verbatim>\<open>data_plane/features.rs\<close>), which hands every input to the feature it is for.

  The task switcher of the runtime library only decides which feature is asked for output next; that choice is an argument of
  \<open>fwm_pop_output\<close>.
\<close>

datatype features = FNeighbours | FData | FRouterSync | FVpn | FDhtKv | FPubSub | FAlias | FSocket

fun feature_id :: "features \<Rightarrow> u8" where
  "feature_id FNeighbours = 0"
| "feature_id FData = 1"
| "feature_id FRouterSync = 2"
| "feature_id FVpn = 3"
| "feature_id FDhtKv = 4"
| "feature_id FPubSub = 5"
| "feature_id FAlias = 6"
| "feature_id FSocket = 7"

definition all_features :: "features list" where
  "all_features = [FNeighbours, FData, FRouterSync, FVpn, FDhtKv, FPubSub, FAlias, FSocket]"

text \<open>\<^verbatim>\<open>TryFromPrimitive\<close>.\<close>

definition feature_of_u8 :: "u8 \<Rightarrow> features option" where
  "feature_of_u8 v = find (\<lambda>f. feature_id f = v) all_features"

datatype features_control =
    FcNeighbours nb_control
  | FcData data_control
  | FcRouterSync rsf_control
  | FcVpn unit
  | FcDhtKv kv_control
  | FcPubSub ps_control
  | FcAlias alias_control
  | FcSocket sock_control

fun control_to_feature :: "features_control \<Rightarrow> features" where
  "control_to_feature (FcNeighbours _) = FNeighbours"
| "control_to_feature (FcData _) = FData"
| "control_to_feature (FcRouterSync _) = FRouterSync"
| "control_to_feature (FcVpn _) = FVpn"
| "control_to_feature (FcDhtKv _) = FDhtKv"
| "control_to_feature (FcPubSub _) = FPubSub"
| "control_to_feature (FcAlias _) = FAlias"
| "control_to_feature (FcSocket _) = FSocket"

datatype features_event =
    FeNeighbours nb_event
  | FeData data_event
  | FeRouterSync rsf_event
  | FeVpn unit
  | FeDhtKv kv_event
  | FePubSub ps_event
  | FeAlias alias_event
  | FeSocket sock_event

datatype features_to_controller =
    FtcNeighbours unit
  | FtcData unit
  | FtcRouterSync unit
  | FtcVpn unit
  | FtcDhtKv unit
  | FtcPubSub ps_to_controller
  | FtcAlias unit
  | FtcSocket unit

fun to_controller_feature :: "features_to_controller \<Rightarrow> features" where
  "to_controller_feature (FtcNeighbours _) = FNeighbours"
| "to_controller_feature (FtcData _) = FData"
| "to_controller_feature (FtcRouterSync _) = FRouterSync"
| "to_controller_feature (FtcVpn _) = FVpn"
| "to_controller_feature (FtcDhtKv _) = FDhtKv"
| "to_controller_feature (FtcPubSub _) = FPubSub"
| "to_controller_feature (FtcAlias _) = FAlias"
| "to_controller_feature (FtcSocket _) = FSocket"

datatype 'u features_to_worker =
    FtwNeighbours unit
  | FtwData unit
  | FtwRouterSync "net_pair shadow_delta"
  | FtwVpn unit
  | FtwDhtKv unit
  | FtwPubSub "'u ps_to_worker"
  | FtwAlias unit
  | FtwSocket "'u sock_to_worker"

fun to_worker_feature :: "'u features_to_worker \<Rightarrow> features" where
  "to_worker_feature (FtwNeighbours _) = FNeighbours"
| "to_worker_feature (FtwData _) = FData"
| "to_worker_feature (FtwRouterSync _) = FRouterSync"
| "to_worker_feature (FtwVpn _) = FVpn"
| "to_worker_feature (FtwDhtKv _) = FDhtKv"
| "to_worker_feature (FtwPubSub _) = FPubSub"
| "to_worker_feature (FtwAlias _) = FAlias"
| "to_worker_feature (FtwSocket _) = FSocket"

subsection \<open>Shutdown and output of the workers that only forward\<close>

definition rsw_on_shutdown :: "'u rsf_worker \<Rightarrow> 'u rsf_worker" where
  "rsw_on_shutdown w = w\<lparr>rsw_shutdown := True\<rparr>"

definition rsw_is_empty :: "'u rsf_worker \<Rightarrow> bool" where
  "rsw_is_empty w \<longleftrightarrow> rsw_shutdown w \<and> rsw_queue w = []"

definition rsw_pop_output :: "'u rsf_worker \<Rightarrow> ('u, rsf_control, rsf_event, unit) feature_worker_output option \<times> 'u rsf_worker" where
  "rsw_pop_output w = (case rsw_queue w of [] \<Rightarrow> (None, w) | x # xs \<Rightarrow> (Some x, w\<lparr>rsw_queue := xs\<rparr>))"

definition dw_on_shutdown :: "'u dht_worker \<Rightarrow> 'u dht_worker" where
  "dw_on_shutdown w = w\<lparr>dw_shutdown := True\<rparr>"

definition dw_pop_output :: "'u dht_worker \<Rightarrow> ('u, kv_control, kv_event, unit) feature_worker_output option \<times> 'u dht_worker" where
  "dw_pop_output w = (case dw_queue w of [] \<Rightarrow> (None, w) | x # xs \<Rightarrow> (Some x, w\<lparr>dw_queue := xs\<rparr>))"

definition aw_on_shutdown :: "'u alias_worker \<Rightarrow> 'u alias_worker" where
  "aw_on_shutdown w = w\<lparr>aw_shutdown := True\<rparr>"

definition aw_pop_output :: "'u alias_worker \<Rightarrow> ('u, alias_control, alias_event, unit) feature_worker_output option \<times> 'u alias_worker" where
  "aw_pop_output w = (case aw_queue w of [] \<Rightarrow> (None, w) | x # xs \<Rightarrow> (Some x, w\<lparr>aw_queue := xs\<rparr>))"

subsection \<open>The manager of the worker halves\<close>

type_synonym 'u features_worker_input = "('u, features_control, 'u features_to_worker) feature_worker_input"
type_synonym 'u features_worker_output = "('u, features_control, features_event, features_to_controller) feature_worker_output"

record 'u feature_worker_manager =
  fw_neighbours :: "'u nb_worker"
  fw_data :: "'u data_worker"
  fw_router_sync :: "'u rsf_worker"
  fw_vpn :: "'u vpn_worker"
  fw_dht_kv :: "'u dht_worker"
  fw_pubsub :: "'u ps_worker"
  fw_alias :: "'u alias_worker"
  fw_socket :: "'u sock_worker"
  fw_shutdown :: bool

definition fwm_new :: "'u feature_worker_manager" where
  "fwm_new =
     \<lparr>fw_neighbours = nw_default, fw_data = daw_default, fw_router_sync = \<lparr>rsw_queue = [], rsw_shutdown = False\<rparr>,
      fw_vpn = vw_default, fw_dht_kv = \<lparr>dw_queue = [], dw_shutdown = False\<rparr>, fw_pubsub = psw_default,
      fw_alias = \<lparr>aw_queue = [], aw_shutdown = False\<rparr>, fw_socket = sw_default, fw_shutdown = False\<rparr>"

text \<open>The context the workers share: the node and its router, which the router synchronisation updates.\<close>

record worker_ctx =
  wc_node :: node_id
  wc_router :: "net_pair shadow_router"

text \<open>The calls of \<^verbatim>\<open>on_input\<close> on the single features.\<close>

definition in_neighbours :: "('u, nb_control, unit) feature_worker_input \<Rightarrow> 'u feature_worker_manager \<Rightarrow> 'u feature_worker_manager" where
  "in_neighbours i m = m\<lparr>fw_neighbours := nw_on_input i (fw_neighbours m)\<rparr>"

definition in_data :: "('u, data_control, unit) feature_worker_input \<Rightarrow> 'u feature_worker_manager \<Rightarrow> 'u feature_worker_manager" where
  "in_data i m = m\<lparr>fw_data := daw_on_input i (fw_data m)\<rparr>"

definition in_router_sync :: "('u, rsf_control, net_pair shadow_delta) feature_worker_input \<Rightarrow>
    worker_ctx \<times> 'u feature_worker_manager \<Rightarrow> (worker_ctx \<times> 'u feature_worker_manager) run" where
  "in_router_sync i cm =
     do {
       (w, r) \<leftarrow> rsw_on_input (fw_router_sync (snd cm)) (wc_router (fst cm)) i;
       Some ((fst cm)\<lparr>wc_router := r\<rparr>, (snd cm)\<lparr>fw_router_sync := w\<rparr>)
     }"

definition in_vpn :: "('u, unit, unit) feature_worker_input \<Rightarrow> worker_ctx \<times> 'u feature_worker_manager \<Rightarrow>
    (worker_ctx \<times> 'u feature_worker_manager) run" where
  "in_vpn i cm =
     do {
       w \<leftarrow> vw_on_input (wc_node (fst cm)) (wc_router (fst cm)) i (fw_vpn (snd cm));
       Some (fst cm, (snd cm)\<lparr>fw_vpn := w\<rparr>)
     }"

definition in_dht_kv :: "('u, kv_control, unit) feature_worker_input \<Rightarrow> 'u feature_worker_manager \<Rightarrow> 'u feature_worker_manager" where
  "in_dht_kv i m = m\<lparr>fw_dht_kv := dw_on_input i (fw_dht_kv m)\<rparr>"

definition in_pubsub :: "(pubsub_message \<Rightarrow> bytes) \<Rightarrow> ('u, ps_control, 'u ps_to_worker) feature_worker_input \<Rightarrow>
    worker_ctx \<times> 'u feature_worker_manager \<Rightarrow> (worker_ctx \<times> 'u feature_worker_manager) run" where
  "in_pubsub ser i cm =
     do {
       w \<leftarrow> psw_on_input ser (wc_node (fst cm)) (wc_router (fst cm)) i (fw_pubsub (snd cm));
       Some (fst cm, (snd cm)\<lparr>fw_pubsub := w\<rparr>)
     }"

definition in_alias :: "('u, alias_control, unit) feature_worker_input \<Rightarrow> 'u feature_worker_manager \<Rightarrow> 'u feature_worker_manager" where
  "in_alias i m = m\<lparr>fw_alias := aw_on_input i (fw_alias m)\<rparr>"

definition in_socket :: "('u, sock_control, 'u sock_to_worker) feature_worker_input \<Rightarrow> 'u feature_worker_manager \<Rightarrow> 'u feature_worker_manager" where
  "in_socket i m = m\<lparr>fw_socket := sw_on_input i (fw_socket m)\<rparr>"

text \<open>An input that has the same form for every feature, such as a packet.\<close>

definition fwm_dispatch :: "(pubsub_message \<Rightarrow> bytes) \<Rightarrow> (conn_id \<times> net_incoming_meta \<times> bytes) + (net_incoming_meta \<times> bytes) \<Rightarrow> features \<Rightarrow>
    worker_ctx \<times> 'u feature_worker_manager \<Rightarrow> (worker_ctx \<times> 'u feature_worker_manager) run" where
  "fwm_dispatch ser pkt feature cm =
     (let c = fst cm; m = snd cm in
      case pkt of
        Inl (conn, meta, buf) \<Rightarrow>
          (case feature of
             FNeighbours \<Rightarrow> Some (c, in_neighbours (WNetwork conn meta buf) m)
           | FData \<Rightarrow> Some (c, in_data (WNetwork conn meta buf) m)
           | FRouterSync \<Rightarrow> in_router_sync (WNetwork conn meta buf) cm
           | FVpn \<Rightarrow> in_vpn (WNetwork conn meta buf) cm
           | FDhtKv \<Rightarrow> Some (c, in_dht_kv (WNetwork conn meta buf) m)
           | FPubSub \<Rightarrow> in_pubsub ser (WNetwork conn meta buf) cm
           | FAlias \<Rightarrow> Some (c, in_alias (WNetwork conn meta buf) m)
           | FSocket \<Rightarrow> Some (c, in_socket (WNetwork conn meta buf) m))
      | Inr (meta, buf) \<Rightarrow>
          (case feature of
             FNeighbours \<Rightarrow> Some (c, in_neighbours (WLocal meta buf) m)
           | FData \<Rightarrow> Some (c, in_data (WLocal meta buf) m)
           | FRouterSync \<Rightarrow> in_router_sync (WLocal meta buf) cm
           | FVpn \<Rightarrow> in_vpn (WLocal meta buf) cm
           | FDhtKv \<Rightarrow> Some (c, in_dht_kv (WLocal meta buf) m)
           | FPubSub \<Rightarrow> in_pubsub ser (WLocal meta buf) cm
           | FAlias \<Rightarrow> Some (c, in_alias (WLocal meta buf) m)
           | FSocket \<Rightarrow> Some (c, in_socket (WLocal meta buf) m)))"

text \<open>
  A packet of the network. The trait's default removes the header (\<^verbatim>\<open>expect\<close> panics when the packet is shorter) and calls
  \<^verbatim>\<open>on_input\<close>; publish/subscribe takes the packet whole.
\<close>

definition fwm_on_network_raw :: "(pubsub_message \<Rightarrow> bytes) \<Rightarrow> (bytes \<Rightarrow> pubsub_message option) \<Rightarrow> features \<Rightarrow> conn_id \<Rightarrow> net_pair \<Rightarrow> header \<Rightarrow> bytes \<Rightarrow>
    worker_ctx \<times> 'u feature_worker_manager \<Rightarrow> (worker_ctx \<times> 'u feature_worker_manager) run" where
  "fwm_on_network_raw ser de feature conn pair h buf cm =
     (if feature = FPubSub then do {
        w \<leftarrow> psw_on_network_raw ser de pair buf (fw_pubsub (snd cm));
        Some (fst cm, (snd cm)\<lparr>fw_pubsub := w\<rparr>)
      }
      else if length buf < serialize_size h then None
      else fwm_dispatch ser (Inl (conn, incoming_of_header h, drop (serialize_size h) buf)) feature cm)"

fun fwm_on_control :: "(pubsub_message \<Rightarrow> bytes) \<Rightarrow> 'u feature_actor \<Rightarrow> features_control \<Rightarrow> worker_ctx \<times> 'u feature_worker_manager \<Rightarrow>
    (worker_ctx \<times> 'u feature_worker_manager) run" where
  "fwm_on_control ser actor (FcNeighbours c) cm = Some (fst cm, in_neighbours (WControl actor c) (snd cm))"
| "fwm_on_control ser actor (FcData c) cm = Some (fst cm, in_data (WControl actor c) (snd cm))"
| "fwm_on_control ser actor (FcRouterSync c) cm = in_router_sync (WControl actor c) cm"
| "fwm_on_control ser actor (FcVpn c) cm = in_vpn (WControl actor c) cm"
| "fwm_on_control ser actor (FcDhtKv c) cm = Some (fst cm, in_dht_kv (WControl actor c) (snd cm))"
| "fwm_on_control ser actor (FcPubSub c) cm = in_pubsub ser (WControl actor c) cm"
| "fwm_on_control ser actor (FcAlias c) cm = Some (fst cm, in_alias (WControl actor c) (snd cm))"
| "fwm_on_control ser actor (FcSocket c) cm = Some (fst cm, in_socket (WControl actor c) (snd cm))"

fun fwm_from_controller :: "(pubsub_message \<Rightarrow> bytes) \<Rightarrow> bool \<Rightarrow> 'u features_to_worker \<Rightarrow> worker_ctx \<times> 'u feature_worker_manager \<Rightarrow>
    (worker_ctx \<times> 'u feature_worker_manager) run" where
  "fwm_from_controller ser b (FtwNeighbours t) cm = Some (fst cm, in_neighbours (WFromController b t) (snd cm))"
| "fwm_from_controller ser b (FtwData t) cm = Some (fst cm, in_data (WFromController b t) (snd cm))"
| "fwm_from_controller ser b (FtwRouterSync t) cm = in_router_sync (WFromController b t) cm"
| "fwm_from_controller ser b (FtwVpn t) cm = in_vpn (WFromController b t) cm"
| "fwm_from_controller ser b (FtwDhtKv t) cm = Some (fst cm, in_dht_kv (WFromController b t) (snd cm))"
| "fwm_from_controller ser b (FtwPubSub t) cm = in_pubsub ser (WFromController b t) cm"
| "fwm_from_controller ser b (FtwAlias t) cm = Some (fst cm, in_alias (WFromController b t) (snd cm))"
| "fwm_from_controller ser b (FtwSocket t) cm = Some (fst cm, in_socket (WFromController b t) (snd cm))"

definition fwm_on_input :: "(pubsub_message \<Rightarrow> bytes) \<Rightarrow> features \<Rightarrow> 'u features_worker_input \<Rightarrow> worker_ctx \<times> 'u feature_worker_manager \<Rightarrow>
    (worker_ctx \<times> 'u feature_worker_manager) run" where
  "fwm_on_input ser feature input cm =
     (case input of
        WControl actor control \<Rightarrow> fwm_on_control ser actor control cm
      | WFromController b to \<Rightarrow> fwm_from_controller ser b to cm
      | WNetwork _ _ _ \<Rightarrow> None
      | WTunPkt pkt \<Rightarrow> in_vpn (WTunPkt pkt) cm
      | WLocal meta buf \<Rightarrow> fwm_dispatch ser (Inr (meta, buf)) feature cm)"

text \<open>No worker overrides the empty default of \<^verbatim>\<open>on_tick\<close>.\<close>

definition fwm_on_tick :: "'u feature_worker_manager \<Rightarrow> 'u feature_worker_manager" where
  "fwm_on_tick m = m"

definition fwm_on_shutdown :: "'u feature_worker_manager \<Rightarrow> 'u feature_worker_manager" where
  "fwm_on_shutdown m =
     (if fw_shutdown m then m
      else m\<lparr>fw_neighbours := nw_on_shutdown (fw_neighbours m), fw_data := daw_on_shutdown (fw_data m),
             fw_router_sync := rsw_on_shutdown (fw_router_sync m), fw_vpn := vw_on_shutdown (fw_vpn m),
             fw_dht_kv := dw_on_shutdown (fw_dht_kv m), fw_pubsub := psw_on_shutdown (fw_pubsub m),
             fw_alias := aw_on_shutdown (fw_alias m), fw_socket := sw_on_shutdown (fw_socket m), fw_shutdown := True\<rparr>)"

definition fwm_is_empty :: "'u feature_worker_manager \<Rightarrow> bool" where
  "fwm_is_empty m \<longleftrightarrow>
     fw_shutdown m \<and> nw_is_empty (fw_neighbours m) \<and> daw_is_empty (fw_data m) \<and> rsw_is_empty (fw_router_sync m) \<and>
     vw_is_empty (fw_vpn m) \<and> dw_is_empty (fw_dht_kv m) \<and> psw_is_empty (fw_pubsub m) \<and> aw_is_empty (fw_alias m) \<and>
     sw_is_empty (fw_socket m)"

text \<open>The next output of the feature that the task switcher chose, wrapped for all features.\<close>

definition fwm_pop_output :: "features \<Rightarrow> 'u feature_worker_manager \<Rightarrow> 'u features_worker_output option \<times> 'u feature_worker_manager" where
  "fwm_pop_output feature m =
     (case feature of
        FNeighbours \<Rightarrow>
          (case nw_pop_output (fw_neighbours m) of
             (out, w) \<Rightarrow> (map_option (worker_output_into2 id FcNeighbours FeNeighbours FtcNeighbours) out, m\<lparr>fw_neighbours := w\<rparr>))
      | FData \<Rightarrow>
          (case daw_pop_output (fw_data m) of
             (out, w) \<Rightarrow> (map_option (worker_output_into2 id FcData FeData FtcData) out, m\<lparr>fw_data := w\<rparr>))
      | FRouterSync \<Rightarrow>
          (case rsw_pop_output (fw_router_sync m) of
             (out, w) \<Rightarrow> (map_option (worker_output_into2 id FcRouterSync FeRouterSync FtcRouterSync) out, m\<lparr>fw_router_sync := w\<rparr>))
      | FVpn \<Rightarrow>
          (case vw_pop_output (fw_vpn m) of
             (out, w) \<Rightarrow> (map_option (worker_output_into2 id FcVpn FeVpn FtcVpn) out, m\<lparr>fw_vpn := w\<rparr>))
      | FDhtKv \<Rightarrow>
          (case dw_pop_output (fw_dht_kv m) of
             (out, w) \<Rightarrow> (map_option (worker_output_into2 id FcDhtKv FeDhtKv FtcDhtKv) out, m\<lparr>fw_dht_kv := w\<rparr>))
      | FPubSub \<Rightarrow>
          (case psw_pop_output (fw_pubsub m) of
             (out, w) \<Rightarrow> (map_option (worker_output_into2 id FcPubSub FePubSub FtcPubSub) out, m\<lparr>fw_pubsub := w\<rparr>))
      | FAlias \<Rightarrow>
          (case aw_pop_output (fw_alias m) of
             (out, w) \<Rightarrow> (map_option (worker_output_into2 id FcAlias FeAlias FtcAlias) out, m\<lparr>fw_alias := w\<rparr>))
      | FSocket \<Rightarrow>
          (case sw_pop_output (fw_socket m) of
             (out, w) \<Rightarrow> (map_option (worker_output_into2 id FcSocket FeSocket FtcSocket) out, m\<lparr>fw_socket := w\<rparr>)))"

end
