(* ===== verification/Data_Plane.thy ===== *)
theory Data_Plane
  imports Feature_Manager Neighbours Broadcast_History
begin

text \<open>
  The data plane of a worker (\<^verbatim>\<open>packages/network/src/data_plane.rs\<close>, \<^verbatim>\<open>data_plane/connection.rs\<close> and
  \<^verbatim>\<open>data_plane/services.rs\<close>): it decrypts and routes packets, hands them to the features, and sends what features and
  services produce. The events and controls exchanged with the controller are those of \<^verbatim>\<open>lib.rs\<close> and \<^verbatim>\<open>base/service.rs\<close>.

  Parameters, collected in \<open>dp_env\<close>: the codecs of publish/subscribe and of neighbour controls, the encryption of a
  connection (a trait object in the code; its key material is the type \<open>'k\<close>), the services (trait objects, state type \<open>'s\<close>), and the
  free memory that the buffer library puts in front of a payload. The runtime's task switcher decides which feature or service is
  polled next; its choices are an argument of \<open>dp_pop_output\<close>.
\<close>

subsection \<open>Vocabulary of the planes\<close>

datatype 'u service_actor = SvcController 'u | SvcWorker u16 'u

datatype ('u, 'sc) ext_in =
    ExtConnectTo node_addr
  | ExtDisconnectFrom node_id
  | ExtFeaturesControl 'u features_control
  | ExtServicesControl u8 'u 'sc

datatype ('u, 'se) ext_out = XoFeaturesEvent 'u features_event | XoServicesEvent u8 'u 'se

datatype ('u, 'sc, 'se, 'tc) logic_control =
    LcFeature features_to_controller
  | LcService u8 'tc
  | LcNetNeighbour net_pair neighbours_control
  | LcNetRemote features conn_id net_incoming_meta bytes
  | LcNetLocal features net_incoming_meta bytes
  | LcFeaturesControl "'u feature_actor" features_control
  | LcServicesControl "'u service_actor" u8 'sc
  | LcServiceEvent u8 features_event
  | LcExtFeaturesEvent 'u features_event
  | LcExtServicesEvent u8 'u 'se

datatype ('u, 'se, 'tw, 'k) logic_event =
    LeNetNeighbour net_pair neighbours_control
  | LeNetDirect features net_pair conn_id net_outgoing_meta bytes
  | LeNetRoute features route_rule net_outgoing_meta bytes
  | LePin conn_id node_id net_pair 'k
  | LeUnPin conn_id
  | LeFeature bool "'u features_to_worker"
  | LeService u8 'tw
  | LeExtFeaturesEvent u16 'u features_event
  | LeExtServicesEvent u16 u8 'u 'se

datatype event_dest = DestBroadcast | DestAny | DestWorker u16

fun logic_event_dest :: "('u, 'se, 'tw, 'k) logic_event \<Rightarrow> event_dest" where
  "logic_event_dest (LePin _ _ _ _) = DestBroadcast"
| "logic_event_dest (LeUnPin _) = DestBroadcast"
| "logic_event_dest (LeService _ _) = DestBroadcast"
| "logic_event_dest (LeFeature b _) = (if b then DestBroadcast else DestAny)"
| "logic_event_dest (LeNetNeighbour _ _) = DestAny"
| "logic_event_dest (LeNetDirect _ _ _ _ _) = DestAny"
| "logic_event_dest (LeNetRoute _ _ _ _) = DestAny"
| "logic_event_dest (LeExtFeaturesEvent w _ _) = DestWorker w"
| "logic_event_dest (LeExtServicesEvent w _ _ _) = DestWorker w"

datatype net_input = UdpIn net_pair bytes | TunIn bytes

datatype ('u, 'se) cross_worker = CrossFeature 'u features_event | CrossService u8 'u 'se

datatype ('u, 'sc, 'se, 'tw, 'k) dp_input =
    DpExt "('u, 'sc) ext_in"
  | DpNet net_input
  | DpEvent "('u, 'se, 'tw, 'k) logic_event"
  | DpWorker "('u, 'se) cross_worker"

datatype net_output = UdpPacket net_pair bytes | UdpPackets "net_pair list" bytes | TunPacket bytes

datatype ('u, 'sc, 'se, 'tc) dp_output =
    DoExt "('u, 'se) ext_out"
  | DoNet net_output
  | DoControl "('u, 'sc, 'se, 'tc) logic_control"
  | DoWorker u16 "('u, 'se) cross_worker"
  | DoResourceEmpty
  | DoContinue

subsection \<open>Services of a worker\<close>

datatype ('u, 'sc, 'tw) service_worker_input =
    SwiControl "'u service_actor" 'sc
  | SwiFromController 'tw
  | SwiFeatureEvent features_event

datatype ('u, 'sc, 'se, 'tc) service_worker_output =
    SwoForwardControl "'u service_actor" 'sc
  | SwoForwardFeatureEvent features_event
  | SwoToController 'tc
  | SwoFeatureControl features_control
  | SwoEvent "'u service_actor" 'se
  | SwoResourceEmpty

text \<open>The interface of a service, which is a trait object in the code.\<close>

record ('s, 'i, 'o) service_ops =
  so_on_tick :: "node_id \<Rightarrow> time \<Rightarrow> nat \<Rightarrow> 's \<Rightarrow> 's"
  so_on_input :: "node_id \<Rightarrow> time \<Rightarrow> 'i \<Rightarrow> 's \<Rightarrow> 's"
  so_on_shutdown :: "node_id \<Rightarrow> time \<Rightarrow> 's \<Rightarrow> 's"
  so_pop_output :: "time \<Rightarrow> 's \<Rightarrow> 'o option \<times> 's"
  so_is_empty :: "'s \<Rightarrow> bool"

record 's service_slot =
  ss_service :: 's
  ss_is_empty :: bool

record 's service_manager =
  sm_services :: "u8 \<Rightarrow> 's service_slot option"
  sm_services_count :: nat
  sm_empty_services :: "u8 list"
  sm_shutdown :: bool

definition swm_new :: "(u8 \<times> 's) list \<Rightarrow> 's service_manager" where
  "swm_new services =
     \<lparr>sm_services = (\<lambda>i. map_option (\<lambda>s. \<lparr>ss_service = s, ss_is_empty = True\<rparr>) (map_of services i)),
      sm_services_count = length services, sm_empty_services = [], sm_shutdown = False\<rparr>"

definition sm_map :: "('s \<Rightarrow> 's) \<Rightarrow> 's service_manager \<Rightarrow> 's service_manager" where
  "sm_map f m = m\<lparr>sm_services := (\<lambda>i. map_option (\<lambda>slot. slot\<lparr>ss_service := f (ss_service slot)\<rparr>) (sm_services m i))\<rparr>"

definition swm_on_tick :: "('s, 'i, 'o) service_ops \<Rightarrow> node_id \<Rightarrow> time \<Rightarrow> nat \<Rightarrow> 's service_manager \<Rightarrow> 's service_manager" where
  "swm_on_tick ops n now tick_count = sm_map (so_on_tick ops n now tick_count)"

definition swm_on_input :: "('s, 'i, 'o) service_ops \<Rightarrow> node_id \<Rightarrow> time \<Rightarrow> u8 \<Rightarrow> 'i \<Rightarrow> 's service_manager \<Rightarrow> 's service_manager" where
  "swm_on_input ops n now sid input m =
     (case sm_services m sid of
        Some slot \<Rightarrow> m\<lparr>sm_services := (sm_services m)(sid \<mapsto> slot\<lparr>ss_service := so_on_input ops n now input (ss_service slot)\<rparr>)\<rparr>
      | None \<Rightarrow> m)"

definition swm_on_shutdown :: "('s, 'i, 'o) service_ops \<Rightarrow> node_id \<Rightarrow> time \<Rightarrow> 's service_manager \<Rightarrow> 's service_manager" where
  "swm_on_shutdown ops n now m = (if sm_shutdown m then m else (sm_map (so_on_shutdown ops n now) m)\<lparr>sm_shutdown := True\<rparr>)"

definition swm_is_empty :: "'s service_manager \<Rightarrow> bool" where
  "swm_is_empty m \<longleftrightarrow> sm_shutdown m \<and> length (sm_empty_services m) = sm_services_count m"

text \<open>
  One round of the loop in \<^verbatim>\<open>pop_output\<close> for the service that the task switcher chose; \<open>None\<close> means that the loop goes on. \<open>empty_event\<close>
  is the event that reports an empty service.
\<close>

definition swm_pop_turn :: "('s, 'i, 'o) service_ops \<Rightarrow> 'o \<Rightarrow> time \<Rightarrow> u8 \<Rightarrow> 's service_manager \<Rightarrow> (u8 \<times> 'o) option \<times> 's service_manager" where
  "swm_pop_turn ops empty_event now sid m =
     (case sm_services m sid of
        None \<Rightarrow> (None, m)
      | Some slot \<Rightarrow>
          (case so_pop_output ops now (ss_service slot) of
             (Some out, s) \<Rightarrow> (Some (sid, out), m\<lparr>sm_services := (sm_services m)(sid \<mapsto> slot\<lparr>ss_service := s\<rparr>)\<rparr>)
           | (None, s) \<Rightarrow>
               (let put = (\<lambda>e. (sm_services m)(sid \<mapsto> slot\<lparr>ss_service := s, ss_is_empty := e\<rparr>)) in
                if \<not> ss_is_empty slot then
                  (if so_is_empty ops s
                   then (Some (sid, empty_event), m\<lparr>sm_services := put True, sm_empty_services := List.insert sid (sm_empty_services m)\<rparr>)
                   else (None, m\<lparr>sm_services := put False\<rparr>))
                else
                  (if \<not> so_is_empty ops s
                   then (None, m\<lparr>sm_services := put False, sm_empty_services := removeAll sid (sm_empty_services m)\<rparr>)
                   else (None, m\<lparr>sm_services := put True\<rparr>)))))"

subsection \<open>Connections of a worker\<close>

record ('u, 's, 'sc, 'se, 'tc, 'tw, 'k) dp_env =
  e_ser :: "pubsub_message \<Rightarrow> bytes"
  e_de :: "bytes \<Rightarrow> pubsub_message option"
  e_nc_enc :: "neighbours_control \<Rightarrow> bytes option"
  e_nc_dec :: "bytes \<Rightarrow> neighbours_control option"
  e_front :: "nat \<Rightarrow> bytes"
  e_encrypt :: "time \<Rightarrow> bytes \<Rightarrow> 'k \<Rightarrow> bytes option \<times> 'k"
  e_decrypt :: "time \<Rightarrow> bytes \<Rightarrow> 'k \<Rightarrow> bytes option \<times> 'k"
  e_services :: "('s, ('u, 'sc, 'tw) service_worker_input, ('u, 'sc, 'se, 'tc) service_worker_output) service_ops"

record 'k dp_conn =
  dc_node :: node_id
  dc_conn :: conn_id
  dc_pair :: net_pair
  dc_secure :: 'k

text \<open>Encryption leaves out the first byte, which holds the flags of the header; a failure may have changed the key state.\<close>

definition crypt_if_need :: "(time \<Rightarrow> bytes \<Rightarrow> 'k \<Rightarrow> bytes option \<times> 'k) \<Rightarrow> time \<Rightarrow> bytes \<Rightarrow> 'k dp_conn \<Rightarrow> bytes option \<times> 'k dp_conn" where
  "crypt_if_need crypt now buf c =
     (case buf of
        [] \<Rightarrow> (None, c)
      | b # body \<Rightarrow>
          if \<not> header_is_secure b then (Some buf, c)
          else (case crypt now body (dc_secure c) of (out, k) \<Rightarrow> (map_option (\<lambda>body'. b # body') out, c\<lparr>dc_secure := k\<rparr>)))"

definition encrypt_if_need :: "('u, 's, 'sc, 'se, 'tc, 'tw, 'k) dp_env \<Rightarrow> time \<Rightarrow> bytes \<Rightarrow> 'k dp_conn \<Rightarrow> bytes option \<times> 'k dp_conn" where
  "encrypt_if_need env = crypt_if_need (e_encrypt env)"

definition decrypt_if_need :: "('u, 's, 'sc, 'se, 'tc, 'tw, 'k) dp_env \<Rightarrow> time \<Rightarrow> bytes \<Rightarrow> 'k dp_conn \<Rightarrow> bytes option \<times> 'k dp_conn" where
  "decrypt_if_need env = crypt_if_need (e_decrypt env)"

subsection \<open>The data plane\<close>

record ('u, 's, 'sc, 'se, 'tc, 'k) data_plane =
  dp_tick_count :: nat
  dp_worker_id :: u16
  dp_ctx :: worker_ctx
  dp_history :: history
  dp_features :: "'u feature_worker_manager"
  dp_services :: "'s service_manager"
  dp_conns :: "(net_pair \<times> 'k dp_conn) list"
  dp_conns_reverse :: "net_pair conn_map"
  dp_queue :: "('u, 'sc, 'se, 'tc) dp_output list"
  dp_shutdown :: bool

definition dp_new :: "node_id \<Rightarrow> u16 \<Rightarrow> (u8 \<times> 's) list \<Rightarrow> ('u, 's, 'sc, 'se, 'tc, 'k) data_plane" where
  "dp_new n worker_id services =
     \<lparr>dp_tick_count = 0, dp_worker_id = worker_id, dp_ctx = \<lparr>wc_node = n, wc_router = sr_new n\<rparr>, dp_history = history_default,
      dp_features = fwm_new, dp_services = swm_new services, dp_conns = [], dp_conns_reverse = [], dp_queue = [], dp_shutdown = False\<rparr>"

definition dp_push :: "('u, 'sc, 'se, 'tc) dp_output list \<Rightarrow> ('u, 's, 'sc, 'se, 'tc, 'k) data_plane \<Rightarrow> ('u, 's, 'sc, 'se, 'tc, 'k) data_plane" where
  "dp_push outs d = d\<lparr>dp_queue := dp_queue d @ outs\<rparr>"

definition dp_put_conn :: "net_pair \<Rightarrow> 'k dp_conn \<Rightarrow> ('u, 's, 'sc, 'se, 'tc, 'k) data_plane \<Rightarrow> ('u, 's, 'sc, 'se, 'tc, 'k) data_plane" where
  "dp_put_conn pair c d = d\<lparr>dp_conns := hm_insert pair c (dp_conns d)\<rparr>"

text \<open>A call on the features, with the worker context they may change.\<close>

definition dp_call :: "(worker_ctx \<times> 'u feature_worker_manager \<Rightarrow> (worker_ctx \<times> 'u feature_worker_manager) run) \<Rightarrow>
    ('u, 's, 'sc, 'se, 'tc, 'k) data_plane \<Rightarrow> ('u, 's, 'sc, 'se, 'tc, 'k) data_plane run" where
  "dp_call f d = do { (c, m) \<leftarrow> f (dp_ctx d, dp_features d); Some (d\<lparr>dp_ctx := c, dp_features := m\<rparr>) }"

definition dp_service_input :: "('u, 's, 'sc, 'se, 'tc, 'tw, 'k) dp_env \<Rightarrow> time \<Rightarrow> u8 \<Rightarrow> ('u, 'sc, 'tw) service_worker_input \<Rightarrow>
    ('u, 's, 'sc, 'se, 'tc, 'k) data_plane \<Rightarrow> ('u, 's, 'sc, 'se, 'tc, 'k) data_plane" where
  "dp_service_input env now sid input d =
     d\<lparr>dp_services := swm_on_input (e_services env) (wc_node (dp_ctx d)) now sid input (dp_services d)\<rparr>"

text \<open>\<^verbatim>\<open>route\<close>: the action and the history it was recorded in.\<close>

definition dp_route :: "route_rule \<Rightarrow> node_id option \<Rightarrow> node_id option \<Rightarrow> ('u, 's, 'sc, 'se, 'tc, 'k) data_plane \<Rightarrow>
    (net_pair route_action \<times> ('u, 's, 'sc, 'se, 'tc, 'k) data_plane) run" where
  "dp_route rule source relay_from d =
     do {
       (action, h) \<leftarrow> derive_action already_received_broadcast (dp_history d) (wc_router (dp_ctx d)) rule source relay_from;
       Some (action, d\<lparr>dp_history := h\<rparr>)
     }"

text \<open>\<^verbatim>\<open>build_send_to_from_mut\<close> on the connection of a pair.\<close>

definition build_send_to_from_mut :: "('u, 's, 'sc, 'se, 'tc, 'tw, 'k) dp_env \<Rightarrow> time \<Rightarrow> 'k dp_conn \<Rightarrow> net_pair \<Rightarrow> bytes \<Rightarrow>
    ('u, 's, 'sc, 'se, 'tc, 'k) data_plane \<Rightarrow> net_output option \<times> ('u, 's, 'sc, 'se, 'tc, 'k) data_plane" where
  "build_send_to_from_mut env now c pair buf d =
     (case encrypt_if_need env now buf c of (out, c') \<Rightarrow> (map_option (UdpPacket pair) out, dp_put_conn pair c' d))"

definition build_send_to :: "('u, 's, 'sc, 'se, 'tc, 'tw, 'k) dp_env \<Rightarrow> time \<Rightarrow> 'k dp_conn \<Rightarrow> net_pair \<Rightarrow> bytes \<Rightarrow>
    ('u, 's, 'sc, 'se, 'tc, 'k) data_plane \<Rightarrow> (net_output option \<times> ('u, 's, 'sc, 'se, 'tc, 'k) data_plane) run" where
  "build_send_to env now c pair buf d =
     (case buf of
        [] \<Rightarrow> None
      | b # _ \<Rightarrow> Some (if header_is_secure b then build_send_to_from_mut env now c pair buf d else (Some (UdpPacket pair buf), d)))"

text \<open>The copies of an encrypted packet; one that has no connection or fails to encrypt is left out.\<close>

definition send_copy :: "('u, 's, 'sc, 'se, 'tc, 'tw, 'k) dp_env \<Rightarrow> time \<Rightarrow> bytes \<Rightarrow> net_pair \<Rightarrow>
    ('u, 's, 'sc, 'se, 'tc, 'k) data_plane \<Rightarrow> ('u, 's, 'sc, 'se, 'tc, 'k) data_plane" where
  "send_copy env now buf pair d =
     (case map_of (dp_conns d) pair of
        None \<Rightarrow> d
      | Some c \<Rightarrow>
          (case build_send_to_from_mut env now c pair buf d of
             (Some out, d') \<Rightarrow> dp_push [DoNet out] d'
           | (None, d') \<Rightarrow> d'))"

definition build_send_to_multi_from_mut :: "('u, 's, 'sc, 'se, 'tc, 'tw, 'k) dp_env \<Rightarrow> time \<Rightarrow> net_pair list \<Rightarrow> bytes \<Rightarrow>
    ('u, 's, 'sc, 'se, 'tc, 'k) data_plane \<Rightarrow> (net_output option \<times> ('u, 's, 'sc, 'se, 'tc, 'k) data_plane) run" where
  "build_send_to_multi_from_mut env now pairs buf d =
     (case buf of
        [] \<Rightarrow> None
      | b # _ \<Rightarrow>
          Some (if header_is_secure b then
             (if pairs = [] then (None, d)
              else
                (let d1 = fold (send_copy env now buf) (butlast pairs) d in
                 case map_of (dp_conns d1) (last pairs) of
                   None \<Rightarrow> (None, d1)
                 | Some c \<Rightarrow> build_send_to_from_mut env now c (last pairs) buf d1))
           else (Some (UdpPackets pairs buf), d)))"

definition build_send_to_multi :: "('u, 's, 'sc, 'se, 'tc, 'tw, 'k) dp_env \<Rightarrow> time \<Rightarrow> net_pair list \<Rightarrow> bytes \<Rightarrow>
    ('u, 's, 'sc, 'se, 'tc, 'k) data_plane \<Rightarrow> (net_output option \<times> ('u, 's, 'sc, 'se, 'tc, 'k) data_plane) run" where
  "build_send_to_multi env now pairs buf d =
     (case buf of
        [] \<Rightarrow> None
      | b # _ \<Rightarrow> if header_is_secure b then build_send_to_multi_from_mut env now pairs buf d else Some (Some (UdpPackets pairs buf), d))"

text \<open>A result of these is queued when there is one.\<close>

definition push_net :: "net_output option \<times> ('u, 's, 'sc, 'se, 'tc, 'k) data_plane \<Rightarrow> ('u, 's, 'sc, 'se, 'tc, 'k) data_plane" where
  "push_net = (\<lambda>(out, d). case out of Some o' \<Rightarrow> dp_push [DoNet o'] d | None \<Rightarrow> d)"

definition build_raw :: "('u, 's, 'sc, 'se, 'tc, 'tw, 'k) dp_env \<Rightarrow> header \<Rightarrow> bytes \<Rightarrow> bytes run" where
  "build_raw env h buf = map_option tm_buffer (msg_build_raw (e_front env (serialize_size h)) h buf)"

definition incoming_action :: "('u, 's, 'sc, 'se, 'tc, 'tw, 'k) dp_env \<Rightarrow> time \<Rightarrow> net_pair \<Rightarrow> 'k dp_conn \<Rightarrow> header \<Rightarrow> bytes \<Rightarrow> net_pair route_action \<Rightarrow>
    ('u, 's, 'sc, 'se, 'tc, 'k) data_plane \<Rightarrow> ('u, 's, 'sc, 'se, 'tc, 'k) data_plane run" where
  "incoming_action env now pair c h buf action d =
     (case action of
        Reject \<Rightarrow> Some d
      | Local \<Rightarrow>
          (case feature_of_u8 (h_feature h) of
             None \<Rightarrow> Some d
           | Some feature \<Rightarrow> dp_call (fwm_on_network_raw (e_ser env) (e_de env) feature (dc_conn c) pair h buf) d)
      | Next remote \<Rightarrow>
          (let (_, buf1) = decrease_ttl buf in
           case map_of (dp_conns d) remote of
             None \<Rightarrow> Some d
           | Some target \<Rightarrow> Some (push_net (build_send_to_from_mut env now target remote buf1 d)))
      | Broadcast local pairs \<Rightarrow>
          (case decrease_ttl buf of
             (False, _) \<Rightarrow> Some d
           | (True, buf1) \<Rightarrow> do {
               d1 \<leftarrow> (if local then
                        (case feature_of_u8 (h_feature h) of
                           None \<Rightarrow> Some d
                         | Some feature \<Rightarrow> dp_call (fwm_on_network_raw (e_ser env) (e_de env) feature (dc_conn c) pair h buf1) d)
                      else Some d);
               if pairs = [] then Some d1 else map_option push_net (build_send_to_multi_from_mut env now pairs buf1 d1)
             }))"

definition incoming_route :: "('u, 's, 'sc, 'se, 'tc, 'tw, 'k) dp_env \<Rightarrow> time \<Rightarrow> net_pair \<Rightarrow> bytes \<Rightarrow>
    ('u, 's, 'sc, 'se, 'tc, 'k) data_plane \<Rightarrow> ('u, 's, 'sc, 'se, 'tc, 'k) data_plane run" where
  "incoming_route env now pair buf d =
     (case map_of (dp_conns d) pair of
        None \<Rightarrow> Some d
      | Some c \<Rightarrow>
          (if buf = [] then None
           else
             (case decrypt_if_need env now buf c of
                (None, c') \<Rightarrow> Some (dp_put_conn pair c' d)
              | (Some buf1, c') \<Rightarrow>
                  (let d1 = dp_put_conn pair c' d in
                   case header_try_from buf1 of
                     Inl _ \<Rightarrow> Some d1
                   | Inr h \<Rightarrow> do {
                       (action, d2) \<leftarrow> dp_route (h_route h) (h_from_node h) (Some (dc_node c')) d1;
                       incoming_action env now pair c' h buf1 action d2
                     }))))"

definition outgoing_route :: "('u, 's, 'sc, 'se, 'tc, 'tw, 'k) dp_env \<Rightarrow> time \<Rightarrow> features \<Rightarrow> route_rule \<Rightarrow> net_outgoing_meta \<Rightarrow> bytes \<Rightarrow>
    ('u, 's, 'sc, 'se, 'tc, 'k) data_plane \<Rightarrow> ('u, 's, 'sc, 'se, 'tc, 'k) data_plane run" where
  "outgoing_route env now feature rule meta buf d =
     (let n = wc_node (dp_ctx d) in
      do {
        (action, d1) \<leftarrow> dp_route rule (Some n) None d;
        (case action of
           Reject \<Rightarrow> Some d1
         | Local \<Rightarrow> dp_call (fwm_on_input (e_ser env) feature (WLocal (to_incoming meta n) buf)) d1
         | Next remote \<Rightarrow> do {
             pkt \<leftarrow> build_raw env (to_header meta (feature_id feature) rule n) buf;
             (case map_of (dp_conns d1) remote of
                None \<Rightarrow> Some d1
              | Some c \<Rightarrow> Some (push_net (build_send_to_from_mut env now c remote pkt d1)))
           }
         | Broadcast local remotes \<Rightarrow>
             (let meta1 = meta\<lparr>om_source := True\<rparr> in
              do {
                d2 \<leftarrow> (if local then dp_call (fwm_on_input (e_ser env) feature (WLocal (to_incoming meta1 n) buf)) d1 else Some d1);
                pkt \<leftarrow> build_raw env (to_header meta1 (feature_id feature) rule n) buf;
                map_option push_net (build_send_to_multi_from_mut env now remotes pkt d2)
              }))
      })"

definition dp_on_tick :: "('u, 's, 'sc, 'se, 'tc, 'tw, 'k) dp_env \<Rightarrow> time \<Rightarrow>
    ('u, 's, 'sc, 'se, 'tc, 'k) data_plane \<Rightarrow> ('u, 's, 'sc, 'se, 'tc, 'k) data_plane" where
  "dp_on_tick env now d =
     d\<lparr>dp_features := fwm_on_tick (dp_features d),
       dp_services := swm_on_tick (e_services env) (wc_node (dp_ctx d)) now (dp_tick_count d) (dp_services d),
       dp_tick_count := dp_tick_count d + 1\<rparr>"

fun dp_on_ext :: "('u, 's, 'sc, 'se, 'tc, 'tw, 'k) dp_env \<Rightarrow> time \<Rightarrow> ('u, 'sc) ext_in \<Rightarrow>
    ('u, 's, 'sc, 'se, 'tc, 'k) data_plane \<Rightarrow> ('u, 's, 'sc, 'se, 'tc, 'k) data_plane run" where
  "dp_on_ext env now (ExtConnectTo _) d = None"
| "dp_on_ext env now (ExtDisconnectFrom _) d = None"
| "dp_on_ext env now (ExtFeaturesControl userdata control) d =
     dp_call (fwm_on_input (e_ser env) (control_to_feature control) (WControl (ActorWorker (dp_worker_id d) userdata) control)) d"
| "dp_on_ext env now (ExtServicesControl sid userdata control) d =
     Some (dp_service_input env now sid (SwiControl (SvcWorker (dp_worker_id d) userdata) control) d)"

fun dp_on_net :: "('u, 's, 'sc, 'se, 'tc, 'tw, 'k) dp_env \<Rightarrow> time \<Rightarrow> net_input \<Rightarrow>
    ('u, 's, 'sc, 'se, 'tc, 'k) data_plane \<Rightarrow> ('u, 's, 'sc, 'se, 'tc, 'k) data_plane run" where
  "dp_on_net env now (UdpIn pair buf) d =
     (if buf = [] then Some d
      else case nc_try_from (e_nc_dec env) buf of
          Some control \<Rightarrow> Some (dp_push [DoControl (LcNetNeighbour pair control)] d)
        | None \<Rightarrow> incoming_route env now pair buf d)"
| "dp_on_net env now (TunIn pkt) d = dp_call (fwm_on_input (e_ser env) FVpn (WTunPkt pkt)) d"

fun dp_on_logic :: "('u, 's, 'sc, 'se, 'tc, 'tw, 'k) dp_env \<Rightarrow> time \<Rightarrow> ('u, 'se, 'tw, 'k) logic_event \<Rightarrow>
    ('u, 's, 'sc, 'se, 'tc, 'k) data_plane \<Rightarrow> ('u, 's, 'sc, 'se, 'tc, 'k) data_plane run" where
  "dp_on_logic env now (LeFeature b to) d = dp_call (fwm_on_input (e_ser env) (to_worker_feature to) (WFromController b to)) d"
| "dp_on_logic env now (LeService sid to) d = Some (dp_service_input env now sid (SwiFromController to) d)"
| "dp_on_logic env now (LeExtFeaturesEvent worker userdata event) d =
     (if worker = dp_worker_id d then Some (dp_push [DoExt (XoFeaturesEvent userdata event)] d) else None)"
| "dp_on_logic env now (LeExtServicesEvent worker sid userdata event) d =
     (if worker = dp_worker_id d then Some (dp_push [DoExt (XoServicesEvent sid userdata event)] d) else None)"
| "dp_on_logic env now (LeNetNeighbour pair control) d =
     Some (case nc_try_into (e_nc_enc env) control of
             Some buf \<Rightarrow> dp_push [DoNet (UdpPacket pair buf)] d
           | None \<Rightarrow> d)"
| "dp_on_logic env now (LeNetDirect feature pair _ meta buf) d =
     (case map_of (dp_conns d) pair of
        None \<Rightarrow> Some d
      | Some c \<Rightarrow> do {
          pkt \<leftarrow> build_raw env (to_header meta (feature_id feature) Direct (wc_node (dp_ctx d))) buf;
          Some (push_net (build_send_to_from_mut env now c pair pkt d))
        })"
| "dp_on_logic env now (LeNetRoute feature rule meta buf) d = outgoing_route env now feature rule meta buf d"
| "dp_on_logic env now (LePin conn n pair secure) d =
     Some (d\<lparr>dp_conns := hm_insert pair \<lparr>dc_node = n, dc_conn = conn, dc_pair = pair, dc_secure = secure\<rparr> (dp_conns d),
             dp_conns_reverse := conn_insert (dp_conns_reverse d) conn pair\<rparr>)"
| "dp_on_logic env now (LeUnPin conn) d =
     Some (case conn_get (dp_conns_reverse d) conn of
             Some addr \<Rightarrow> d\<lparr>dp_conns := hm_remove addr (dp_conns d), dp_conns_reverse := conn_remove (dp_conns_reverse d) conn\<rparr>
           | None \<Rightarrow> d)"

definition dp_on_event :: "('u, 's, 'sc, 'se, 'tc, 'tw, 'k) dp_env \<Rightarrow> time \<Rightarrow> ('u, 'sc, 'se, 'tw, 'k) dp_input \<Rightarrow>
    ('u, 's, 'sc, 'se, 'tc, 'k) data_plane \<Rightarrow> ('u, 's, 'sc, 'se, 'tc, 'k) data_plane run" where
  "dp_on_event env now input d =
     (case input of
        DpExt ext \<Rightarrow> dp_on_ext env now ext d
      | DpWorker (CrossFeature userdata event) \<Rightarrow> Some (dp_push [DoExt (XoFeaturesEvent userdata event)] d)
      | DpWorker (CrossService sid userdata event) \<Rightarrow> Some (dp_push [DoExt (XoServicesEvent sid userdata event)] d)
      | DpNet net \<Rightarrow> dp_on_net env now net d
      | DpEvent event \<Rightarrow> dp_on_logic env now event d)"

definition dp_on_shutdown :: "('u, 's, 'sc, 'se, 'tc, 'tw, 'k) dp_env \<Rightarrow> time \<Rightarrow>
    ('u, 's, 'sc, 'se, 'tc, 'k) data_plane \<Rightarrow> ('u, 's, 'sc, 'se, 'tc, 'k) data_plane" where
  "dp_on_shutdown env now d =
     (if dp_shutdown d then d
      else d\<lparr>dp_features := fwm_on_shutdown (dp_features d),
             dp_services := swm_on_shutdown (e_services env) (wc_node (dp_ctx d)) now (dp_services d), dp_shutdown := True\<rparr>)"

subsection \<open>Output of features and services\<close>

text \<open>An event for an application: on this worker, on another one, or at the controller.\<close>

definition feature_event_out :: "u16 \<Rightarrow> 'u \<Rightarrow> u16 \<Rightarrow> features_event \<Rightarrow> ('u, 'sc, 'se, 'tc) dp_output" where
  "feature_event_out own userdata worker event =
     (if own = worker then DoExt (XoFeaturesEvent userdata event) else DoWorker worker (CrossFeature userdata event))"

definition service_event_out :: "u16 \<Rightarrow> u8 \<Rightarrow> 'u \<Rightarrow> u16 \<Rightarrow> 'se \<Rightarrow> ('u, 'sc, 'se, 'tc) dp_output" where
  "service_event_out own sid userdata worker event =
     (if own = worker then DoExt (XoServicesEvent sid userdata event) else DoWorker worker (CrossService sid userdata event))"

text \<open>\<^verbatim>\<open>expect\<close> on the packet that was built.\<close>

definition expect_net :: "net_output option \<times> ('u, 's, 'sc, 'se, 'tc, 'k) data_plane \<Rightarrow> ('u, 's, 'sc, 'se, 'tc, 'k) data_plane run" where
  "expect_net = (\<lambda>(out, d). map_option (\<lambda>o'. dp_push [DoNet o'] d) out)"

text \<open>\<^verbatim>\<open>Output::Continue\<close> when nothing was built.\<close>

definition push_net_or_continue :: "net_output option \<times> ('u, 's, 'sc, 'se, 'tc, 'k) data_plane \<Rightarrow> ('u, 's, 'sc, 'se, 'tc, 'k) data_plane" where
  "push_net_or_continue = (\<lambda>(out, d). dp_push [case out of Some o' \<Rightarrow> DoNet o' | None \<Rightarrow> DoContinue] d)"

fun on_feature_output :: "('u, 's, 'sc, 'se, 'tc, 'tw, 'k) dp_env \<Rightarrow> time \<Rightarrow> features \<Rightarrow> 'u features_worker_output \<Rightarrow>
    ('u, 's, 'sc, 'se, 'tc, 'k) data_plane \<Rightarrow> ('u, 's, 'sc, 'se, 'tc, 'k) data_plane run" where
  "on_feature_output env now feature (WForwardControl actor control) d = Some (dp_push [DoControl (LcFeaturesControl actor control)] d)"
| "on_feature_output env now feature (WForwardNetwork conn hdr msg) d = Some (dp_push [DoControl (LcNetRemote feature conn hdr msg)] d)"
| "on_feature_output env now feature (WForwardLocal hdr buf) d = Some (dp_push [DoControl (LcNetLocal feature hdr buf)] d)"
| "on_feature_output env now feature (WToController control) d = Some (dp_push [DoControl (LcFeature control)] d)"
| "on_feature_output env now feature (WEvent actor event) d =
     Some (case actor of
             ActorController userdata \<Rightarrow> dp_push [DoControl (LcExtFeaturesEvent userdata event)] d
           | ActorWorker worker userdata \<Rightarrow> dp_push [feature_event_out (dp_worker_id d) userdata worker event] d
           | ActorService sid \<Rightarrow> dp_service_input env now sid (SwiFeatureEvent event) d)"
| "on_feature_output env now feature (WSendDirect conn meta buf) d =
     (case conn_get (dp_conns_reverse d) conn of
        None \<Rightarrow> Some d
      | Some addr \<Rightarrow> do {
          c \<leftarrow> map_of (dp_conns d) addr;
          pkt \<leftarrow> build_raw env (to_header meta (feature_id feature) Direct (wc_node (dp_ctx d))) buf;
          expect_net (build_send_to_from_mut env now c addr pkt d)
        })"
| "on_feature_output env now feature (WSendRoute rule ttl buf) d = outgoing_route env now feature rule ttl buf d"
| "on_feature_output env now feature (WRawDirect conn buf) d =
     (case conn_get (dp_conns_reverse d) conn of
        None \<Rightarrow> Some d
      | Some pair \<Rightarrow> do {
          c \<leftarrow> map_of (dp_conns d) pair;
          r \<leftarrow> build_send_to env now c pair buf d;
          expect_net r
        })"
| "on_feature_output env now feature (WRawBroadcast conns buf) d =
     map_option push_net_or_continue (build_send_to_multi env now (List.map_filter (conn_get (dp_conns_reverse d)) conns) buf d)"
| "on_feature_output env now feature (WRawDirect2 pair buf) d =
     (case map_of (dp_conns d) pair of
        None \<Rightarrow> Some d
      | Some c \<Rightarrow> do { r \<leftarrow> build_send_to env now c pair buf d; expect_net r })"
| "on_feature_output env now feature (WRawBroadcast2 pairs buf) d =
     map_option push_net_or_continue (build_send_to_multi env now pairs buf d)"
| "on_feature_output env now feature (WOutTunPkt pkt) d = Some (dp_push [DoNet (TunPacket pkt)] d)"
| "on_feature_output env now feature WResourceEmpty d = Some d"

fun on_service_output :: "('u, 's, 'sc, 'se, 'tc, 'tw, 'k) dp_env \<Rightarrow> time \<Rightarrow> u8 \<Rightarrow> ('u, 'sc, 'se, 'tc) service_worker_output \<Rightarrow>
    ('u, 's, 'sc, 'se, 'tc, 'k) data_plane \<Rightarrow> ('u, 's, 'sc, 'se, 'tc, 'k) data_plane run" where
  "on_service_output env now sid (SwoForwardControl actor control) d = Some (dp_push [DoControl (LcServicesControl actor sid control)] d)"
| "on_service_output env now sid (SwoForwardFeatureEvent event) d = Some (dp_push [DoControl (LcServiceEvent sid event)] d)"
| "on_service_output env now sid (SwoToController tc) d = Some (dp_push [DoControl (LcService sid tc)] d)"
| "on_service_output env now sid (SwoFeatureControl control) d =
     dp_call (fwm_on_input (e_ser env) (control_to_feature control) (WControl (ActorService sid) control)) d"
| "on_service_output env now sid (SwoEvent actor event) d =
     Some (case actor of
             SvcController userdata \<Rightarrow> dp_push [DoControl (LcExtServicesEvent sid userdata event)] d
           | SvcWorker worker userdata \<Rightarrow> dp_push [service_event_out (dp_worker_id d) sid userdata worker event] d)"
| "on_service_output env now sid SwoResourceEmpty d = Some d"

text \<open>\<^verbatim>\<open>pop_features\<close> and \<^verbatim>\<open>pop_services\<close> for the feature or service that the task switchers chose.\<close>

definition pop_features :: "('u, 's, 'sc, 'se, 'tc, 'tw, 'k) dp_env \<Rightarrow> time \<Rightarrow> features \<Rightarrow>
    ('u, 's, 'sc, 'se, 'tc, 'k) data_plane \<Rightarrow> ('u, 's, 'sc, 'se, 'tc, 'k) data_plane run" where
  "pop_features env now feature d =
     (case fwm_pop_output feature (dp_features d) of
        (None, m) \<Rightarrow> Some (d\<lparr>dp_features := m\<rparr>)
      | (Some out, m) \<Rightarrow> on_feature_output env now feature out (d\<lparr>dp_features := m\<rparr>))"

definition pop_services :: "('u, 's, 'sc, 'se, 'tc, 'tw, 'k) dp_env \<Rightarrow> time \<Rightarrow> u8 \<Rightarrow>
    ('u, 's, 'sc, 'se, 'tc, 'k) data_plane \<Rightarrow> ('u, 's, 'sc, 'se, 'tc, 'k) data_plane run" where
  "pop_services env now sid d =
     (case swm_pop_turn (e_services env) SwoResourceEmpty now sid (dp_services d) of
        (None, m) \<Rightarrow> Some (d\<lparr>dp_services := m\<rparr>)
      | (Some (i, out), m) \<Rightarrow> on_service_output env now i out (d\<lparr>dp_services := m\<rparr>))"

definition dp_is_empty :: "('u, 's, 'sc, 'se, 'tc, 'k) data_plane \<Rightarrow> bool" where
  "dp_is_empty d \<longleftrightarrow> dp_shutdown d \<and> dp_queue d = [] \<and> fwm_is_empty (dp_features d) \<and> swm_is_empty (dp_services d)"

text \<open>
  \<^verbatim>\<open>pop_output\<close>: the first queued output; otherwise the chosen tasks are polled until one queues an output or the switcher has none left.
\<close>

datatype dp_task = TaskFeature features | TaskService u8

fun dp_pop_output :: "('u, 's, 'sc, 'se, 'tc, 'tw, 'k) dp_env \<Rightarrow> time \<Rightarrow> dp_task list \<Rightarrow> ('u, 's, 'sc, 'se, 'tc, 'k) data_plane \<Rightarrow>
    (('u, 'sc, 'se, 'tc) dp_output option \<times> ('u, 's, 'sc, 'se, 'tc, 'k) data_plane) run" where
  "dp_pop_output env now tasks d =
     (case dp_queue d of
        x # xs \<Rightarrow> Some (Some x, d\<lparr>dp_queue := xs\<rparr>)
      | [] \<Rightarrow>
          (case tasks of
             [] \<Rightarrow> Some (None, d)
           | TaskFeature f # ts \<Rightarrow> do { d1 \<leftarrow> pop_features env now f d; dp_pop_output env now ts d1 }
           | TaskService i # ts \<Rightarrow> do { d1 \<leftarrow> pop_services env now i d; dp_pop_output env now ts d1 }))"

declare dp_pop_output.simps [simp del]

end
