(* ===== verification/Data_Routing.thy ===== *)
theory Data_Routing
  imports Data_Plane
begin

text \<open>
  What happens to packets in the data plane (\<^verbatim>\<open>packages/network/src/data_plane.rs\<close>): a routed packet crosses a relay and reaches the
  feature it is for with its payload and origin intact, encrypted per link or not; and the time to live, which
  does not stop a packet that is relayed to a single next hop.
\<close>

subsection \<open>Single hops\<close>

lemma header_secure_bit:
  assumes "header_try_from bs = Inr h"
  shows "header_is_secure (bs ! 0) = h_encrypt h" "bs \<noteq> []" "bs ! 0 \<noteq> 255"
proof -
  have h: "drop_bit 5 (bs ! 0) AND 1 = 1 \<longleftrightarrow> h_encrypt h" "drop_bit 6 (bs ! 0) = 0" "4 \<le> length bs"
    using header_try_from_cases [OF assms] by metis+
  have "b AND 32 = 0 \<longleftrightarrow> \<not> drop_bit 5 b AND 1 = 1" for b :: u8
    using and_exp_eq_0_iff_not_bit [of b 5] by (simp add: and_one_eq bit_iff_odd_drop_bit odd_iff_mod_2_eq_one)
  with h(1) show "header_is_secure (bs ! 0) = h_encrypt h" by (simp add: header_is_secure_def)
  show "bs \<noteq> []" using h(3) by auto
  show "bs ! 0 \<noteq> 255"
  proof
    assume "bs ! 0 = 255"
    then show False using h(2) by simp
  qed
qed

text \<open>What a hop does to the time to live: it counts down and stays at zero.\<close>

definition hop_ttl :: "u8 \<Rightarrow> u8" where
  "hop_ttl t = (if t = 0 then 0 else t - 1)"

lemma decrease_ttl_hop:
  assumes "header_try_from bs = Inr h"
  shows "snd (decrease_ttl bs) = bs[1 := hop_ttl (h_ttl h)]"
    "header_try_from (bs[1 := hop_ttl (h_ttl h)]) = Inr (h\<lparr>h_ttl := hop_ttl (h_ttl h)\<rparr>)"
    "bs[1 := hop_ttl (h_ttl h)] ! 0 = bs ! 0"
proof -
  have "h_ttl h = 0 \<Longrightarrow> bs[Suc 0 := 0] = bs"
    using header_try_from_cases [OF assms] by (metis One_nat_def list_update_id)
  then show "snd (decrease_ttl bs) = bs[1 := hop_ttl (h_ttl h)]"
    using decrease_ttl_run [OF assms] by (simp add: hop_ttl_def)
qed (use header_try_from_ttl [OF assms] in simp_all)

text \<open>A packet on a link: what leaves the sender's connection is what the receiver's connection accepts.\<close>

definition link :: "('u, 's, 'sc, 'se, 'tc, 'tw, 'k) dp_env \<Rightarrow> time \<Rightarrow> 'k dp_conn \<Rightarrow>
    ('u2, 's2, 'sc2, 'se2, 'tc2, 'tw2, 'k2) dp_env \<Rightarrow> time \<Rightarrow> 'k2 dp_conn \<Rightarrow> bool" where
  "link env now c env' now' c' \<longleftrightarrow>
     (\<forall>body. \<exists>wire k k'. e_encrypt env now body (dc_secure c) = (Some wire, k) \<and> e_decrypt env' now' wire (dc_secure c') = (Some body, k'))"

text \<open>
  The bytes on the wire of a packet \<open>bs\<close>: the packet itself, or, when encryption is asked for, its first byte and the
  ciphertext that the keys of the connection give for the rest.
\<close>

definition sealed :: "('u, 's, 'sc, 'se, 'tc, 'tw, 'k) dp_env \<Rightarrow> time \<Rightarrow> 'k dp_conn \<Rightarrow> bool \<Rightarrow> bytes \<Rightarrow> bytes \<Rightarrow> bool" where
  "sealed env now c secure bs wire \<longleftrightarrow>
     (if secure then wire \<noteq> [] \<and> hd wire = hd bs \<and> fst (e_encrypt env now (tl bs) (dc_secure c)) = Some (tl wire) else wire = bs)"

lemma link_crypt:
  assumes "header_is_secure (bs ! 0) \<Longrightarrow> link env now c env' now' c'" "bs \<noteq> []"
  shows "\<exists>wire k k'. encrypt_if_need env now bs c = (Some wire, c\<lparr>dc_secure := k\<rparr>) \<and> wire \<noteq> [] \<and> wire ! 0 = bs ! 0 \<and>
    decrypt_if_need env' now' wire c' = (Some bs, c'\<lparr>dc_secure := k'\<rparr>) \<and> sealed env now c (header_is_secure (bs ! 0)) bs wire"
proof (cases bs)
  case (Cons b body)
  show ?thesis
  proof (cases "header_is_secure b")
    case True
    then obtain wire k k' where "e_encrypt env now body (dc_secure c) = (Some wire, k)" "e_decrypt env' now' wire (dc_secure c') = (Some body, k')"
      using assms(1) unfolding link_def Cons by (metis nth_Cons_0)
    then show ?thesis
      using True by (intro exI [of _ "b # wire"] exI [of _ k] exI [of _ k'])
        (simp add: Cons encrypt_if_need_def decrypt_if_need_def crypt_if_need_def sealed_def)
  next
    case False
    then show ?thesis
      by (intro exI [of _ "b # body"] exI [of _ "dc_secure c"] exI [of _ "dc_secure c'"])
        (simp add: Cons encrypt_if_need_def decrypt_if_need_def crypt_if_need_def sealed_def)
  qed
qed (use assms(2) in simp)

lemma dp_put_fields [simp]:
  "dp_conns (dp_put_conn p c d) = hm_insert p c (dp_conns d)" "dp_queue (dp_put_conn p c d) = dp_queue d"
  "dp_ctx (dp_put_conn p c d) = dp_ctx d" "dp_history (dp_put_conn p c d) = dp_history d"
  "dp_features (dp_put_conn p c d) = dp_features d"
  by (simp_all add: dp_put_conn_def)

lemma dp_push_fields [simp]:
  "dp_conns (dp_push outs d) = dp_conns d" "dp_queue (dp_push outs d) = dp_queue d @ outs" "dp_ctx (dp_push outs d) = dp_ctx d"
  "dp_history (dp_push outs d) = dp_history d" "dp_features (dp_push outs d) = dp_features d"
  by (simp_all add: dp_push_def)

lemma route_to_node: "sr_path_to_node (wc_router (dp_ctx d)) dst = Some action \<Longrightarrow> dp_route (ToNode dst) source relay_from d = Some (action, d)"
  by (simp add: dp_route_def derive_action_def)

text \<open>A packet that arrives is decrypted, decoded and routed.\<close>

lemma packet_arrives:
  assumes "map_of (dp_conns d) pair = Some c" "wire \<noteq> []" "wire ! 0 = bs ! 0"
    and "decrypt_if_need env now wire c = (Some bs, c\<lparr>dc_secure := k\<rparr>)"
    and "header_try_from bs = Inr h" "h_route h = ToNode dst" "sr_path_to_node (wc_router (dp_ctx d)) dst = Some action"
  shows "dp_on_event env now (DpNet (UdpIn pair wire)) d =
    incoming_action env now pair (c\<lparr>dc_secure := k\<rparr>) h bs action (dp_put_conn pair (c\<lparr>dc_secure := k\<rparr>) d)"
proof -
  have "nc_try_from (e_nc_dec env) wire = None"
    using header_secure_bit(3) [OF assms(5)] assms(2,3) by (cases wire) (simp_all add: nc_try_from_def)
  then have "dp_on_event env now (DpNet (UdpIn pair wire)) d = incoming_route env now pair wire d"
    using assms(2) by (simp add: dp_on_event_def)
  also have "\<dots> = incoming_action env now pair (c\<lparr>dc_secure := k\<rparr>) h bs action (dp_put_conn pair (c\<lparr>dc_secure := k\<rparr>) d)"
    using assms(1,2,4-6) route_to_node [of "dp_put_conn pair (c\<lparr>dc_secure := k\<rparr>) d" dst action] assms(7)
    by (simp add: incoming_route_def Let_def)
  finally show ?thesis .
qed

lemma relay_action:
  assumes "header_try_from bs = Inr h" "map_of (dp_conns d) remote = Some t"
    and "encrypt_if_need env now (bs[1 := hop_ttl (h_ttl h)]) t = (Some wire, t')"
  shows "incoming_action env now pair c h bs (Next remote) d =
    Some (dp_push [DoNet (UdpPacket remote wire)] (dp_put_conn remote t' d))"
  using assms decrease_ttl_hop(1) [OF assms(1)]
  by (simp add: incoming_action_def push_net_def build_send_to_from_mut_def split_def)

text \<open>A packet that leaves its node.\<close>

lemma build_raw_run:
  assumes "\<And>k. length (e_front env k) = k" "h_version h = 0"
  shows "\<exists>bs. build_raw env h payload = Some bs \<and> header_try_from bs = Inr h \<and> drop (serialize_size h) bs = payload"
proof -
  obtain out where out: "to_bytes h (e_front env (serialize_size h)) = Some (serialize_size h, out)" "length out = serialize_size h"
      "\<And>p. header_try_from (out @ p) = Inr h"
    using to_bytes_exact [OF assms(2), of "e_front env (serialize_size h)"] assms(1) by blast
  then show ?thesis by (simp add: build_raw_def msg_build_raw_def)
qed

lemma packet_leaves:
  assumes "sr_path_to_node (wc_router (dp_ctx d)) dst = Some (Next remote)" "map_of (dp_conns d) remote = Some c"
    and "build_raw env (to_header meta (feature_id feature) (ToNode dst) (wc_node (dp_ctx d))) payload = Some bs"
    and "encrypt_if_need env now bs c = (Some wire, c')"
  shows "outgoing_route env now feature (ToNode dst) meta payload d = Some (dp_push [DoNet (UdpPacket remote wire)] (dp_put_conn remote c' d))"
  using assms by (simp add: outgoing_route_def route_to_node Let_def push_net_def build_send_to_from_mut_def)

lemma to_header_fields:
  "h_version (to_header m f r n) = 0" "h_encrypt (to_header m f r n) = om_secure m" "h_route (to_header m f r n) = r"
  "h_feature (to_header m f r n) = f"
  by (simp_all add: to_header_def set_encrypt_def set_from_node_def set_ttl_def header_build_def)

lemma incoming_relayed:
  "incoming_of_header ((to_header m f r n)\<lparr>h_ttl := t\<rparr>) = (to_incoming m n)\<lparr>im_ttl := t\<rparr>"
  "h_ttl (to_header m f r n) = om_ttl m"
  by (simp_all add: to_header_def set_encrypt_def set_from_node_def set_ttl_def header_build_def incoming_of_header_def to_incoming_def)

lemma feature_of_id: "feature_of_u8 (feature_id f) = Some f"
  by (cases f) (simp_all add: feature_of_u8_def all_features_def)

lemma local_action:
  assumes "header_try_from bs = Inr h" "feature_of_u8 (h_feature h) = Some f" "f \<noteq> FPubSub"
  shows "incoming_action env now pair c h bs Local d =
    dp_call (fwm_dispatch (e_ser env) (Inl (dc_conn c, incoming_of_header h, drop (serialize_size h) bs)) f) d"
  using assms header_size_fits [OF assms(1)] by (simp add: incoming_action_def fwm_on_network_raw_def [abs_def])

subsection \<open>Packets across the network\<close>

text \<open>
  C34. A routed packet is delivered. A feature of node \<open>a\<close> sends a payload to a node; the router of \<open>a\<close> names the neighbour \<open>b\<close>, that
  of \<open>b\<close> the neighbour \<open>c\<close>, and \<open>c\<close> is the destination. Then \<open>a\<close> puts one packet on the wire, \<open>b\<close> relays it as one packet, and \<open>c\<close>
  hands the payload, byte for byte, to the same feature, with the origin, metadata and flags that \<open>a\<close> asked for
  and a time to live that is one smaller. When encryption is asked for, each of the two packets on the wire is the first byte and the
  ciphertext of the rest under the keys of the connection it leaves by; this needs that each link decrypts what its other end
  encrypted. Otherwise the packets travel as they were built.
\<close>

theorem routed_packet_delivered:
  assumes "\<And>k. length (e_front ea k) = k" "f \<noteq> FPubSub"
    and routes: "sr_path_to_node (wc_router (dp_ctx da)) dst = Some (Next ab)" "sr_path_to_node (wc_router (dp_ctx db)) dst = Some (Next bc)"
      "sr_path_to_node (wc_router (dp_ctx dc)) dst = Some Local"
    and conns: "map_of (dp_conns da) ab = Some ca" "map_of (dp_conns db) ba = Some cb" "map_of (dp_conns db) bc = Some cb'" "ba \<noteq> bc"
      "map_of (dp_conns dc) cbp = Some cc"
    and links: "om_secure meta \<Longrightarrow> link ea t1 ca eb t2 cb" "om_secure meta \<Longrightarrow> link eb t2 cb' ec t3 cc"
  shows "\<exists>bs da' w1 db' w2 k. build_raw ea (to_header meta (feature_id f) (ToNode dst) (wc_node (dp_ctx da))) payload = Some bs \<and>
    outgoing_route ea t1 f (ToNode dst) meta payload da = Some da' \<and>
    dp_queue da' = dp_queue da @ [DoNet (UdpPacket ab w1)] \<and> sealed ea t1 ca (om_secure meta) bs w1 \<and>
    dp_on_event eb t2 (DpNet (UdpIn ba w1)) db = Some db' \<and>
    dp_queue db' = dp_queue db @ [DoNet (UdpPacket bc w2)] \<and> sealed eb t2 cb' (om_secure meta) (bs[1 := hop_ttl (om_ttl meta)]) w2 \<and>
    dp_on_event ec t3 (DpNet (UdpIn cbp w2)) dc =
      dp_call (fwm_dispatch (e_ser ec) (Inl (dc_conn cc, (to_incoming meta (wc_node (dp_ctx da)))\<lparr>im_ttl := hop_ttl (om_ttl meta)\<rparr>, payload)) f)
        (dp_put_conn cbp (cc\<lparr>dc_secure := k\<rparr>) dc)"
proof -
  let ?h = "to_header meta (feature_id f) (ToNode dst) (wc_node (dp_ctx da))"
  obtain bs where bs: "build_raw ea ?h payload = Some bs" "header_try_from bs = Inr ?h" "drop (serialize_size ?h) bs = payload"
    using build_raw_run [where env = ea, OF assms(1), of ?h payload] by (auto simp: to_header_fields)
  let ?bs = "bs[1 := hop_ttl (h_ttl ?h)]" and ?h' = "?h\<lparr>h_ttl := hop_ttl (h_ttl ?h)\<rparr>"
  have hop: "header_try_from ?bs = Inr ?h'" "?bs ! 0 = bs ! 0" using decrease_ttl_hop [OF bs(2)] by simp_all
  have sec: "header_is_secure (bs ! 0) = om_secure meta" "bs \<noteq> []" using header_secure_bit [OF bs(2)] by (simp_all add: to_header_fields)
  obtain w1 k1 k1' where w1: "encrypt_if_need ea t1 bs ca = (Some w1, ca\<lparr>dc_secure := k1\<rparr>)" "w1 \<noteq> []" "w1 ! 0 = bs ! 0"
      "decrypt_if_need eb t2 w1 cb = (Some bs, cb\<lparr>dc_secure := k1'\<rparr>)" "sealed ea t1 ca (om_secure meta) bs w1"
    using link_crypt [of bs ea t1 ca eb t2 cb] links(1) sec by auto
  obtain w2 k2 k2' where w2: "encrypt_if_need eb t2 ?bs cb' = (Some w2, cb'\<lparr>dc_secure := k2\<rparr>)" "w2 \<noteq> []" "w2 ! 0 = ?bs ! 0"
      "decrypt_if_need ec t3 w2 cc = (Some ?bs, cc\<lparr>dc_secure := k2'\<rparr>)" "sealed eb t2 cb' (om_secure meta) ?bs w2"
    using link_crypt [of ?bs eb t2 cb' ec t3 cc] links(2) sec hop(2) by auto
  have a: "outgoing_route ea t1 f (ToNode dst) meta payload da = Some (dp_push [DoNet (UdpPacket ab w1)] (dp_put_conn ab (ca\<lparr>dc_secure := k1\<rparr>) da))"
    using packet_leaves [OF routes(1) conns(1) bs(1) w1(1)] .
  have at: "h_route ?h' = ToNode dst" "feature_of_u8 (h_feature ?h') = Some f" by (simp_all add: to_header_fields feature_of_id)
  let ?db = "dp_put_conn ba (cb\<lparr>dc_secure := k1'\<rparr>) db"
  have b: "dp_on_event eb t2 (DpNet (UdpIn ba w1)) db = Some (dp_push [DoNet (UdpPacket bc w2)] (dp_put_conn bc (cb'\<lparr>dc_secure := k2\<rparr>) ?db))"
    using packet_arrives [OF conns(2) w1(2-4) bs(2) _ routes(2)] relay_action [OF bs(2) _ w2(1), of ?db bc] conns(3,4)
    by (simp add: to_header_fields)
  have c: "dp_on_event ec t3 (DpNet (UdpIn cbp w2)) dc =
      dp_call (fwm_dispatch (e_ser ec) (Inl (dc_conn cc, incoming_of_header ?h', drop (serialize_size ?h') ?bs)) f) (dp_put_conn cbp (cc\<lparr>dc_secure := k2'\<rparr>) dc)"
    using packet_arrives [OF conns(5) w2(2-4) hop(1) at(1) routes(3)] local_action [OF hop(1) at(2) assms(2), where c = "cc\<lparr>dc_secure := k2'\<rparr>"]
    by simp
  have "serialize_size ?h' = serialize_size ?h" "4 \<le> serialize_size ?h" by (simp_all add: serialize_size_def)
  then have "drop (serialize_size ?h') ?bs = payload" using bs(3) by simp
  moreover have "h_ttl ?h = om_ttl meta" by (simp add: to_header_def set_encrypt_def set_from_node_def set_ttl_def header_build_def)
  ultimately show ?thesis using a b c bs(1) w1(5) w2(5)
    by (intro exI [of _ bs] exI [of _ "dp_push [DoNet (UdpPacket ab w1)] (dp_put_conn ab (ca\<lparr>dc_secure := k1\<rparr>) da)"] exI [of _ w1]
        exI [of _ "dp_push [DoNet (UdpPacket bc w2)] (dp_put_conn bc (cb'\<lparr>dc_secure := k2\<rparr>) ?db)"] exI [of _ w2] exI [of _ k2'])
      (simp add: incoming_relayed)
qed

text \<open>Small worlds for the witnesses: planes with one routing entry, and encryption that inverts every byte.\<close>

definition demo_pair :: "u32 \<Rightarrow> net_pair" where
  "demo_pair x = \<lparr>np_local = SocketV4 0 1, np_remote = SocketV4 x 1\<rparr>"

definition demo_env :: "(unit, unit, unit, unit, unit, unit, unit) dp_env" where
  "demo_env = \<lparr>e_ser = (\<lambda>_. []), e_de = (\<lambda>_. None), e_nc_enc = (\<lambda>_. None), e_nc_dec = (\<lambda>_. None), e_front = (\<lambda>k. replicate k 0),
     e_encrypt = (\<lambda>_ body k. (Some (map (\<lambda>b. 255 - b) body), k)), e_decrypt = (\<lambda>_ body k. (Some (map (\<lambda>b. 255 - b) body), k)),
     e_services = \<lparr>so_on_tick = (\<lambda>_ _ _ s. s), so_on_input = (\<lambda>_ _ _ s. s), so_on_shutdown = (\<lambda>_ _ s. s),
       so_pop_output = (\<lambda>_ s. (None, s)), so_is_empty = (\<lambda>_. True)\<rparr>\<rparr>"

definition demo_conn :: "node_id \<Rightarrow> net_pair \<Rightarrow> unit dp_conn" where
  "demo_conn n p = \<lparr>dc_node = n, dc_conn = from_in 0 (ucast n), dc_pair = p, dc_secure = ()\<rparr>"

definition demo_plane :: "node_id \<Rightarrow> u8 \<Rightarrow> u32 \<Rightarrow> u32 list \<Rightarrow> (unit, unit, unit, unit, unit, unit) data_plane" where
  "demo_plane n slot remote peers =
     (dp_new n 0 [])\<lparr>dp_ctx := \<lparr>wc_node = n,
        wc_router = (sr_new n)\<lparr>sr_tables := (sr_tables (sr_new n))[0 := st_set (sr_tables (sr_new n) ! 0) slot (demo_pair remote)]\<rparr>\<rparr>,
      dp_conns := map (\<lambda>x. (demo_pair x, demo_conn x (demo_pair x))) peers\<rparr>"

lemma demo_path:
  "sr_path_to_node (wc_router (dp_ctx (demo_plane 1 3 2 xs))) 3 = Some (Next (demo_pair 2))"
  "sr_path_to_node (wc_router (dp_ctx (demo_plane 2 3 3 xs))) 3 = Some (Next (demo_pair 3))"
  "sr_path_to_node (wc_router (dp_ctx (demo_plane 2 3 1 xs))) 3 = Some (Next (demo_pair 1))"
  "sr_path_to_node (wc_router (dp_ctx (demo_plane 3 1 2 xs))) 3 = Some Local"
  by (simp_all add: demo_plane_def sr_path_to_node_def sr_next_def sr_new_def eq_util_layer_def layer_byte_def st_next_def layer_def
      st_set_def st_new_def Let_def)

lemma demo_link: "link demo_env t c demo_env t' c'"
  by (simp add: link_def demo_env_def comp_def)

lemma demo_pair_eq: "demo_pair x = demo_pair y \<longleftrightarrow> x = y"
  by (simp add: demo_pair_def)

lemma routed_packet_delivered_witness:
  "\<exists>bs da' w1 db' w2 k. outgoing_route demo_env 0 FData (ToNode 3) outgoing_secure [7, 8] (demo_plane 1 3 2 [2]) = Some da' \<and>
    dp_queue da' = [DoNet (UdpPacket (demo_pair 2) w1)] \<and> tl w1 = map (\<lambda>b. 255 - b) (tl bs) \<and>
    build_raw demo_env (to_header outgoing_secure (feature_id FData) (ToNode 3) 1) [7, 8] = Some bs \<and>
    dp_on_event demo_env 0 (DpNet (UdpIn (demo_pair 1) w1)) (demo_plane 2 3 3 [1, 3]) = Some db' \<and>
    dp_queue db' = [DoNet (UdpPacket (demo_pair 3) w2)] \<and>
    dp_on_event demo_env 0 (DpNet (UdpIn (demo_pair 2) w2)) (demo_plane 3 1 2 [2]) =
      dp_call (fwm_dispatch (\<lambda>_. []) (Inl (from_in 0 2, \<lparr>im_source = None, im_ttl = 63, im_meta = 0, im_secure = True\<rparr>, [7, 8])) FData)
        (dp_put_conn (demo_pair 2) ((demo_conn 2 (demo_pair 2))\<lparr>dc_secure := k\<rparr>) (demo_plane 3 1 2 [2]))"
proof -
  have conns: "map_of (dp_conns (demo_plane 1 3 2 [2])) (demo_pair 2) = Some (demo_conn 2 (demo_pair 2))"
    "map_of (dp_conns (demo_plane 2 3 3 [1, 3])) (demo_pair 1) = Some (demo_conn 1 (demo_pair 1))"
    "map_of (dp_conns (demo_plane 2 3 3 [1, 3])) (demo_pair 3) = Some (demo_conn 3 (demo_pair 3))"
    "demo_pair 1 \<noteq> demo_pair 3"
    "map_of (dp_conns (demo_plane 3 1 2 [2])) (demo_pair 2) = Some (demo_conn 2 (demo_pair 2))"
    by (simp_all add: demo_plane_def demo_pair_eq)
  have "\<And>k. length (e_front demo_env k) = k" by (simp add: demo_env_def)
  from routed_packet_delivered [OF this _ demo_path(1,2,4) conns demo_link demo_link,
      where f = FData and meta = outgoing_secure and payload = "[7, 8]" and ?t1.0 = 0 and ?t2.0 = 0 and ?t3.0 = 0]
  obtain bs da' w1 db' w2 k where
    "build_raw demo_env (to_header outgoing_secure (feature_id FData) (ToNode 3) (wc_node (dp_ctx (demo_plane 1 3 2 [2])))) [7, 8] = Some bs"
    "outgoing_route demo_env 0 FData (ToNode 3) outgoing_secure [7, 8] (demo_plane 1 3 2 [2]) = Some da'"
    "dp_queue da' = dp_queue (demo_plane 1 3 2 [2]) @ [DoNet (UdpPacket (demo_pair 2) w1)]"
    "sealed demo_env 0 (demo_conn 2 (demo_pair 2)) (om_secure outgoing_secure) bs w1"
    "dp_on_event demo_env 0 (DpNet (UdpIn (demo_pair 1) w1)) (demo_plane 2 3 3 [1, 3]) = Some db'"
    "dp_queue db' = dp_queue (demo_plane 2 3 3 [1, 3]) @ [DoNet (UdpPacket (demo_pair 3) w2)]"
    "dp_on_event demo_env 0 (DpNet (UdpIn (demo_pair 2) w2)) (demo_plane 3 1 2 [2]) =
      dp_call (fwm_dispatch (e_ser demo_env) (Inl (dc_conn (demo_conn 2 (demo_pair 2)),
          (to_incoming outgoing_secure (wc_node (dp_ctx (demo_plane 1 3 2 [2]))))\<lparr>im_ttl := hop_ttl (om_ttl outgoing_secure)\<rparr>, [7, 8])) FData)
        (dp_put_conn (demo_pair 2) ((demo_conn 2 (demo_pair 2))\<lparr>dc_secure := k\<rparr>) (demo_plane 3 1 2 [2]))"
    by blast
  moreover have "wc_node (dp_ctx (demo_plane 1 3 2 [2])) = 1" "dp_queue (demo_plane 1 3 2 [2]) = []" "dp_queue (demo_plane 2 3 3 [1, 3]) = []"
    "e_ser demo_env = (\<lambda>_. [])" "dc_conn (demo_conn 2 (demo_pair 2)) = from_in 0 2"
    by (simp_all add: demo_plane_def dp_new_def demo_env_def demo_conn_def)
  moreover have "om_secure outgoing_secure" "fst (e_encrypt demo_env 0 body k') = Some (map (\<lambda>b. 255 - b) body)"
    "(to_incoming outgoing_secure 1)\<lparr>im_ttl := hop_ttl (om_ttl outgoing_secure)\<rparr> = \<lparr>im_source = None, im_ttl = 63, im_meta = 0, im_secure = True\<rparr>" for body k'
    by (simp_all add: outgoing_secure_def to_incoming_def hop_ttl_def DEFAULT_MSG_TTL_def demo_env_def)
  ultimately show ?thesis
    by (intro exI [of _ bs] exI [of _ da'] exI [of _ w1] exI [of _ db'] exI [of _ w2] exI [of _ k]) (simp add: sealed_def)
qed

subsection \<open>Time to live\<close>

text \<open>One packet sent back and forth between two nodes.\<close>

definition bounce :: "('u, 's, 'sc, 'se, 'tc, 'tw, 'k) dp_env \<Rightarrow> ('u, 's, 'sc, 'se, 'tc, 'tw, 'k) dp_env \<Rightarrow> net_pair \<Rightarrow> net_pair \<Rightarrow> bytes \<Rightarrow> time \<Rightarrow>
    ('u, 's, 'sc, 'se, 'tc, 'k) data_plane \<times> ('u, 's, 'sc, 'se, 'tc, 'k) data_plane \<Rightarrow>
    (('u, 's, 'sc, 'se, 'tc, 'k) data_plane \<times> ('u, 's, 'sc, 'se, 'tc, 'k) data_plane) run" where
  "bounce ea eb ab ba pkt now dd =
     do {
       db \<leftarrow> dp_on_event eb now (DpNet (UdpIn ba pkt)) (snd dd);
       da \<leftarrow> dp_on_event ea now (DpNet (UdpIn ab pkt)) (fst dd);
       Some (da, db)
     }"

lemma expired_hop:
  assumes "header_try_from pkt = Inr h" "h_route h = ToNode dst" "h_ttl h = 0" "\<not> h_encrypt h"
    and "sr_path_to_node (wc_router (dp_ctx d)) dst = Some (Next p)" "map_of (dp_conns d) p = Some c"
  shows "\<exists>d'. dp_on_event env now (DpNet (UdpIn p pkt)) d = Some d' \<and> dp_queue d' = dp_queue d @ [DoNet (UdpPacket p pkt)] \<and>
    dp_ctx d' = dp_ctx d \<and> map_of (dp_conns d') p = Some c"
proof -
  have ne: "pkt \<noteq> []" and sec: "\<not> header_is_secure (pkt ! 0)" using header_secure_bit [OF assms(1)] assms(4) by simp_all
  then have plain: "decrypt_if_need env now pkt c = (Some pkt, c\<lparr>dc_secure := dc_secure c\<rparr>)" "encrypt_if_need env now pkt c = (Some pkt, c)"
    by (cases pkt; simp add: decrypt_if_need_def encrypt_if_need_def crypt_if_need_def)+
  have same: "pkt[1 := hop_ttl (h_ttl h)] = pkt"
    using header_try_from_cases [OF assms(1)] assms(3) by (metis hop_ttl_def list_update_id)
  show ?thesis
    using packet_arrives [OF assms(6) ne refl plain(1) assms(1,2,5)]
      relay_action [OF assms(1), of "dp_put_conn p (c\<lparr>dc_secure := dc_secure c\<rparr>) d" p c env now] plain(2) same
    by simp
qed

text \<open>
  C38. Expired packets are relayed for ever. When the routers of two neighbours name each other as the next hop for a node, as they may
  while routes change, a packet for that node whose time to live is zero is passed on by both, unchanged, as often as it
  arrives: after any number of rounds each has sent it once per round, and nothing has been dropped.
\<close>

theorem unicast_ttl_not_enforced:
  assumes "header_try_from pkt = Inr h" "h_route h = ToNode dst" "h_ttl h = 0" "\<not> h_encrypt h"
    and "sr_path_to_node (wc_router (dp_ctx da)) dst = Some (Next ab)" "map_of (dp_conns da) ab = Some ca"
    and "sr_path_to_node (wc_router (dp_ctx db)) dst = Some (Next ba)" "map_of (dp_conns db) ba = Some cb"
  shows "\<exists>da' db'. for_run (bounce ea eb ab ba pkt) ts (da, db) = Some (da', db') \<and>
    dp_queue da' = dp_queue da @ replicate (length ts) (DoNet (UdpPacket ab pkt)) \<and>
    dp_queue db' = dp_queue db @ replicate (length ts) (DoNet (UdpPacket ba pkt))"
  using assms(5-)
proof (induction ts arbitrary: da db)
  case (Cons now ts)
  obtain da1 db1 where
    a: "dp_on_event ea now (DpNet (UdpIn ab pkt)) da = Some da1" "dp_queue da1 = dp_queue da @ [DoNet (UdpPacket ab pkt)]"
      "dp_ctx da1 = dp_ctx da" "map_of (dp_conns da1) ab = Some ca" and
    b: "dp_on_event eb now (DpNet (UdpIn ba pkt)) db = Some db1" "dp_queue db1 = dp_queue db @ [DoNet (UdpPacket ba pkt)]"
      "dp_ctx db1 = dp_ctx db" "map_of (dp_conns db1) ba = Some cb"
    using expired_hop [OF assms(1-4) Cons.prems(1,2)] expired_hop [OF assms(1-4) Cons.prems(3,4)] by metis
  have "\<exists>da' db'. for_run (bounce ea eb ab ba pkt) ts (da1, db1) = Some (da', db') \<and>
    dp_queue da' = dp_queue da1 @ replicate (length ts) (DoNet (UdpPacket ab pkt)) \<and>
    dp_queue db' = dp_queue db1 @ replicate (length ts) (DoNet (UdpPacket ba pkt))"
    using Cons.prems a(3,4) b(3,4) by (intro Cons.IH) simp_all
  moreover have "bounce ea eb ab ba pkt now (da, db) = Some (da1, db1)" using a(1) b(1) by (simp add: bounce_def)
  ultimately show ?case using a(2) b(2) by auto
qed simp

lemma unicast_ttl_not_enforced_witness:
  "\<exists>da' db'. for_run (bounce demo_env demo_env (demo_pair 2) (demo_pair 1) [1, 0, 1, 0, 0, 0, 0, 3]) [0, 5, 9]
      (demo_plane 1 3 2 [2], demo_plane 2 3 1 [1]) = Some (da', db') \<and>
    dp_queue da' = replicate 3 (DoNet (UdpPacket (demo_pair 2) [1, 0, 1, 0, 0, 0, 0, 3]))"
proof -
  have h: "header_try_from [1, 0, 1, 0, 0, 0, 0, 3] = Inr (set_ttl (header_build 1 0 (ToNode 3)) 0)"
    by (simp add: header_try_from_def get_route_def route_consts set_ttl_def header_build_def of_be32_def)
  have conns: "map_of (dp_conns (demo_plane 1 3 2 [2])) (demo_pair 2) = Some (demo_conn 2 (demo_pair 2))"
    "map_of (dp_conns (demo_plane 2 3 1 [1])) (demo_pair 1) = Some (demo_conn 1 (demo_pair 1))"
    by (simp_all add: demo_plane_def)
  have f: "h_route (set_ttl (header_build 1 0 (ToNode 3)) 0) = ToNode 3" "h_ttl (set_ttl (header_build 1 0 (ToNode 3)) 0) = 0"
    "\<not> h_encrypt (set_ttl (header_build 1 0 (ToNode 3)) 0)"
    by (simp_all add: set_ttl_def header_build_def)
  from unicast_ttl_not_enforced [OF h f demo_path(1) conns(1) demo_path(3) conns(2), of demo_env demo_env "[0, 5, 9]"]
  show ?thesis by (simp add: demo_plane_def dp_new_def numeral_eq_Suc del: for_run.simps) blast
qed

end
