(* ===== verification/Spec2Isabelle.thy ===== *)
theory Spec2Isabelle
  imports Route_Network Broadcast_History Router_Sync Dht_Kv Alias Neighbours Pubsub_Worker Data_Routing
begin

text \<open>
  A verification development for atm0s-sdn, a decentralised software-defined network. A node of the network is
  one controller and several workers. The controller keeps the connections to the neighbours
  (\<^verbatim>\<open>packages/network/src/neighbours\<close>), the core router that collects routes from them
  (\<^verbatim>\<open>packages/core/router/src/core\<close>) and the control halves of the features
  (\<^verbatim>\<open>packages/network/src/features\<close>). A worker keeps the data plane (\<^verbatim>\<open>packages/network/src/data_plane\<close>): a shadow
  router filled with the deltas of the core router, the keys of the connections, and the worker halves of the
  features. Nodes exchange control messages (signed, between neighbours) and transport messages (routed to a node,
  a key, a service or a neighbour).

  \<^bold>\<open>Theories and sources.\<close>
  \<^item> \<open>Prelude\<close>: words, panicking runs, loops over 256 indices, association lists, and the locales \<open>delta_log\<close>
    (a store that publishes its changes as deltas), \<open>run_invariant\<close> and \<open>run_relation\<close> (an invariant, or a relation
    to the start, kept by every step that may panic) and \<open>cell_array\<close> (256 cells updated one by one).
  \<^item> \<open>Identity\<close> (\<^verbatim>\<open>core/identity\<close>: \<^verbatim>\<open>node_id.rs\<close>, \<^verbatim>\<open>conn_id.rs\<close>): the four byte layers of a node identifier, XOR
    distance, connection identifiers.
  \<^item> \<open>Path_Metric\<close>, \<open>Route_Dest\<close>, \<open>Route_Table\<close>, \<open>Service_Registry\<close>, \<open>Core_Router\<close> (\<^verbatim>\<open>core/router/src/core\<close>): ranked
    paths, the destinations of one layer, the services, and the router with its synchronisation messages and
    deltas. \<open>path_store\<close> is the contract of everything that holds ranked paths.
  \<^item> \<open>Route_Network\<close>: an asynchronous network of core routers that exchange synchronisation messages.
  \<^item> \<open>Shadow_Router\<close> (\<^verbatim>\<open>core/router/src/lib.rs\<close>, \<^verbatim>\<open>shadow/\<close>): the router of a worker and the routing decision for a
    message. \<open>Broadcast_History\<close> (\<^verbatim>\<open>runner/src/history.rs\<close>): the history that stops repeated broadcasts.
  \<^item> \<open>Transport_Msg\<close> (\<^verbatim>\<open>network/src/base/msg.rs\<close>): the header codec, byte for byte. \<open>Feature_Base\<close>
    (\<^verbatim>\<open>base/feature.rs\<close>, \<^verbatim>\<open>base/mod.rs\<close>): the inputs and outputs of features.
  \<^item> \<open>Router_Sync\<close> (\<^verbatim>\<open>features/router_sync.rs\<close>): the feature that owns the core router and feeds the shadow routers.
  \<^item> \<open>Dht_Msg\<close>, \<open>Dht_Server\<close>, \<open>Dht_Client\<close>, \<open>Dht_Kv\<close> (\<^verbatim>\<open>features/dht_kv\<close>): the key-value store: relay, client copy and
    the feature that joins them.
  \<^item> \<open>Alias\<close> (\<^verbatim>\<open>features/alias.rs\<close>), \<open>Socket_Feature\<close> (\<^verbatim>\<open>socket.rs\<close>), \<open>Data_Feature\<close> (\<^verbatim>\<open>data.rs\<close>), \<open>Neighbours_Api\<close>
    (\<^verbatim>\<open>neighbours.rs\<close> and \<^verbatim>\<open>vpn.rs\<close> of the features).
  \<^item> \<open>Neighbours\<close> (\<^verbatim>\<open>neighbours.rs\<close>, \<^verbatim>\<open>neighbours/connection.rs\<close>, \<^verbatim>\<open>base/control.rs\<close>): the state machine of a connection, the
    manager of all connections, and the signed control messages.
  \<^item> \<open>Pubsub_Msg\<close>, \<open>Pubsub_Feedback\<close>, \<open>Pubsub_Relay\<close>, \<open>Pubsub_Hint\<close>, \<open>Pubsub_Feature\<close>, \<open>Pubsub_Worker\<close>
    (\<^verbatim>\<open>features/pubsub\<close>): consumers, feedback aggregation, local and remote relays, source hints, and both halves.
  \<^item> \<open>Feature_Manager\<close> (\<^verbatim>\<open>features/mod.rs\<close>, \<^verbatim>\<open>data_plane/features.rs\<close>), \<open>Data_Plane\<close> (\<^verbatim>\<open>data_plane.rs\<close>,
    \<^verbatim>\<open>data_plane/connection.rs\<close>, \<^verbatim>\<open>data_plane/services.rs\<close>, \<^verbatim>\<open>base/service.rs\<close>), \<open>Data_Routing\<close>: dispatch of packets and
    inputs in a worker, and what happens to a packet on its way.

  \<^bold>\<open>How the code is read.\<close> A struct is a \<open>record\<close> with the fields of the source behind a short prefix, an enum a
  \<open>datatype\<close> with its constructors, a method a function from the old state to the new one. A method that may panic
  returns in \<open>run\<close>, where \<open>None\<close> is the panic, so that a theorem with \<open>\<exists>x. f s = Some x\<close> says that it returns.
  Fixed-width integers are words; additions wrap and \<^verbatim>\<open>debug_assert!\<close> is compiled out, as in a release build. Clocks in
  milliseconds are natural numbers; where a clock value comes from the wire and is added to (\<open>nc_validate\<close>) the
  sum is taken modulo \<open>2 ^ 64\<close>. Hash maps that are iterated are association lists in an arbitrary order. All loops are
  bounded by a list or proved to end, so no fuel is used; \<open>feedback_tick_terminates\<close> is the one loop nest whose end
  needs an argument about the state.
  What lies outside the repository is a parameter: the codec \<^verbatim>\<open>bincode\<close> (\<open>ser\<close>, \<open>de\<close>), signatures, the handshake and the
  encryption (\<open>sign\<close>, \<open>validate\<close>, \<open>respond\<close>, \<open>e_encrypt\<close>, \<open>e_decrypt\<close>), random numbers, and the order in which the
  runtime library polls tasks. A theorem that needs a round trip of such a parameter has it as a hypothesis.

  \<^bold>\<open>What is shown.\<close>
  \<^item> Routing: the router never panics and its lookups are characterised; a key has one owner in a full mesh; a
    removed connection leaves no trace; the deltas determine the best connections; selected paths in any reachable
    network are free of loops; the workers forward as the controller routes, and the one case in which they do not
    follow (services of a closed connection) is made precise.
  \<^item> Messages: both directions of the header codec, the time to live, the once-only broadcast history, the
    control-message format.
  \<^item> Key-value store: the relay refines versioned registers, resends until acknowledged, and a subscriber can
    rebuild the map; no input makes the feature panic.
  \<^item> Alias and data features: every query or ping is answered exactly once.
  \<^item> Neighbours: crossing connection attempts agree on one session; the events describe the neighbour table.
  \<^item> Publish and subscribe: relays have the right kind, the workers hold the consumers that the controller
    decided, data reaches a remote subscriber, hints and feedback.
  \<^item> Data plane: a routed packet is relayed and delivered, encrypted on the links when asked; sockets mirror between
    the halves.

  \<^bold>\<open>What is not modelled.\<close> The controller plane, the worker shell and the two bundled services, which dispatch between
  the components above and the runtime library; the X25519 and AES encryption and the static-key authorization, which call cryptographic
  libraries; the runner, the command-line program, address parsing and printers, which are input and output.
\<close>

end
